(* ===== verification/Prelude.thy ===== *)
theory Prelude
  imports Complex_Main "HOL-Library.Char_ord" "HOL-Library.List_Lexorder"
    "HOL-Library.Multiset"
begin

text \<open>
  The values the program computes with, and the lemmas every component shares.

  A JavaScript value is a \<open>jsval\<close>. An object is the list of its own enumerable properties
  in property order; \<open>JObj\<close> is a plain object (prototype \<open>Object.prototype\<close> or \<open>null\<close>),
  \<open>JInst\<close> an instance of a class, \<open>JDate\<close> a \<open>Date\<close> with its time value (\<open>None\<close> for an invalid
  one), \<open>JOpaque t\<close> any other value, by what \<open>typeof\<close> says of it (a function, a symbol, a
  bigint). A number is an exact rational or one of the three
  non-finite values; the code compares numbers, tests them for being integers, and adds and
  subtracts counters, all of which is exact. A string is a sequence of UTF-16 code units; the
  model covers the code units below 256, so a code unit is a \<open>char\<close>, there is no surrogate
  pair, and a code unit is a code point.
\<close>

section \<open>Values\<close>

datatype jsnum = Fin rat | PosInf | NegInf | NaN

datatype jsval =
    JUndef
  | JNull
  | JBool bool
  | JNum jsnum
  | JStr string
  | JArr "jsval list"
  | JObj "(string \<times> jsval) list"
  | JInst "(string \<times> jsval) list"
  | JDate "int option"
  | JOpaque string

type_synonym fields = "(string \<times> jsval) list"

text \<open>The hints the component proofs share.\<close>

named_theorems js_simps \<open>reading properties and classifying values\<close>
named_theorems str_simps \<open>operations on strings\<close>

lemma size_entry [termination_simp]:
  "(k, v) \<in> set kvs \<Longrightarrow> size v < Suc (size_list (size_prod (\<lambda>_. 0) size) kvs)"
  by (induction kvs) auto

lemma size_entry_snd [termination_simp]:
  "p \<in> set kvs \<Longrightarrow> size (snd p) < Suc (size_list (size_prod (\<lambda>_. 0) size) kvs)"
  by (cases p) (simp add: size_entry)

subsection \<open>Numbers\<close>

fun is_finite :: "jsnum \<Rightarrow> bool" where
  "is_finite (Fin _) = True"
| "is_finite _ = False"

fun is_integer :: "jsnum \<Rightarrow> bool" where
  "is_integer (Fin r) = (of_int \<lfloor>r\<rfloor> = r)"
| "is_integer _ = False"

text \<open>\<open>x < y\<close> of JavaScript: false as soon as one side is \<open>NaN\<close>.\<close>

fun num_less :: "jsnum \<Rightarrow> jsnum \<Rightarrow> bool" where
  "num_less (Fin a) (Fin b) = (a < b)"
| "num_less (Fin _) PosInf = True"
| "num_less NegInf (Fin _) = True"
| "num_less NegInf PosInf = True"
| "num_less _ _ = False"

lemma is_integer_finite: "is_integer n \<Longrightarrow> is_finite n"
  by (cases n) auto

lemma is_integer_of_int [simp]: "is_integer (Fin (of_int i))"
  by simp

lemma is_integer_of_nat [simp]: "is_integer (Fin (of_nat i))"
  by simp

subsection \<open>Properties\<close>

text \<open>The value of property \<open>k\<close>, \<open>undefined\<close> when there is none.\<close>

definition field :: "fields \<Rightarrow> string \<Rightarrow> jsval" where
  "field kvs k = (case map_of kvs k of Some v \<Rightarrow> v | None \<Rightarrow> JUndef)"

fun entries :: "jsval \<Rightarrow> fields" where
  "entries (JObj kvs) = kvs"
| "entries (JInst kvs) = kvs"
| "entries _ = []"

definition jget :: "jsval \<Rightarrow> string \<Rightarrow> jsval" where
  "jget v k = field (entries v) k"

definition keys :: "jsval \<Rightarrow> string list" where
  "keys v = map fst (entries v)"

fun is_object :: "jsval \<Rightarrow> bool" where
  "is_object (JObj _) = True"
| "is_object (JInst _) = True"
| "is_object (JDate _) = True"
| "is_object _ = False"

fun is_plain :: "jsval \<Rightarrow> bool" where
  "is_plain (JObj _) = True"
| "is_plain _ = False"

lemma field_Nil [simp]: "field [] k = JUndef"
  by (simp add: field_def)

lemma field_Cons [simp]: "field ((k, v) # kvs) k' = (if k' = k then v else field kvs k')"
  by (simp add: field_def)

lemma jget_simps [js_simps]:
  "jget (JObj kvs) k = field kvs k"
  "jget (JInst kvs) k = field kvs k"
  "jget JUndef k = JUndef" "jget JNull k = JUndef" "jget (JBool b) k = JUndef"
  "jget (JNum n) k = JUndef" "jget (JStr s) k = JUndef" "jget (JArr xs) k = JUndef"
  "jget (JDate tv) k = JUndef"
  "jget (JOpaque t) k = JUndef"
  by (simp_all add: jget_def)

lemma keys_simps [js_simps]:
  "keys (JObj kvs) = map fst kvs" "keys (JInst kvs) = map fst kvs" "keys (JDate tv) = []"
  by (simp_all add: keys_def)

lemma field_in_set: "field kvs k \<noteq> JUndef \<Longrightarrow> (k, field kvs k) \<in> set kvs"
  by (auto simp: field_def map_of_SomeD split: option.splits)

lemma jget_in_keys: "jget v k \<noteq> JUndef \<Longrightarrow> k \<in> set (keys v)"
  by (auto simp: jget_def keys_def dest: field_in_set intro: rev_image_eqI)

lemma field_notin: "k \<notin> fst ` set kvs \<Longrightarrow> field kvs k = JUndef"
  by (simp add: field_def map_of_eq_None_iff [THEN iffD2])

lemma field_unique: "distinct (map fst kvs) \<Longrightarrow> (k, v) \<in> set kvs \<Longrightarrow> field kvs k = v"
  by (simp add: field_def)

lemma is_object_cases:
  assumes "is_object v"
  obtains kvs where "v = JObj kvs" | kvs where "v = JInst kvs" | t where "v = JDate t"
  using assms by (cases v) auto

text \<open>An object whose property names are pairwise different, as every JavaScript object is.\<close>

fun wf_val :: "jsval \<Rightarrow> bool" where
  "wf_val (JObj kvs) = (distinct (map fst kvs) \<and> (\<forall>(k, v) \<in> set kvs. wf_val v))"
| "wf_val (JInst kvs) = (distinct (map fst kvs) \<and> (\<forall>(k, v) \<in> set kvs. wf_val v))"
| "wf_val (JArr xs) = (\<forall>x \<in> set xs. wf_val x)"
| "wf_val _ = True"

lemma wf_jget: "wf_val v \<Longrightarrow> wf_val (jget v k)"
  by (cases v) (auto simp: jget_simps field_def dest: map_of_SomeD split: option.splits)

text \<open>
  \<open>o[k] = v\<close>: a new property goes last, an existing one keeps its place. (Where a name may be
  an array index, \<open>property_order\<close> of \<open>Strings\<close> follows.)
\<close>

fun put :: "('k \<times> 'v) list \<Rightarrow> 'k \<Rightarrow> 'v \<Rightarrow> ('k \<times> 'v) list" where
  "put [] k v = [(k, v)]"
| "put ((k', v') # kvs) k v = (if k' = k then (k, v) # kvs else (k', v') # put kvs k v)"

lemma field_put [simp]: "field (put kvs k v) k' = (if k' = k then v else field kvs k')"
  by (induction kvs k v rule: put.induct) auto

lemma map_of_put [simp]: "map_of (put kvs k v) = (map_of kvs)(k \<mapsto> v)"
  by (induction kvs k v rule: put.induct) (auto simp: fun_eq_iff)

lemma set_keys_put [simp]: "fst ` set (put kvs k v) = insert k (fst ` set kvs)"
  by (induction kvs k v rule: put.induct) auto

lemma distinct_put: "distinct (map fst kvs) \<Longrightarrow> distinct (map fst (put kvs k v))"
  by (induction kvs k v rule: put.induct) auto

text \<open>\<open>null\<close> and \<open>undefined\<close>, which \<open>??\<close> and \<open>?.\<close> treat alike.\<close>

definition nullish :: "jsval \<Rightarrow> bool" where
  "nullish v \<longleftrightarrow> v = JUndef \<or> v = JNull"

definition coalesce :: "jsval \<Rightarrow> jsval \<Rightarrow> jsval" where
  "coalesce a b = (if nullish a then b else a)"

fun opt_or :: "'a option \<Rightarrow> 'a option \<Rightarrow> 'a option" where
  "opt_or (Some a) _ = Some a"
| "opt_or None b = b"

lemma opt_or_assoc: "opt_or (opt_or a b) c = opt_or a (opt_or b c)"
  by (cases a) auto

lemma opt_or_None_right [simp]: "opt_or a None = a"
  by (cases a) auto

end
