(* ===== verification/Strings.thy ===== *)
theory Strings
  imports Prelude
begin

text \<open>
  The string operations of JavaScript the program calls: decimal numerals, \<open>split\<close> and
  \<open>join\<close>, \<open>replaceAll\<close>, \<open>includes\<close>, \<open>startsWith\<close>, \<open>padStart\<close>, \<open>trim\<close>, \<open>toLowerCase\<close>, and
  regular expressions, each with the laws the components use.
\<close>

section \<open>Characters and numerals\<close>

definition code :: "char \<Rightarrow> nat" where
  "code c = of_char c"

definition is_digit :: "char \<Rightarrow> bool" where
  "is_digit c \<longleftrightarrow> 48 \<le> code c \<and> code c \<le> 57"

definition digit :: "nat \<Rightarrow> char" where
  "digit d = char_of (48 + d)"

definition digit_val :: "char \<Rightarrow> nat" where
  "digit_val c = code c - 48"

text \<open>\<open>Number(s)\<close> of a string of decimal digits.\<close>

definition num_of :: "string \<Rightarrow> nat" where
  "num_of s = foldl (\<lambda>a c. 10 * a + digit_val c) 0 s"

text \<open>\<open>String(n)\<close> of a natural number.\<close>

fun nat_str :: "nat \<Rightarrow> string" where
  "nat_str n = (if n < 10 then [digit n] else nat_str (n div 10) @ [digit (n mod 10)])"

declare nat_str.simps [simp del]

definition pad_start :: "nat \<Rightarrow> char \<Rightarrow> string \<Rightarrow> string" where
  "pad_start w c s = replicate (w - length s) c @ s"

lemma code_digit [simp]: "d < 10 \<Longrightarrow> code (digit d) = 48 + d"
  by (simp add: code_def digit_def)

lemma is_digit_digit [simp]: "d < 10 \<Longrightarrow> is_digit (digit d)"
  by (simp add: is_digit_def)

lemma digit_val_digit [simp]: "d < 10 \<Longrightarrow> digit_val (digit d) = d"
  by (simp add: digit_val_def)

lemma digit_0: "digit 0 = CHR ''0''"
  unfolding digit_def by code_simp

lemma digit_val_less: "is_digit c \<Longrightarrow> digit_val c < 10"
  unfolding is_digit_def digit_val_def by arith

lemma num_of_snoc [simp]: "num_of (s @ [c]) = 10 * num_of s + digit_val c"
  by (simp add: num_of_def)

lemma num_of_Nil [simp]: "num_of [] = 0"
  by (simp add: num_of_def)

lemma num_of_nat_str [simp]: "num_of (nat_str n) = n"
proof (induction n rule: nat_str.induct)
  case (1 n)
  then show ?case
    by (cases "n < 10") (simp_all add: nat_str.simps [of n] num_of_def)
qed

lemma num_of_zeros: "num_of (replicate k (CHR ''0'') @ s) = num_of s"
proof -
  have "foldl (\<lambda>a c. 10 * a + digit_val c) 0 (replicate k (CHR ''0'')) = 0"
    by (induction k) (simp_all add: digit_val_def code_def)
  then show ?thesis by (simp add: num_of_def)
qed

lemma num_of_pad [simp]: "num_of (pad_start w (CHR ''0'') s) = num_of s"
  by (simp add: pad_start_def num_of_zeros)

lemma nat_str_digits: "\<forall>c \<in> set (nat_str n). is_digit c"
proof (induction n rule: nat_str.induct)
  case (1 n)
  then show ?case
    by (cases "n < 10") (simp_all add: nat_str.simps [of n])
qed

lemma is_digit_0 [simp]: "is_digit (CHR ''0'')"
  by (simp add: is_digit_def code_def)

lemma pad_nat_str_digits: "\<forall>c \<in> set (pad_start w (CHR ''0'') (nat_str n)). is_digit c"
  using nat_str_digits by (auto simp: pad_start_def)

lemma nat_str_nonempty [simp]: "nat_str n \<noteq> []"
  by (subst nat_str.simps) simp

lemma length_nat_str: "0 < w \<Longrightarrow> length (nat_str n) \<le> w \<longleftrightarrow> n < 10 ^ w"
proof (induction n arbitrary: w rule: nat_str.induct)
  case (1 n)
  show ?case
  proof (cases "n < 10")
    case True
    then have "n < 10 ^ w" if "0 < w" for w :: nat
      using that by (cases w) (auto intro: less_le_trans)
    with True "1.prems" show ?thesis by (simp add: nat_str.simps [of n] Suc_le_eq)
  next
    case False
    then have "\<not> n < 10" by simp
    obtain v where w: "w = Suc v" using "1.prems" by (cases w) auto
    show ?thesis
    proof (cases "v = 0")
      case True
      have "nat_str (n div 10) \<noteq> []" by simp
      with True False w show ?thesis by (simp add: nat_str.simps [of n])
    next
      case False
      then have "length (nat_str (n div 10)) \<le> v \<longleftrightarrow> n div 10 < 10 ^ v"
        using "1.IH" \<open>\<not> n < 10\<close> by simp
      also have "\<dots> \<longleftrightarrow> n < 10 ^ w"
        using w by (simp add: div_less_iff_less_mult mult.commute)
      finally show ?thesis using \<open>\<not> n < 10\<close> w by (simp add: nat_str.simps [of n])
    qed
  qed
qed

lemma length_pad_start: "length (pad_start w c s) = max w (length s)"
  by (simp add: pad_start_def)

lemma length_pad_nat_str: "0 < w \<Longrightarrow> n < 10 ^ w \<Longrightarrow> length (pad_start w c (nat_str n)) = w"
  using length_nat_str [of w n] by (simp add: length_pad_start)

lemma nat_str_inj [simp]: "nat_str m = nat_str n \<longleftrightarrow> m = n"
  by (rule iffI) (drule arg_cong [where f = num_of], simp, simp)

lemma num_of_app: "num_of (s @ t) = num_of s * 10 ^ length t + num_of t"
proof (induction t rule: rev_induct)
  case (snoc c t)
  then show ?case using num_of_snoc [of "s @ t" c] by simp
qed simp

lemma num_of_less: "\<forall>c \<in> set s. is_digit c \<Longrightarrow> num_of s < 10 ^ length s"
proof (induction s rule: rev_induct)
  case (snoc c s)
  then have "num_of s < 10 ^ length s" and "digit_val c < 10"
    by (auto intro: digit_val_less)
  then show ?case by simp
qed simp

section \<open>Searching, splitting and replacing\<close>

definition starts_with :: "string \<Rightarrow> string \<Rightarrow> bool" where
  "starts_with p s \<longleftrightarrow> take (length p) s = p"

definition ends_with :: "string \<Rightarrow> string \<Rightarrow> bool" where
  "ends_with p s \<longleftrightarrow> starts_with (rev p) (rev s)"

fun has_sub :: "string \<Rightarrow> string \<Rightarrow> bool" where
  "has_sub p [] = (p = [])"
| "has_sub p (c # cs) = (starts_with p (c # cs) \<or> has_sub p cs)"

fun split_on :: "char \<Rightarrow> string \<Rightarrow> string list" where
  "split_on c [] = [[]]"
| "split_on c (x # xs) =
     (if x = c then [] # split_on c xs
      else (case split_on c xs of [] \<Rightarrow> [[x]] | y # ys \<Rightarrow> (x # y) # ys))"

fun join :: "string \<Rightarrow> string list \<Rightarrow> string" where
  "join sep [] = []"
| "join sep [x] = x"
| "join sep (x # y # ys) = x @ sep @ join sep (y # ys)"

text \<open>\<open>s.replaceAll(p, r)\<close> for a non-empty \<open>p\<close>.\<close>

function replace_all :: "string \<Rightarrow> string \<Rightarrow> string \<Rightarrow> string" where
  "replace_all p r [] = []"
| "replace_all p r (c # cs) =
     (if p \<noteq> [] \<and> starts_with p (c # cs) then r @ replace_all p r (drop (length p) (c # cs))
      else c # replace_all p r cs)"
  by pat_completeness auto
termination
  by (relation "measure (\<lambda>(p, r, s). length s)") (auto simp: neq_Nil_conv)

lemma starts_with_append [simp]: "starts_with p (p @ s)"
  by (simp add: starts_with_def)

lemma starts_with_Nil [simp]: "starts_with [] s"
  by (simp add: starts_with_def)

lemma starts_with_Cons [simp]: "starts_with (a # p) (b # s) \<longleftrightarrow> a = b \<and> starts_with p s"
  by (auto simp: starts_with_def)

lemma starts_with_Cons_Nil [simp]: "\<not> starts_with (a # p) []"
  by (simp add: starts_with_def)

lemma starts_with_code [code]:
  "starts_with [] s = True"
  "starts_with (a # p) [] = False"
  "starts_with (a # p) (b # s) = (if a = b then starts_with p s else False)"
  by simp_all

lemma starts_with_iff: "starts_with p s \<longleftrightarrow> (\<exists>t. s = p @ t)"
  by (metis starts_with_append starts_with_def append_take_drop_id)

lemma has_sub_Nil [simp]: "has_sub [] s"
  by (cases s) auto

lemma has_sub_iff: "has_sub p s \<longleftrightarrow> (\<exists>u v. s = u @ p @ v)"
proof (induction s)
  case Nil
  then show ?case by auto
next
  case (Cons c s)
  have "(\<exists>u v. c # s = u @ p @ v) \<longleftrightarrow> starts_with p (c # s) \<or> (\<exists>u v. s = u @ p @ v)"
    by (simp add: starts_with_iff) (metis append_Cons append_Nil list.sel(3) neq_Nil_conv list.inject)
  with Cons show ?case by simp
qed

lemma has_sub_single: "has_sub [c] s \<longleftrightarrow> c \<in> set s"
  by (induction s) auto

lemma split_on_nonempty [simp]: "split_on c s \<noteq> []"
  by (induction s) (auto split: list.splits)

lemma split_on_append: "c \<notin> set x \<Longrightarrow> split_on c (x @ c # s) = x # split_on c s"
  by (induction x) auto

lemma split_on_single: "c \<notin> set x \<Longrightarrow> split_on c x = [x]"
  by (induction x) auto

lemma split_on_join:
  "xs \<noteq> [] \<Longrightarrow> \<forall>x \<in> set xs. c \<notin> set x \<Longrightarrow> split_on c (join [c] xs) = xs"
  by (induction xs rule: induct_list012) (auto simp: split_on_append split_on_single)

lemma replace_all_char: "replace_all [c] r s = concat (map (\<lambda>x. if x = c then r else [x]) s)"
  by (induction s) auto

section \<open>Blanks and case\<close>

definition is_blank :: "char \<Rightarrow> bool" where
  "is_blank c \<longleftrightarrow> code c \<in> {9, 10, 11, 12, 13, 32, 160}"

definition trim :: "string \<Rightarrow> string" where
  "trim s = rev (dropWhile is_blank (rev (dropWhile is_blank s)))"

definition lower_char :: "char \<Rightarrow> char" where
  "lower_char c =
     (if (65 \<le> code c \<and> code c \<le> 90) \<or> (192 \<le> code c \<and> code c \<le> 222 \<and> code c \<noteq> 215)
      then char_of (code c + 32) else c)"

definition lower :: "string \<Rightarrow> string" where
  "lower s = map lower_char s"

lemma trim_eq_Nil_iff: "trim s = [] \<longleftrightarrow> (\<forall>c \<in> set s. is_blank c)"
  by (metis (no_types, lifting) trim_def dropWhile_eq_Nil_conv rev_is_Nil_conv set_rev set_dropWhileD
      hd_dropWhile list.set_sel(1))

section \<open>The order of properties\<close>

text \<open>
  JavaScript lists the properties whose names are array indices first, by their value, and
  then the others in the order they were added.
\<close>

definition array_index :: "string \<Rightarrow> bool" where
  "array_index s =
     (if list_all is_digit s then nat_str (num_of s) = s \<and> int (num_of s) < 4294967295 else False)"

definition property_order :: "(string \<times> 'a) list \<Rightarrow> (string \<times> 'a) list" where
  "property_order kvs =
     sort_key (\<lambda>p. num_of (fst p)) (filter (\<lambda>p. array_index (fst p)) kvs) @
     filter (\<lambda>p. \<not> array_index (fst p)) kvs"

definition name_before :: "string \<Rightarrow> string \<Rightarrow> bool" where
  "name_before a b \<longleftrightarrow>
     (if array_index a then array_index b \<longrightarrow> num_of a < num_of b else \<not> array_index b \<and> a < b)"

lemma mset_property_order [simp]: "mset (property_order kvs) = mset kvs"
  by (simp add: property_order_def)

lemma set_property_order [simp]: "set (property_order kvs) = set kvs"
  by (auto simp: property_order_def)

lemma distinct_property_order:
  "distinct (map fst (property_order kvs)) \<longleftrightarrow> distinct (map fst kvs)"
proof (rule mset_eq_imp_distinct_iff)
  show "mset (map fst (property_order kvs)) = mset (map fst kvs)"
    by (simp add: property_order_def flip: image_mset_union)
qed

lemma array_index_inj: "array_index a \<Longrightarrow> array_index b \<Longrightarrow> num_of a = num_of b \<Longrightarrow> a = b"
  unfolding array_index_def by (metis (full_types))

lemma index_before: "array_index a \<Longrightarrow> num_of a < num_of b \<Longrightarrow> name_before a b"
  and name_before_names: "\<not> array_index a \<Longrightarrow> \<not> array_index b \<Longrightarrow> a < b \<Longrightarrow> name_before a b"
  and index_before_name: "array_index a \<Longrightarrow> \<not> array_index b \<Longrightarrow> name_before a b"
  by (simp_all add: name_before_def)

lemma property_order_sorted:
  assumes "sorted_wrt (<) (map fst kvs)"
  shows "sorted_wrt name_before (map fst (property_order kvs))"
proof -
  let ?is = "sort_key (\<lambda>p. num_of (fst p)) (filter (\<lambda>p. array_index (fst p)) kvs)"
  let ?ns = "filter (\<lambda>p. \<not> array_index (fst p)) kvs"
  have idx: "\<forall>p \<in> set ?is. array_index (fst p)" "\<forall>p \<in> set ?ns. \<not> array_index (fst p)" by auto
  have "distinct (map fst (property_order kvs))"
    using assms by (simp add: distinct_property_order strict_sorted_iff)
  then have "distinct (map fst ?is)" by (simp add: property_order_def)
  moreover have "inj_on num_of (set (map fst ?is))"
  proof (rule inj_onI)
    fix a b
    assume "a \<in> set (map fst ?is)" "b \<in> set (map fst ?is)" "num_of a = num_of b"
    moreover have "\<forall>a \<in> set (map fst ?is). array_index a" using idx(1) unfolding set_map by blast
    ultimately show "a = b" by (blast intro: array_index_inj)
  qed
  ultimately have "distinct (map num_of (map fst ?is))" by (simp only: distinct_map)
  then have "distinct (map (\<lambda>p. num_of (fst p)) ?is)" by (simp only: map_map comp_def)
  moreover have "sorted (map (\<lambda>p. num_of (fst p)) ?is)" by simp
  ultimately have "sorted_wrt (<) (map (\<lambda>p. num_of (fst p)) ?is)"
    unfolding strict_sorted_iff by blast
  then have "sorted_wrt name_before (map fst ?is)"
    unfolding sorted_wrt_map
    by (rule sorted_wrt_mono_rel [rotated]) (use idx(1) in \<open>blast intro: index_before\<close>)
  moreover have "sorted_wrt name_before (map fst ?ns)"
  proof -
    have "sorted_wrt (\<lambda>p q. fst p < fst q) ?ns"
      using assms unfolding sorted_wrt_map by (rule sorted_wrt_filter)
    then show ?thesis
      unfolding sorted_wrt_map
      by (rule sorted_wrt_mono_rel [rotated]) (use idx(2) in \<open>blast intro: name_before_names\<close>)
  qed
  moreover have "\<forall>a \<in> set (map fst ?is). \<forall>b \<in> set (map fst ?ns). name_before a b"
    using idx unfolding set_map by (blast intro: index_before_name)
  ultimately show ?thesis by (simp only: property_order_def map_append sorted_wrt_append)
qed

section \<open>Canonical numerals\<close>

lemma digit_digit_val: "is_digit c \<Longrightarrow> digit (digit_val c) = c"
  by (simp add: is_digit_def digit_def digit_val_def code_def)

lemma num_of_pos:
  assumes "list_all is_digit s" "s \<noteq> []" "hd s \<noteq> CHR ''0''"
  shows "0 < num_of s"
  using assms
proof (induction s rule: rev_induct)
  case (snoc c s)
  show ?case
  proof (cases s)
    case Nil
    with snoc.prems have "is_digit c" "c \<noteq> digit 0" by (simp_all add: digit_0)
    with digit_digit_val [of c] have "digit_val c \<noteq> 0" by metis
    with Nil show ?thesis by (simp add: num_of_def)
  next
    case (Cons a l)
    with snoc have "0 < num_of s" by simp
    then show ?thesis by simp
  qed
qed simp

lemma nat_str_num_of:
  assumes "list_all is_digit s" "s \<noteq> []" "length s = 1 \<or> hd s \<noteq> CHR ''0''"
  shows "nat_str (num_of s) = s"
  using assms
proof (induction s rule: rev_induct)
  case (snoc c s)
  then have d: "digit_val c < 10" "digit (digit_val c) = c"
    by (auto intro: digit_val_less digit_digit_val)
  show ?case
  proof (cases "s = []")
    case True
    with d show ?thesis by (simp add: num_of_def nat_str.simps [of "digit_val c"])
  next
    case False
    with snoc.prems have h: "hd s \<noteq> CHR ''0''" "list_all is_digit s" by auto
    with False snoc.IH have "nat_str (num_of s) = s" by simp
    moreover have "0 < num_of s" using num_of_pos h False by blast
    ultimately show ?thesis
      using d by (simp add: nat_str.simps [of "10 * num_of s + digit_val c"])
  qed
qed simp

end
