(* ===== verification/Regex.thy ===== *)
theory Regex
  imports Strings
begin

text \<open>
  The regular expressions of the program. Every one of them is anchored at both ends, so
  \<open>test\<close> is membership of the whole string. A pattern is a term of \<open>rx\<close>, matching is by
  derivatives, and the lemmas say that it decides the language \<open>in_lang\<close>.
\<close>

datatype rx =
    Eps
  | Cls "(char \<times> char) list"
  | Sq rx rx
  | Alt rx rx
  | Star rx

definition in_cls :: "(char \<times> char) list \<Rightarrow> char \<Rightarrow> bool" where
  "in_cls rs c = list_ex (\<lambda>(lo, hi). code lo \<le> code c \<and> code c \<le> code hi) rs"

definition Chr :: "char \<Rightarrow> rx" where
  "Chr c = Cls [(c, c)]"

definition Opt :: "rx \<Rightarrow> rx" where
  "Opt r = Alt r Eps"

definition Plus :: "rx \<Rightarrow> rx" where
  "Plus r = Sq r (Star r)"

primrec Rep :: "nat \<Rightarrow> rx \<Rightarrow> rx" where
  "Rep 0 r = Eps"
| "Rep (Suc n) r = Sq r (Rep n r)"

fun Str :: "string \<Rightarrow> rx" where
  "Str [] = Eps"
| "Str (c # cs) = Sq (Chr c) (Str cs)"

fun Cat :: "rx list \<Rightarrow> rx" where
  "Cat [] = Eps"
| "Cat (r # rs) = Sq r (Cat rs)"

definition Digit :: rx where
  "Digit = Cls [(CHR ''0'', CHR ''9'')]"

section \<open>Matching\<close>

text \<open>\<open>Nothing\<close> is the class without characters: the pattern no string matches.\<close>

definition Nothing :: rx where
  "Nothing = Cls []"

primrec nullable :: "rx \<Rightarrow> bool" where
  "nullable Eps = True"
| "nullable (Cls rs) = False"
| "nullable (Sq r s) = (nullable r \<and> nullable s)"
| "nullable (Alt r s) = (nullable r \<or> nullable s)"
| "nullable (Star r) = True"

primrec deriv :: "char \<Rightarrow> rx \<Rightarrow> rx" where
  "deriv c Eps = Nothing"
| "deriv c (Cls rs) = (if in_cls rs c then Eps else Nothing)"
| "deriv c (Sq r s) =
     (if nullable r then Alt (Sq (deriv c r) s) (deriv c s) else Sq (deriv c r) s)"
| "deriv c (Alt r s) = Alt (deriv c r) (deriv c s)"
| "deriv c (Star r) = Sq (deriv c r) (Star r)"

primrec matches :: "rx \<Rightarrow> string \<Rightarrow> bool" where
  "matches r [] = nullable r"
| "matches r (c # cs) = matches (deriv c r) cs"

section \<open>The language of a pattern\<close>

inductive in_lang :: "rx \<Rightarrow> string \<Rightarrow> bool" where
  eps: "in_lang Eps []"
| cls: "in_cls rs c \<Longrightarrow> in_lang (Cls rs) [c]"
| sq: "in_lang r u \<Longrightarrow> in_lang s v \<Longrightarrow> in_lang (Sq r s) (u @ v)"
| alt_left: "in_lang r u \<Longrightarrow> in_lang (Alt r s) u"
| alt_right: "in_lang s u \<Longrightarrow> in_lang (Alt r s) u"
| star_Nil: "in_lang (Star r) []"
| star_app: "in_lang r u \<Longrightarrow> in_lang (Star r) v \<Longrightarrow> in_lang (Star r) (u @ v)"

inductive_simps in_lang_simps:
  "in_lang Eps w" "in_lang (Cls rs) w" "in_lang (Sq r s) w" "in_lang (Alt r s) w"

lemma nullable_iff: "nullable r \<longleftrightarrow> in_lang r []"
  by (induction r) (auto simp: in_lang_simps intro: in_lang.intros)

lemma star_Cons:
  assumes "in_lang (Star r) (c # w)"
  shows "\<exists>u v. w = u @ v \<and> in_lang r (c # u) \<and> in_lang (Star r) v"
  using assms
proof (induction "Star r" "c # w" arbitrary: c w rule: in_lang.induct)
  case (star_app u v)
  then show ?case by (cases u) auto
qed

lemma in_lang_Nothing [simp]: "\<not> in_lang Nothing w"
  by (auto simp: Nothing_def in_lang_simps in_cls_def)

lemma deriv_iff: "in_lang (deriv c r) w \<longleftrightarrow> in_lang r (c # w)"
proof (induction r arbitrary: w)
  case (Sq r s)
  have "in_lang (Sq r s) (c # w) \<longleftrightarrow>
      (\<exists>u v. w = u @ v \<and> in_lang r (c # u) \<and> in_lang s v) \<or> (in_lang r [] \<and> in_lang s (c # w))"
    by (auto simp: in_lang_simps Cons_eq_append_conv)
  then show ?case
    by (auto simp: in_lang_simps Sq nullable_iff)
next
  case (Star r)
  have "in_lang (Sq (deriv c r) (Star r)) w \<longleftrightarrow>
      (\<exists>u v. w = u @ v \<and> in_lang r (c # u) \<and> in_lang (Star r) v)"
    by (auto simp: in_lang_simps Star)
  moreover have "in_lang (Star r) (c # u @ v)"
    if "in_lang r (c # u)" and "in_lang (Star r) v" for u v
    using in_lang.star_app [OF that] by simp
  ultimately show ?case by (auto dest: star_Cons)
qed (auto simp: in_lang_simps)

lemma matches_iff: "matches r s \<longleftrightarrow> in_lang r s"
  by (induction s arbitrary: r) (auto simp: nullable_iff deriv_iff)

section \<open>What the combinators match\<close>

lemma matches_Eps: "matches Eps s \<longleftrightarrow> s = []"
  by (simp add: matches_iff in_lang_simps)

lemma matches_Cls: "matches (Cls rs) s \<longleftrightarrow> (\<exists>c. s = [c] \<and> in_cls rs c)"
  by (auto simp: matches_iff in_lang_simps)

lemma matches_Sq: "matches (Sq r t) s \<longleftrightarrow> (\<exists>u v. s = u @ v \<and> matches r u \<and> matches t v)"
  by (auto simp: matches_iff in_lang_simps)

lemma matches_Alt: "matches (Alt r t) s \<longleftrightarrow> matches r s \<or> matches t s"
  by (simp add: matches_iff in_lang_simps)

lemma matches_Opt: "matches (Opt r) s \<longleftrightarrow> matches r s \<or> s = []"
  by (simp add: Opt_def matches_Alt matches_Eps)

lemma matches_Chr: "matches (Chr c) s \<longleftrightarrow> s = [c]"
  by (auto simp: Chr_def matches_Cls in_cls_def code_def)

lemma matches_Star_Cls: "matches (Star (Cls rs)) s \<longleftrightarrow> list_all (in_cls rs) s"
proof -
  have "in_lang (Star (Cls rs)) s \<Longrightarrow> list_all (in_cls rs) s"
    by (induction "Star (Cls rs)" s rule: in_lang.induct) (auto simp: in_lang_simps)
  moreover have "list_all (in_cls rs) s \<Longrightarrow> in_lang (Star (Cls rs)) s"
  proof (induction s)
    case (Cons c s)
    then have "in_lang (Star (Cls rs)) ([c] @ s)"
      by (intro in_lang.star_app in_lang.cls) auto
    then show ?case by simp
  qed (rule in_lang.star_Nil)
  ultimately show ?thesis by (auto simp: matches_iff)
qed

lemma matches_Sq_Cls:
  "matches (Sq (Cls rs) t) s \<longleftrightarrow> (\<exists>c v. s = c # v \<and> in_cls rs c \<and> matches t v)"
proof -
  have "matches (Sq (Cls rs) t) s \<longleftrightarrow>
      (\<exists>u v. s = u @ v \<and> (\<exists>c. u = [c] \<and> in_cls rs c) \<and> matches t v)"
    unfolding matches_Sq matches_Cls ..
  also have "\<dots> \<longleftrightarrow> (\<exists>c v. s = [c] @ v \<and> in_cls rs c \<and> matches t v)"
    by blast
  finally show ?thesis by simp
qed

lemma matches_Plus_Cls: "matches (Plus (Cls rs)) s \<longleftrightarrow> s \<noteq> [] \<and> list_all (in_cls rs) s"
  unfolding Plus_def matches_Sq_Cls matches_Star_Cls by (cases s) auto

lemma matches_Rep_Cls: "matches (Rep n (Cls rs)) s \<longleftrightarrow> length s = n \<and> list_all (in_cls rs) s"
proof (induction n arbitrary: s)
  case 0
  then show ?case by (auto simp: matches_Eps)
next
  case (Suc n)
  then show ?case
    unfolding Rep.simps matches_Sq_Cls by (cases s) auto
qed

lemma in_cls_digit: "in_cls [(CHR ''0'', CHR ''9'')] c \<longleftrightarrow> is_digit c"
  by (simp add: in_cls_def is_digit_def code_def)

lemma matches_Rep_Digit: "matches (Rep n Digit) s \<longleftrightarrow> length s = n \<and> (\<forall>c \<in> set s. is_digit c)"
  by (simp add: Digit_def matches_Rep_Cls in_cls_digit list_all_iff)

lemma matches_Plus_Digit: "matches (Plus Digit) s \<longleftrightarrow> s \<noteq> [] \<and> (\<forall>c \<in> set s. is_digit c)"
  by (simp add: Digit_def matches_Plus_Cls in_cls_digit list_all_iff)

lemma matches_Str: "matches (Str p) s \<longleftrightarrow> s = p"
  by (induction p arbitrary: s) (auto simp: matches_Eps matches_Sq matches_Chr)

lemma matches_Cat_Nil: "matches (Cat []) s \<longleftrightarrow> s = []"
  by (simp add: matches_Eps)

lemma matches_Cat_Cons:
  "matches (Cat (r # rs)) s \<longleftrightarrow> (\<exists>u v. s = u @ v \<and> matches r u \<and> matches (Cat rs) v)"
  by (simp add: matches_Sq)

lemmas matches_combinators =
  matches_Eps matches_Cls matches_Alt matches_Opt matches_Chr matches_Str
  matches_Rep_Digit matches_Plus_Digit matches_Plus_Cls matches_Rep_Cls
  matches_Cat_Nil matches_Cat_Cons

end
