(* ===== verification/Timestamp.thy ===== *)
theory Timestamp
  imports Regex
begin

text \<open>
  Time: \<open>Date.UTC\<close>, \<open>Date.prototype.toISOString\<close>, and \<open>parseTimestamp\<close> of
  \<open>adapters/core/typescript/src/validate.ts\<close>. A time value is an integer number of
  milliseconds since 1970-01-01T00:00:00Z, a day number the days since then, a month is
  counted from 0 as JavaScript does.
\<close>

section \<open>Calendar arithmetic of \<open>Date\<close>\<close>

definition leap :: "int \<Rightarrow> bool" where
  "leap y \<longleftrightarrow> y mod 4 = 0 \<and> (y mod 100 \<noteq> 0 \<or> y mod 400 = 0)"

definition day_from_year :: "int \<Rightarrow> int" where
  "day_from_year y =
     365 * (y - 1970) + (y - 1969) div 4 - (y - 1901) div 100 + (y - 1601) div 400"

definition month_len :: "bool \<Rightarrow> nat \<Rightarrow> int" where
  "month_len lp m = [31, if lp then 29 else 28, 31, 30, 31, 30, 31, 31, 30, 31, 30, 31] ! m"

definition month_start :: "bool \<Rightarrow> nat \<Rightarrow> int" where
  "month_start lp m =
     [0, 31, 59, 90, 120, 151, 181, 212, 243, 273, 304, 334] ! m + (if lp \<and> 2 \<le> m then 1 else 0)"

text \<open>The day number of day \<open>d\<close> of month \<open>m\<close>; a month or day out of range carries over.\<close>

definition make_day :: "int \<Rightarrow> int \<Rightarrow> int \<Rightarrow> int" where
  "make_day y m d =
     (let ym = y + m div 12
      in day_from_year ym + month_start (leap ym) (nat (m mod 12)) + d - 1)"

text \<open>\<open>Date.UTC\<close> reads a year from 0 to 99 as 1900 plus that year.\<close>

definition full_year :: "int \<Rightarrow> int" where
  "full_year y = (if 0 \<le> y \<and> y \<le> 99 then 1900 + y else y)"

definition date_utc :: "int \<Rightarrow> int \<Rightarrow> int \<Rightarrow> int \<Rightarrow> int \<Rightarrow> int \<Rightarrow> int \<Rightarrow> int" where
  "date_utc y m d h mi s ms =
     make_day (full_year y) m d * 86400000 + h * 3600000 + mi * 60000 + s * 1000 + ms"

definition year_of_day :: "int \<Rightarrow> int" where
  "year_of_day d =
     (let y = 1970 + (400 * d) div 146097
      in if d < day_from_year y then y - 1
         else if day_from_year (y + 1) \<le> d then y + 1 else y)"

definition month_of :: "bool \<Rightarrow> int \<Rightarrow> nat" where
  "month_of lp k = length (filter (\<lambda>m. month_start lp m \<le> k) [1, 2, 3, 4, 5, 6, 7, 8, 9, 10, 11])"

text \<open>\<open>getUTCFullYear\<close>, \<open>getUTCMonth\<close> and \<open>getUTCDate\<close> of a day number.\<close>

definition utc_month :: "int \<Rightarrow> nat" where
  "utc_month d = (let y = year_of_day d in month_of (leap y) (d - day_from_year y))"

definition utc_date :: "int \<Rightarrow> int" where
  "utc_date d =
     (let y = year_of_day d; k = d - day_from_year y
      in k - month_start (leap y) (month_of (leap y) k) + 1)"

lemma div_bounds:
  fixes x n :: int
  assumes "0 < n"
  shows "n * (x div n) \<le> x" "x < n * (x div n) + n"
  using mult_div_mod_eq [of n x] pos_mod_sign [OF assms, of x] pos_mod_bound [OF assms, of x]
  by linarith+

lemma div_succ:
  fixes x n :: int
  assumes "0 < n"
  shows "(x + 1) div n = x div n + (if n dvd x + 1 then 1 else 0)"
proof (cases "n dvd x + 1")
  case True
  then obtain q where q: "x + 1 = n * q" by (elim dvdE)
  then have "x = n * (q - 1) + (n - 1)" by (simp add: algebra_simps)
  from int_div_pos_eq [OF this] assms have "x div n = q - 1" by simp
  with q True assms show ?thesis by simp
next
  case False
  let ?q = "(x + 1) div n" and ?r = "(x + 1) mod n"
  have "?r \<noteq> 0" using False by (simp add: dvd_eq_mod_eq_0)
  moreover have "0 \<le> ?r" "?r < n" using assms by simp_all
  moreover have "x = n * ?q + (?r - 1)" using mult_div_mod_eq [of n "x + 1"] by linarith
  ultimately have "x div n = ?q" by (intro int_div_pos_eq [of x n ?q "?r - 1"]) linarith+
  with False show ?thesis by simp
qed

lemma leap_dvd: "leap y \<longleftrightarrow> 4 dvd y \<and> (\<not> 100 dvd y \<or> 400 dvd y)"
  by (simp add: leap_def dvd_eq_mod_eq_0)

lemma leap_count:
  "(q \<longrightarrow> c) \<Longrightarrow> (c \<longrightarrow> f) \<Longrightarrow>
   (d :: int) + 365 + (if f then 1 else 0) - (if c then 1 else 0) + (if q then 1 else 0) =
     d + (if f \<and> (\<not> c \<or> q) then 366 else 365)"
  by (cases q; cases c; cases f) simp_all

lemma day_from_year_Suc: "day_from_year (y + 1) = day_from_year y + (if leap y then 366 else 365)"
proof -
  have shift: "n dvd y - n * k \<longleftrightarrow> n dvd y" for n k :: int
  proof
    assume "n dvd y - n * k"
    then have "n dvd (y - n * k) + n * k" by (intro dvd_add dvd_triv_left)
    then show "n dvd y" by simp
  qed (intro dvd_diff dvd_triv_left)
  have e4: "(y - 1968) div 4 = (y - 1969) div 4 + (if 4 dvd y then 1 else 0)"
    using div_succ [of 4 "y - 1969"] shift [of 4 492] by (simp add: algebra_simps)
  have e100: "(y - 1900) div 100 = (y - 1901) div 100 + (if 100 dvd y then 1 else 0)"
    using div_succ [of 100 "y - 1901"] shift [of 100 19] by (simp add: algebra_simps)
  have e400: "(y - 1600) div 400 = (y - 1601) div 400 + (if 400 dvd y then 1 else 0)"
    using div_succ [of 400 "y - 1601"] shift [of 400 4] by (simp add: algebra_simps)
  have d: "400 dvd y \<Longrightarrow> 100 dvd y" "100 dvd y \<Longrightarrow> 4 dvd y"
    using dvd_trans [of 100 400 y] dvd_trans [of 4 100 y] by simp_all
  have "day_from_year (y + 1) =
      365 * (y - 1969) + (y - 1968) div 4 - (y - 1900) div 100 + (y - 1600) div 400"
    by (simp add: day_from_year_def)
  also have "\<dots> = day_from_year y + 365 + (if 4 dvd y then 1 else 0)
      - (if 100 dvd y then 1 else 0) + (if 400 dvd y then 1 else 0)"
    unfolding e4 e100 e400 day_from_year_def by (simp only: algebra_simps)
  also have "\<dots> = day_from_year y + (if leap y then 366 else 365)"
    unfolding leap_dvd by (rule leap_count) (use d in blast)+
  finally show ?thesis .
qed

lemma day_from_year_mono: "x \<le> y \<Longrightarrow> day_from_year x \<le> day_from_year y"
proof (induction y rule: int_ge_induct)
  case (step y)
  then show ?case by (simp add: day_from_year_Suc)
qed simp

lemma year_estimate_lower:
  fixes d y p q r :: int
  assumes "146097 * y - 287811090 \<le> 400 * d" "4 * p \<le> y - 1970" "y - 1902 < 100 * q + 100"
    "400 * r \<le> y - 1602"
  shows "365 * y - 719415 + p - q + r \<le> d"
  using assms by linarith

lemma year_estimate_upper:
  fixes d y p q r :: int
  assumes "400 * d < 146097 * y - 287811090 + 146097" "y - 1967 < 4 * p + 4"
    "100 * q \<le> y - 1899" "y - 1599 < 400 * r + 400"
  shows "d < 365 * y - 718320 + p - q + r"
  using assms by linarith

lemma year_of_day_bounds:
  "day_from_year (year_of_day d) \<le> d \<and> d < day_from_year (year_of_day d + 1)"
proof -
  define y where "y = 1970 + (400 * d) div 146097"
  have y: "146097 * y - 287811090 \<le> 400 * d" "400 * d < 146097 * y - 287811090 + 146097"
    using div_bounds [of 146097 "400 * d"] by (simp_all add: y_def)
  have "day_from_year (y - 1) \<le> d"
    using year_estimate_lower [OF y(1), of "(y - 1970) div 4" "(y - 1902) div 100" "(y - 1602) div 400"]
      div_bounds [of 4 "y - 1970"] div_bounds [of 100 "y - 1902"] div_bounds [of 400 "y - 1602"]
    by (simp add: day_from_year_def)
  moreover have "d < day_from_year (y + 1 + 1)"
    using year_estimate_upper [OF y(2), of "(y - 1967) div 4" "(y - 1899) div 100" "(y - 1599) div 400"]
      div_bounds [of 4 "y - 1967"] div_bounds [of 100 "y - 1899"] div_bounds [of 400 "y - 1599"]
    by (simp add: day_from_year_def)
  ultimately show ?thesis
    by (auto simp: year_of_day_def Let_def add.assoc simp flip: y_def)
qed

lemma year_of_day_eq:
  assumes "day_from_year y \<le> d" "d < day_from_year (y + 1)"
  shows "year_of_day d = y"
proof (rule antisym)
  show "year_of_day d \<le> y"
    using year_of_day_bounds [of d] assms day_from_year_mono [of "y + 1" "year_of_day d"]
    by (cases "y < year_of_day d") auto
  show "y \<le> year_of_day d"
    using year_of_day_bounds [of d] assms day_from_year_mono [of "year_of_day d + 1" y]
    by (cases "year_of_day d < y") auto
qed

lemma less_12_cases:
  assumes "m < (12::nat)"
  shows "m = 0 \<or> m = 1 \<or> m = 2 \<or> m = 3 \<or> m = 4 \<or> m = 5 \<or> m = 6 \<or> m = 7 \<or> m = 8 \<or> m = 9 \<or>
    m = 10 \<or> m = 11"
  using assms by arith

lemma month_start_values:
  "month_start lp 0 = 0" "month_start lp 1 = 31"
  "month_start lp 2 = (if lp then 60 else 59)" "month_start lp 3 = (if lp then 91 else 90)"
  "month_start lp 4 = (if lp then 121 else 120)" "month_start lp 5 = (if lp then 152 else 151)"
  "month_start lp 6 = (if lp then 182 else 181)" "month_start lp 7 = (if lp then 213 else 212)"
  "month_start lp 8 = (if lp then 244 else 243)" "month_start lp 9 = (if lp then 274 else 273)"
  "month_start lp 10 = (if lp then 305 else 304)" "month_start lp 11 = (if lp then 335 else 334)"
  by (simp_all add: month_start_def)

lemma month_len_values:
  "month_len lp 0 = 31" "month_len lp 1 = (if lp then 29 else 28)" "month_len lp 2 = 31"
  "month_len lp 3 = 30" "month_len lp 4 = 31" "month_len lp 5 = 30" "month_len lp 6 = 31"
  "month_len lp 7 = 31" "month_len lp 8 = 30" "month_len lp 9 = 31" "month_len lp 10 = 30"
  "month_len lp 11 = 31"
  by (simp_all add: month_len_def)

lemmas month_values = month_start_values month_len_values

lemma month_of_eq:
  assumes "m < 12" "month_start lp m \<le> k" "k < month_start lp m + month_len lp m"
  shows "month_of lp k = m"
  using less_12_cases [OF assms(1)] assms(2,3)
  by (elim disjE) (cases lp; simp add: month_of_def month_values del: One_nat_def)+

lemma month_of_bounds:
  assumes "0 \<le> k" "k < (if lp then 366 else 365)"
  shows "month_of lp k < 12 \<and> month_start lp (month_of lp k) \<le> k \<and>
    k < month_start lp (month_of lp k) + month_len lp (month_of lp k)"
proof -
  have "\<exists>m<12. month_start lp m \<le> k \<and> k < month_start lp m + month_len lp m"
  proof (rule ccontr)
    assume "\<not> ?thesis"
    then have step: "m < 12 \<Longrightarrow> month_start lp m \<le> k \<Longrightarrow> month_start lp m + month_len lp m \<le> k" for m
      by force
    show False
      using step [of 0] step [of 1] step [of 2] step [of 3] step [of 4] step [of 5] step [of 6]
        step [of 7] step [of 8] step [of 9] step [of 10] step [of 11] assms
      by (cases lp) (simp_all add: month_values del: One_nat_def)
  qed
  then obtain m where "m < 12" "month_start lp m \<le> k" "k < month_start lp m + month_len lp m"
    by blast
  with month_of_eq [OF this] show ?thesis by simp
qed

lemma month_end: "m < 12 \<Longrightarrow> month_start lp m + month_len lp m \<le> (if lp then 366 else 365)"
  by (drule less_12_cases) (auto simp: month_values simp del: One_nat_def)

lemma month_start_step: "m < 11 \<Longrightarrow> month_start lp (m + 1) = month_start lp m + month_len lp m"
proof -
  assume "m < 11"
  then have "m < 12" by simp
  from less_12_cases [OF this] \<open>m < 11\<close> show ?thesis
    by (elim disjE) (auto simp: month_values simp del: One_nat_def)
qed

lemma month_start_nonneg: "m < 12 \<Longrightarrow> 0 \<le> month_start lp m"
  by (drule less_12_cases) (auto simp: month_values simp del: One_nat_def)

lemma month_len_bounds: "m < 12 \<Longrightarrow> 28 \<le> month_len lp m \<and> month_len lp m \<le> 31"
  by (drule less_12_cases) (auto simp: month_values simp del: One_nat_def)

text \<open>The calendar fields of a valid date are the ones it was made from.\<close>

lemma civil_of_make_day:
  assumes "0 \<le> m" "m < 12" "1 \<le> d" "d \<le> month_len (leap y) (nat m)"
  shows "year_of_day (make_day y m d) = y" "utc_month (make_day y m d) = nat m"
    "utc_date (make_day y m d) = d"
proof -
  have m: "nat m < 12" "m div 12 = 0" "m mod 12 = m" using assms by auto
  let ?k = "month_start (leap y) (nat m) + d - 1"
  have day: "make_day y m d = day_from_year y + ?k"
    using m by (simp add: make_day_def)
  have k: "0 \<le> ?k" "?k < (if leap y then 366 else 365)"
    using month_start_nonneg [OF m(1), of "leap y"] month_end [OF m(1), of "leap y"] assms
    by auto
  show y: "year_of_day (make_day y m d) = y"
    unfolding day using k by (intro year_of_day_eq) (auto simp: day_from_year_Suc)
  have mo: "month_of (leap y) ?k = nat m"
    using assms m by (intro month_of_eq) auto
  show "utc_month (make_day y m d) = nat m"
    using y mo by (simp add: utc_month_def Let_def day)
  show "utc_date (make_day y m d) = d"
    using y mo by (simp add: utc_date_def Let_def day)
qed

text \<open>And every day number has fields that make it again.\<close>

lemma civil_fields:
  fixes d :: int
  defines "y \<equiv> year_of_day d"
  shows "utc_month d < 12" "1 \<le> utc_date d" "utc_date d \<le> month_len (leap y) (utc_month d)"
    "make_day y (int (utc_month d)) (utc_date d) = d"
proof -
  let ?k = "d - day_from_year y"
  have "0 \<le> ?k" "?k < (if leap y then 366 else 365)"
    using year_of_day_bounds [of d] by (auto simp: y_def day_from_year_Suc)
  note k = month_of_bounds [OF this]
  have mo: "utc_month d = month_of (leap y) ?k"
    by (simp add: utc_month_def y_def Let_def)
  have da: "utc_date d = ?k - month_start (leap y) (month_of (leap y) ?k) + 1"
    by (simp add: utc_date_def y_def Let_def)
  show m12: "utc_month d < 12" and "1 \<le> utc_date d"
    "utc_date d \<le> month_len (leap y) (utc_month d)"
    using k by (simp_all add: mo da)
  have "int (utc_month d) div 12 = 0" "nat (int (utc_month d) mod 12) = utc_month d"
    using m12 by auto
  then show "make_day y (int (utc_month d)) (utc_date d) = d"
    by (simp add: make_day_def da mo)
qed

section \<open>\<open>toISOString\<close> and \<open>parseTimestamp\<close>\<close>

definition p2 :: "nat \<Rightarrow> string" where
  "p2 n = pad_start 2 (CHR ''0'') (nat_str n)"

definition p3 :: "nat \<Rightarrow> string" where
  "p3 n = pad_start 3 (CHR ''0'') (nat_str n)"

text \<open>A year outside 0 to 9999 is written with a sign and six digits.\<close>

definition iso_year :: "int \<Rightarrow> string" where
  "iso_year y =
     (if 0 \<le> y \<and> y \<le> 9999 then pad_start 4 (CHR ''0'') (nat_str (nat y))
      else (if y < 0 then ''-'' else ''+'') @ pad_start 6 (CHR ''0'') (nat_str (nat \<bar>y\<bar>)))"

definition to_iso :: "int \<Rightarrow> string" where
  "to_iso t =
     (let d = t div 86400000; s = nat (t mod 86400000)
      in iso_year (year_of_day d) @ ''-'' @ p2 (utc_month d + 1) @ ''-'' @ p2 (nat (utc_date d)) @
         ''T'' @ p2 (s div 3600000) @ '':'' @ p2 (s div 60000 mod 60) @ '':'' @
         p2 (s div 1000 mod 60) @ ''.'' @ p3 (s mod 1000) @ ''Z'')"

definition TIMESTAMP :: rx where
  "TIMESTAMP = Cat
     [Rep 4 Digit, Chr (CHR ''-''), Rep 2 Digit, Chr (CHR ''-''), Rep 2 Digit, Chr (CHR ''T''),
      Rep 2 Digit, Chr (CHR '':''), Rep 2 Digit, Chr (CHR '':''), Rep 2 Digit,
      Opt (Cat [Chr (CHR ''.''), Plus Digit]),
      Alt (Chr (CHR ''Z''))
        (Cat [Cls [(CHR ''+'', CHR ''+''), (CHR ''-'', CHR ''-'')],
              Rep 2 Digit, Chr (CHR '':''), Rep 2 Digit])]"

record instant =
  epochMs :: int
  fraction :: string

text \<open>
  The groups the expression captures: everything up to the seconds has a fixed width, the
  fraction is the run of digits after a dot, and what follows is \<open>Z\<close> or the offset.
\<close>

definition capture_fraction :: "string \<Rightarrow> string" where
  "capture_fraction v =
     (case drop 19 v of c # r \<Rightarrow> if c = CHR ''.'' then takeWhile is_digit r else [] | [] \<Rightarrow> [])"

definition capture_zone :: "string \<Rightarrow> string" where
  "capture_zone v =
     (case drop 19 v of c # r \<Rightarrow> if c = CHR ''.'' then dropWhile is_digit r else c # r | [] \<Rightarrow> [])"

definition pad_end :: "nat \<Rightarrow> char \<Rightarrow> string \<Rightarrow> string" where
  "pad_end w c s = s @ replicate (w - length s) c"

definition days_in_month :: "int \<Rightarrow> int \<Rightarrow> int" where
  "days_in_month y mo = utc_date (make_day (full_year y) mo 0)"

definition parse_timestamp :: "string \<Rightarrow> instant option" where
  "parse_timestamp v =
     (if \<not> matches TIMESTAMP v then None
      else
        let y = int (num_of (take 4 v)); mo = int (num_of (take 2 (drop 5 v)));
            d = int (num_of (take 2 (drop 8 v))); h = int (num_of (take 2 (drop 11 v)));
            mi = int (num_of (take 2 (drop 14 v))); s = int (num_of (take 2 (drop 17 v)));
            fr = capture_fraction v; zone = capture_zone v;
            oh = (if zone = ''Z'' then 0 else int (num_of (take 2 (drop 1 zone))));
            om = (if zone = ''Z'' then 0 else int (num_of (take 2 (drop 4 zone))));
            sign = (if take 1 zone = ''-'' then -1 else 1)
        in if mo < 1 \<or> 12 < mo \<or> d < 1 \<or> days_in_month y mo < d \<or> 23 < h \<or> 59 < mi \<or> 59 < s
           then None
           else if 23 < oh \<or> 59 < om then None
           else let offset = sign * (oh * 60 + om);
                    ms = int (num_of (pad_end 3 (CHR ''0'') (take 3 fr)))
                in Some \<lparr>epochMs = date_utc y (mo - 1) d h mi s ms - offset * 60000,
                         fraction = fr\<rparr>)"

text \<open>\<open>Date.UTC(y, mo, 0)\<close> is the last day of month \<open>mo\<close>, counted from 1.\<close>

lemma days_in_month_eq:
  assumes "1 \<le> mo" "mo \<le> 12"
  shows "days_in_month y mo = month_len (leap (full_year y)) (nat (mo - 1))"
proof -
  let ?y = "full_year y" and ?m = "nat (mo - 1)"
  have m: "?m < 12" using assms by auto
  have "make_day ?y mo 0 = make_day ?y (mo - 1) (month_len (leap ?y) ?m)"
  proof (cases "mo = 12")
    case True
    then show ?thesis
      by (simp add: make_day_def day_from_year_Suc month_values)
  next
    case False
    then have "mo div 12 = 0" "(mo - 1) div 12 = 0" "mo mod 12 = mo" "(mo - 1) mod 12 = mo - 1"
      using assms by auto
    moreover have "month_start lp (nat mo) = month_start lp ?m + month_len lp ?m" for lp
      using month_start_step [of ?m lp] assms False by (simp add: nat_diff_distrib)
    ultimately show ?thesis by (simp add: make_day_def Let_def)
  qed
  then show ?thesis
    using civil_of_make_day(3) [of "mo - 1" "month_len (leap ?y) ?m" ?y] assms
      month_len_bounds [OF m, of "leap ?y"]
    by (simp add: days_in_month_def)
qed

section \<open>Parsing what \<open>toISOString\<close> writes\<close>

lemma matches_Cat_app:
  "matches r u \<Longrightarrow> matches (Cat rs) v \<Longrightarrow> matches (Cat (r # rs)) (u @ v)"
  by (auto simp: matches_Cat_Cons simp del: Cat.simps)

lemma matches_Cat_app1:
  "matches r [c] \<Longrightarrow> matches (Cat rs) v \<Longrightarrow> matches (Cat (r # rs)) (c # v)"
  using matches_Cat_app [of r "[c]" rs v] by simp

lemma matches_Chr_self: "matches (Chr c) [c]"
  by (simp add: matches_Chr del: matches.simps)

lemma p2_facts: "n < 100 \<Longrightarrow> length (p2 n) = 2" "\<forall>c \<in> set (p2 n). is_digit c" "num_of (p2 n) = n"
  using length_pad_nat_str [of 2 n] pad_nat_str_digits [of 2 n] by (simp_all add: p2_def)

lemma p3_facts:
  "n < 1000 \<Longrightarrow> length (p3 n) = 3" "\<forall>c \<in> set (p3 n). is_digit c" "num_of (p3 n) = n"
  using length_pad_nat_str [of 3 n] pad_nat_str_digits [of 3 n] by (simp_all add: p3_def)

lemma iso_year_facts:
  assumes "0 \<le> y" "y \<le> 9999"
  shows "length (iso_year y) = 4" "\<forall>c \<in> set (iso_year y). is_digit c" "int (num_of (iso_year y)) = y"
  using assms length_pad_nat_str [of 4 "nat y"] pad_nat_str_digits [of 4 "nat y"]
  by (simp_all add: iso_year_def)

lemma matches_two: "length u = 2 \<Longrightarrow> \<forall>c \<in> set u. is_digit c \<Longrightarrow> matches (Rep 2 Digit) u"
  by (simp add: matches_Rep_Digit)

lemma matches_timestamp:
  assumes "length Y = 4" "length M = 2" "length D = 2" "length H = 2" "length I = 2" "length S = 2"
    "F \<noteq> []"
    and "\<forall>c \<in> set (Y @ M @ D @ H @ I @ S @ F). is_digit c"
  shows "matches TIMESTAMP
    (Y @ ''-'' @ M @ ''-'' @ D @ ''T'' @ H @ '':'' @ I @ '':'' @ S @ ''.'' @ F @ ''Z'')"
proof -
  have fr: "matches (Opt (Cat [Chr (CHR ''.''), Plus Digit])) (''.'' @ F)"
  proof -
    have "matches (Cat [Plus Digit]) (F @ [])"
      using assms by (intro matches_Cat_app) (auto simp: matches_Plus_Digit matches_Cat_Nil simp del: Cat.simps matches.simps)
    then have "matches (Cat [Chr (CHR ''.''), Plus Digit]) (''.'' @ F)"
      using matches_Cat_app [OF matches_Chr_self, of "[Plus Digit]" F] by (simp del: Cat.simps matches.simps)
    then show ?thesis by (simp add: matches_Opt del: Cat.simps matches.simps)
  qed
  have z: "matches (Alt (Chr (CHR ''Z'')) r) ''Z''" for r
    by (simp add: matches_Alt matches_Chr_self del: matches.simps)
  have "matches TIMESTAMP
    (Y @ ''-'' @ M @ ''-'' @ D @ ''T'' @ H @ '':'' @ I @ '':'' @ S @ (''.'' @ F) @ ''Z'' @ [])"
    unfolding TIMESTAMP_def
    using assms by (intro matches_Cat_app fr z matches_two matches_Chr_self)
      (auto simp: matches_Rep_Digit matches_Cat_Nil simp del: Cat.simps Rep.simps matches.simps)
  then show ?thesis by simp
qed

lemma time_parts:
  fixes s :: nat
  shows "s div 3600000 * 3600000 + s div 60000 mod 60 * 60000 + s div 1000 mod 60 * 1000
    + s mod 1000 = s"
proof -
  have h: "s div 3600000 = s div 1000 div 60 div 60" "s div 60000 = s div 1000 div 60"
    by (simp_all add: div_mult2_eq [symmetric])
  have "c * 3600000 + m * 60000 + r * 1000 + q = (x :: nat)"
    if "a * 1000 + q = x" "b * 60 + r = a" "c * 60 + m = b" for a b c m q r x
    using that by linarith
  from this [OF div_mult_mod_eq div_mult_mod_eq div_mult_mod_eq] show ?thesis
    unfolding h .
qed

lemma time_parts_int:
  "a * 3600000 + b * 60000 + c * 1000 + q = (s :: nat) \<Longrightarrow>
   int a * 3600000 + int b * 60000 + int c * 1000 + int q = int s"
  by linarith

text \<open>
  Every time value of a year from 100 to 9999 is read back from its ISO string, with the
  milliseconds as the fraction.
\<close>

lemma parse_to_iso:
  assumes "100 \<le> year_of_day (t div 86400000)" "year_of_day (t div 86400000) \<le> 9999"
  shows "parse_timestamp (to_iso t) =
    Some \<lparr>epochMs = t, fraction = p3 (nat (t mod 86400000) mod 1000)\<rparr>"
proof -
  define d where "d = t div 86400000"
  define s where "s = nat (t mod 86400000)"
  define y where "y = year_of_day d"
  have s: "s < 86400000" by (simp add: s_def nat_less_iff)
  have t: "t = d * 86400000 + int s" by (simp add: d_def s_def)
  define Y where "Y = iso_year y"
  define M where "M = p2 (utc_month d + 1)"
  define D where "D = p2 (nat (utc_date d))"
  define H where "H = p2 (s div 3600000)"
  define I where "I = p2 (s div 60000 mod 60)"
  define S where "S = p2 (s div 1000 mod 60)"
  define F where "F = p3 (s mod 1000)"
  have y: "100 \<le> y" "y \<le> 9999" using assms by (simp_all add: y_def d_def)
  note ci = civil_fields [of d]
  have md: "utc_month d < 12" "1 \<le> utc_date d" "utc_date d \<le> 31"
    using ci(1-3) month_len_bounds [OF ci(1), of "leap (year_of_day d)"] by auto
  have len: "length Y = 4" "length M = 2" "length D = 2" "length H = 2" "length I = 2"
      "length S = 2" "length F = 3"
    using y md s by (auto simp: Y_def M_def D_def H_def I_def S_def F_def
        intro!: p2_facts p3_facts iso_year_facts)
  have dig: "\<forall>c \<in> set (Y @ M @ D @ H @ I @ S @ F). is_digit c"
    using y p2_facts(2) p3_facts(2) iso_year_facts(2) [of y]
    unfolding Y_def M_def D_def H_def I_def S_def F_def by (auto simp del: One_nat_def)
  have num: "int (num_of Y) = y" "num_of M = utc_month d + 1" "int (num_of D) = utc_date d"
      "num_of H = s div 3600000" "num_of I = s div 60000 mod 60" "num_of S = s div 1000 mod 60"
      "num_of F = s mod 1000"
    using y md by (simp_all add: Y_def M_def D_def H_def I_def S_def F_def
        p2_facts p3_facts iso_year_facts)
  let ?v = "Y @ ''-'' @ M @ ''-'' @ D @ ''T'' @ H @ '':'' @ I @ '':'' @ S @ ''.'' @ F @ ''Z''"
  have iso: "to_iso t = ?v"
    by (simp add: to_iso_def Let_def Y_def M_def D_def H_def I_def S_def F_def y_def d_def s_def)
  have ok: "matches TIMESTAMP ?v" using len dig by (intro matches_timestamp) auto
  have cut: "take 4 ?v = Y" "take 2 (drop 5 ?v) = M" "take 2 (drop 8 ?v) = D"
    "take 2 (drop 11 ?v) = H" "take 2 (drop 14 ?v) = I" "take 2 (drop 17 ?v) = S"
    "drop 19 ?v = CHR ''.'' # F @ ''Z''"
    using len by simp_all
  have "\<not> is_digit (CHR ''Z'')" by (simp add: is_digit_def code_def)
  then have fz: "capture_fraction ?v = F" "capture_zone ?v = ''Z''"
    using dig unfolding capture_fraction_def capture_zone_def cut(7)
    by (simp_all add: takeWhile_append dropWhile_append)
  have dim: "days_in_month y (int (utc_month d + 1)) = month_len (leap y) (utc_month d)"
    using md y days_in_month_eq [of "int (utc_month d + 1)" y] by (simp add: full_year_def)
  have mk: "make_day (full_year y) (int (utc_month d)) (utc_date d) = d"
    using ci(4) y by (simp add: full_year_def y_def)
  have f3: "pad_end 3 (CHR ''0'') (take 3 F) = F" using len by (simp add: pad_end_def)
  note time = time_parts_int [OF time_parts [of s]]
  have "date_utc y (int (utc_month d)) (utc_date d) (int (s div 3600000))
      (int (s div 60000 mod 60)) (int (s div 1000 mod 60)) (int (s mod 1000)) = t"
    unfolding date_utc_def mk t using time by linarith
  moreover have "s div 3600000 \<le> 23" "\<not> 59 < s div 60000 mod 60" "\<not> 59 < s div 1000 mod 60"
    using s mod_less_divisor [of 60 "s div 60000"] mod_less_divisor [of 60 "s div 1000"]
    by (simp, linarith+)
  moreover have "\<not> days_in_month y (1 + int (utc_month d)) < utc_date d"
    using dim ci(3) by (simp add: y_def add.commute)
  ultimately have "parse_timestamp ?v = Some \<lparr>epochMs = t, fraction = F\<rparr>"
    using ok md ci(3) num
    unfolding parse_timestamp_def cut fz f3 Let_def
    by (simp add: dim y_def [symmetric])
  then show ?thesis unfolding iso F_def s_def .
qed

end
