(* ===== verification/Errors.thy ===== *)
theory Errors
  imports Timestamp
begin

text \<open>
  \<open>adapters/core/typescript/src/errors.ts\<close> and \<open>record.ts\<close>: the failure codes with
  their messages, an issue, the errors the package throws, \<open>errorName\<close>, and \<open>createRecord\<close>.
  The clock reading and the fresh UUIDv7 \<open>createRecord\<close> takes from its environment are
  arguments.
\<close>

section \<open>Codes and issues\<close>

datatype error_code =
    REQUIRED | FORBIDDEN | UNKNOWN_PROPERTY | INVALID_TYPE | INVALID_ENUM | INVALID_STRING
  | STRING_TOO_LONG | INVALID_IDENTIFIER | INVALID_DATETIME | MILLISECOND_PRECISION
  | FUTURE_EVENT_TIME | INVALID_COUNTER | INVALID_COST | INVALID_CURRENCY
  | INVALID_PROPERTY_NAME | TOO_MANY_PROPERTIES | NON_PSEUDONYMOUS_ID | EMPTY_USAGE
  | INVALID_STRUCTURE | UNSUPPORTED_VERSION | NOT_JSON

definition MESSAGES :: "(error_code \<times> string \<times> string) list" where
  "MESSAGES =
    [(REQUIRED, ''REQUIRED'', ''required property is missing''),
     (FORBIDDEN, ''FORBIDDEN'', ''property is not allowed in this context''),
     (UNKNOWN_PROPERTY, ''UNKNOWN_PROPERTY'', ''property is not defined by the schema''),
     (INVALID_TYPE, ''INVALID_TYPE'', ''value has the wrong type''),
     (INVALID_ENUM, ''INVALID_ENUM'', ''value is not one of the allowed enumerants''),
     (INVALID_STRING, ''INVALID_STRING'',
      ''string is empty or does not match the required format''),
     (STRING_TOO_LONG, ''STRING_TOO_LONG'', ''string exceeds the maximum allowed length''),
     (INVALID_IDENTIFIER, ''INVALID_IDENTIFIER'', ''identifier is not in the required format''),
     (INVALID_DATETIME, ''INVALID_DATETIME'', ''value is not a valid RFC 3339 datetime''),
     (MILLISECOND_PRECISION, ''MILLISECOND_PRECISION'',
      ''timestamp must have millisecond precision''),
     (FUTURE_EVENT_TIME, ''FUTURE_EVENT_TIME'', ''event_time must not be in the future''),
     (INVALID_COUNTER, ''INVALID_COUNTER'',
      ''counter must be a finite number greater than or equal to zero''),
     (INVALID_COST, ''INVALID_COST'',
      ''cost amount must be a finite number within its allowed range''),
     (INVALID_CURRENCY, ''INVALID_CURRENCY'',
      ''currency must be a three-letter ISO 4217 code''),
     (INVALID_PROPERTY_NAME, ''INVALID_PROPERTY_NAME'', ''property name is not a valid AUDR key''),
     (TOO_MANY_PROPERTIES, ''TOO_MANY_PROPERTIES'', ''too many properties were provided''),
     (NON_PSEUDONYMOUS_ID, ''NON_PSEUDONYMOUS_ID'',
      ''user_id must be a pseudonymous identifier, not a raw personal value''),
     (EMPTY_USAGE, ''EMPTY_USAGE'', ''usage block must contain at least one counter''),
     (INVALID_STRUCTURE, ''INVALID_STRUCTURE'', ''record shape violates a cross-field rule''),
     (UNSUPPORTED_VERSION, ''UNSUPPORTED_VERSION'',
      ''spec_version is not a supported AUDR release''),
     (NOT_JSON, ''NOT_JSON'', ''input is not valid JSON'')]"

definition code_name :: "error_code \<Rightarrow> string" where
  "code_name c = (case map_of MESSAGES c of Some (n, m) \<Rightarrow> n | None \<Rightarrow> [])"

definition code_message :: "error_code \<Rightarrow> string" where
  "code_message c = (case map_of MESSAGES c of Some (n, m) \<Rightarrow> m | None \<Rightarrow> [])"

definition isErrorCode :: "string \<Rightarrow> bool" where
  "isErrorCode s = list_ex (\<lambda>(c, n, m). n = s) MESSAGES"

record validation_issue =
  issue_code :: error_code
  issue_path :: string
  issue_message :: string

definition issue :: "error_code \<Rightarrow> string \<Rightarrow> validation_issue" where
  "issue c p = \<lparr>issue_code = c, issue_path = p, issue_message = code_message c\<rparr>"

datatype audr_error = ConfigurationError string | ValidationError "validation_issue list"

definition issue_summary :: "validation_issue list \<Rightarrow> string" where
  "issue_summary is =
     join ''; '' (map (\<lambda>i. code_name (issue_code i) @ '' at '' @ issue_path i) is)"

definition validation_error_message :: "validation_issue list \<Rightarrow> string" where
  "validation_error_message is = nat_str (length is) @ '' issue(s): '' @ issue_summary is"

text \<open>
  What a \<open>catch\<close> receives: an \<open>Error\<close> by the value of its \<open>name\<close> property, \<open>None\<close> when
  reading it throws; or any other value by its \<open>typeof\<close>.
\<close>

datatype thrown = ThrownError "jsval option" | ThrownOther string

fun errorName :: "thrown \<Rightarrow> string" where
  "errorName (ThrownOther t) = t"
| "errorName (ThrownError None) = ''unknown''"
| "errorName (ThrownError (Some n)) = (case n of JStr s \<Rightarrow> s | _ \<Rightarrow> ''unknown'')"

lemma issue_simps [simp]:
  "issue_code (issue c p) = c" "issue_path (issue c p) = p"
  "issue_message (issue c p) = code_message c"
  by (simp_all add: issue_def)

lemma issue_eq_iff [simp]: "issue c p = issue c' p' \<longleftrightarrow> c = c' \<and> p = p'"
  by (auto simp: issue_def)

lemma code_name_inj: "code_name c = code_name c' \<longleftrightarrow> c = c'"
proof -
  define ns where "ns = map (\<lambda>(c, n, m). (c, n)) MESSAGES"
  have d: "distinct (map fst ns)" "distinct (map snd ns)"
    unfolding ns_def MESSAGES_def by code_simp+
  have m: "(c, code_name c) \<in> set ns" for c
    by (cases c) (simp_all add: ns_def code_name_def MESSAGES_def)
  have "inj_on snd (set ns)" using d(2) by (simp add: distinct_map)
  from inj_onD [OF this _ m m, of c c'] show ?thesis by auto
qed

lemma code_name_no_space: "CHR '' '' \<notin> set (code_name c)"
  by (cases c) (simp_all add: code_name_def MESSAGES_def)

section \<open>\<open>createRecord\<close>\<close>

definition SPEC_VERSION :: string where
  "SPEC_VERSION = ''1.1.0''"

text \<open>\<open>toTimestamp\<close>: an invalid \<open>Date\<close> prints as such, and fails validation later.\<close>

fun toTimestamp :: "int option \<Rightarrow> string" where
  "toTimestamp None = ''Invalid Date''"
| "toTimestamp (Some t) = to_iso t"

text \<open>
  \<open>event_time\<close> is a string, a \<open>Date\<close>, or absent; \<open>toTimestamp\<close> applies to a \<open>Date\<close> only,
  any other value makes \<open>getTime\<close> throw a \<open>TypeError\<close>, the result \<open>None\<close>.
\<close>

definition remove_key :: "string \<Rightarrow> fields \<Rightarrow> fields" where
  "remove_key k = filter (\<lambda>(n, v). n \<noteq> k)"

definition createRecord :: "int \<Rightarrow> string \<Rightarrow> fields \<Rightarrow> fields option" where
  "createRecord now fresh input =
     (let timing = field input ''timing''; rest = remove_key ''timing'' input;
          given = jget timing ''event_time'';
          rendered =
            (if nullish given then Some (to_iso now)
             else case given of JStr s \<Rightarrow> Some s | JDate t \<Rightarrow> Some (toTimestamp t) | _ \<Rightarrow> None)
      in case rendered of None \<Rightarrow> None
         | Some event_time \<Rightarrow>
             Some (put (put (put rest
                ''spec_version'' (coalesce (field input ''spec_version'') (JStr SPEC_VERSION)))
                ''record_id'' (coalesce (field input ''record_id'') (JStr fresh)))
                ''timing'' (JObj (put (entries timing) ''event_time'' (JStr event_time)))))"

lemma field_remove_key [simp]: "field (remove_key k kvs) k' = (if k' = k then JUndef else field kvs k')"
  by (induction kvs) (auto simp: remove_key_def)

end
