(* ===== verification/Schema.thy ===== *)
theory Schema
  imports Errors
begin

text \<open>
  \<open>adapters/core/typescript/src/generated-validator.ts\<close>: the schema it was compiled from
  (\<open>schema31\<close>), as a term whose meaning \<open>sat\<close> gives the JSON Schema keywords, and the
  validation function the module exports, property by property and in the order it reports
  failures.
\<close>

section \<open>JSON Schema\<close>

text \<open>
  A schema object is the list of its keywords. \<open>Closed\<close> is \<open>additionalProperties: false\<close>.
\<close>

datatype schema = Obj "keyword list"
and keyword =
    Type "string list"
  | Pattern rx
  | MinLength nat
  | MaxLength nat
  | Minimum rat
  | Maximum rat
  | Enum "string list"
  | Const string
  | Required "string list"
  | Properties "(string \<times> schema) list"
  | PatternProperties rx schema
  | Closed
  | Additional schema
  | PropertyNames schema
  | MinProperties nat
  | MaxProperties nat
  | Not schema
  | AllOf "schema list"
  | IfThen schema schema
  | Format string

fun declared :: "keyword list \<Rightarrow> string list" where
  "declared [] = []"
| "declared (Properties ps # ks) = map fst ps @ declared ks"
| "declared (_ # ks) = declared ks"

fun declared_patterns :: "keyword list \<Rightarrow> rx list" where
  "declared_patterns [] = []"
| "declared_patterns (PatternProperties r s # ks) = r # declared_patterns ks"
| "declared_patterns (_ # ks) = declared_patterns ks"

definition undeclared :: "keyword list \<Rightarrow> string \<Rightarrow> bool" where
  "undeclared ks k \<longleftrightarrow>
     \<not> List.member (declared ks) k \<and> \<not> list_ex (\<lambda>r. matches r k) (declared_patterns ks)"

fun has_type :: "jsval \<Rightarrow> string \<Rightarrow> bool" where
  "has_type (JStr s) t = (t = ''string'')"
| "has_type (JNum n) t = ((t = ''number'' \<and> is_finite n) \<or> (t = ''integer'' \<and> is_integer n))"
| "has_type v t = (t = ''object'' \<and> is_object v)"

definition has :: "jsval \<Rightarrow> string \<Rightarrow> bool" where
  "has v k \<longleftrightarrow> jget v k \<noteq> JUndef"

lemma size_schema_entry [termination_simp]:
  "(n, s) \<in> set ps \<Longrightarrow> size (s :: schema) < Suc (size_list (size_prod (\<lambda>_. 0) size) ps)"
  by (induction ps) auto

text \<open>
  A keyword constrains the values of the type it speaks of and lets every other value pass; a
  property set to \<open>undefined\<close> counts as absent for \<open>required\<close> and \<open>properties\<close>, and a number
  that is not finite is not a number.
\<close>

function sat :: "schema \<Rightarrow> jsval \<Rightarrow> bool"
  and sat_kw :: "keyword list \<Rightarrow> keyword \<Rightarrow> jsval \<Rightarrow> bool" where
  "sat (Obj ks) v = list_all (\<lambda>k. sat_kw ks k v) ks"
| "sat_kw ks (Type ts) v = list_ex (has_type v) ts"
| "sat_kw ks (Pattern r) v = (case v of JStr s \<Rightarrow> matches r s | _ \<Rightarrow> True)"
| "sat_kw ks (MinLength n) v = (case v of JStr s \<Rightarrow> n \<le> length s | _ \<Rightarrow> True)"
| "sat_kw ks (MaxLength n) v = (case v of JStr s \<Rightarrow> length s \<le> n | _ \<Rightarrow> True)"
| "sat_kw ks (Minimum m) v = (case v of JNum (Fin x) \<Rightarrow> m \<le> x | _ \<Rightarrow> True)"
| "sat_kw ks (Maximum m) v = (case v of JNum (Fin x) \<Rightarrow> x \<le> m | _ \<Rightarrow> True)"
| "sat_kw ks (Enum es) v = list_ex (\<lambda>e. v = JStr e) es"
| "sat_kw ks (Const c) v = (v = JStr c)"
| "sat_kw ks (Required ns) v = (is_object v \<longrightarrow> list_all (has v) ns)"
| "sat_kw ks (Properties ps) v =
     (is_object v \<longrightarrow> list_all (\<lambda>(n, s). has v n \<longrightarrow> sat s (jget v n)) ps)"
| "sat_kw ks (PatternProperties r s) v =
     (is_object v \<longrightarrow> list_all (\<lambda>k. matches r k \<longrightarrow> sat s (jget v k)) (keys v))"
| "sat_kw ks Closed v = (is_object v \<longrightarrow> \<not> list_ex (undeclared ks) (keys v))"
| "sat_kw ks (Additional s) v =
     (is_object v \<longrightarrow> list_all (\<lambda>k. undeclared ks k \<longrightarrow> sat s (jget v k)) (keys v))"
| "sat_kw ks (PropertyNames s) v = (is_object v \<longrightarrow> list_all (\<lambda>k. sat s (JStr k)) (keys v))"
| "sat_kw ks (MinProperties n) v = (is_object v \<longrightarrow> n \<le> length (keys v))"
| "sat_kw ks (MaxProperties n) v = (is_object v \<longrightarrow> length (keys v) \<le> n)"
| "sat_kw ks (Not s) v = (\<not> sat s v)"
| "sat_kw ks (AllOf ss) v = list_all (\<lambda>s. sat s v) ss"
| "sat_kw ks (IfThen c s) v = (sat c v \<longrightarrow> sat s v)"
| "sat_kw ks (Format f) v = True"
  by pat_completeness auto

termination
  by (relation "measure (case_sum (\<lambda>(s, v). size s) (\<lambda>(ks, k, v). size k))")
    (auto simp: termination_simp less_Suc_eq_le size_list_estimation')

section \<open>\<open>schema31\<close>\<close>

definition pattern4 :: rx where
  "pattern4 = Cat [Str ''1.'', Plus Digit, Str ''.'', Plus Digit]"

definition pattern5 :: rx where
  "pattern5 = TIMESTAMP"

definition lower_alpha :: "char \<times> char" where "lower_alpha = (CHR ''a'', CHR ''z'')"
definition upper_alpha :: "char \<times> char" where "upper_alpha = (CHR ''A'', CHR ''Z'')"
definition numerals :: "char \<times> char" where "numerals = (CHR ''0'', CHR ''9'')"
definition one :: "char \<Rightarrow> char \<times> char" where "one c = (c, c)"

definition pattern7 :: rx where
  "pattern7 = Plus (Cls [lower_alpha, numerals, one (CHR ''-'')])"

definition pattern8 :: rx where
  "pattern8 = Plus (Cls [lower_alpha, upper_alpha, numerals, one (CHR ''_''), one (CHR ''.''),
                         one (CHR ''-'')])"

definition pattern9 :: rx where
  "pattern9 = Sq (Str ''x_'') (Plus (Cls [lower_alpha, numerals, one (CHR ''_'')]))"

definition pattern13 :: rx where
  "pattern13 = Rep 3 (Cls [upper_alpha])"

definition Text :: schema where "Text = Obj [Type [''string'']]"
definition Text1 :: schema where "Text1 = Obj [Type [''string''], MinLength 1]"
definition Ident :: schema where "Ident = Obj [Type [''string''], MinLength 8, MaxLength 64]"
definition Counter :: schema where "Counter = Obj [Type [''integer''], Minimum 0]"
definition Amount :: schema where "Amount = Obj [Type [''number''], Minimum 0]"
definition Extension :: schema where "Extension = Obj [Type [''integer'', ''number''], Minimum 0]"
definition DateTime :: schema where
  "DateTime = Obj [Type [''string''], Format ''date-time'', Pattern pattern5]"

definition emitter_schema :: schema where
  "emitter_schema = Obj
    [Type [''object''], Closed, Required [''component'', ''name'', ''version''],
     Properties
       [(''component'', Obj [Enum [''harness'', ''router'', ''provider'']]),
        (''name'', Text1), (''version'', Text1)]]"

definition timing_schema :: schema where
  "timing_schema = Obj
    [Type [''object''], Closed, Required [''event_time''],
     Properties
       [(''event_time'', DateTime), (''received_time'', DateTime), (''duration_ms'', Counter)]]"

definition resource_schema :: schema where
  "resource_schema = Obj
    [Type [''object''], Closed, Required [''provider'', ''type'', ''name'', ''operation''],
     Properties
       [(''provider'', Obj [Type [''string''], Pattern pattern7]),
        (''type'', Obj [Enum [''model'', ''tool'']]),
        (''name'', Text1), (''namespace'', Text1),
        (''operation'', Obj [Enum
          [''generation'', ''embedding'', ''reranking'', ''tool_execution'', ''retrieval'']]),
        (''modality'', Obj [Enum [''text'', ''image'', ''audio'', ''multimodal'']]),
        (''key_name'', Text), (''region'', Text), (''deployment'', Text1)]]"

definition run_schema :: schema where
  "run_schema = Obj
    [Type [''object''], Closed, Required [''run_id'', ''span_id''],
     Properties
       [(''run_id'', Ident), (''name'', Text1), (''span_id'', Text1), (''parent_span_id'', Text1),
        (''step'', Counter), (''trace_id'', Text),
        (''run_type'', Obj [Enum [''agent_run'', ''workflow'', ''single_call'']]),
        (''error_code'', Text1),
        (''error_reason'', Obj [Type [''string''], MaxLength 32]),
        (''outcome'', Obj [Enum [''resolved'', ''escalated'', ''abandoned'', ''failed'']])]]"

definition labels_schema :: schema where
  "labels_schema = Obj
    [Type [''object''], MaxProperties 20,
     PropertyNames (Obj [MaxLength 64, Pattern pattern8]),
     Additional (Obj [Type [''string''], MaxLength 256])]"

definition attribution_schema :: schema where
  "attribution_schema = Obj
    [Type [''object''], Closed,
     Properties
       [(''environment'', Obj [Enum
          [''production'', ''staging'', ''development'', ''test'', ''evaluation'']]),
        (''user_id'', Text), (''account_id'', Text1), (''subscription_id'', Text),
        (''feature_id'', Text1), (''labels'', labels_schema)],
     AllOf [Obj [IfThen
       (Obj [Properties [(''environment'', Obj [Const ''production''])], Required [''environment'']])
       (Obj [Required [''account_id'']])]]]"

definition usage_llm_schema :: schema where
  "usage_llm_schema = Obj
    [Type [''object''], MinProperties 1, Closed,
     Properties
       [(''input_tokens'', Counter), (''output_tokens'', Counter), (''cache_read_tokens'', Counter),
        (''cache_write_tokens'', Counter), (''reasoning_tokens'', Counter), (''requests'', Counter),
        (''images_processed'', Counter), (''audio_input_seconds'', Amount),
        (''audio_output_seconds'', Amount)],
     PatternProperties pattern9 Extension]"

definition usage_tool_schema :: schema where
  "usage_tool_schema = Obj
    [Type [''object''], MinProperties 1, Closed,
     Properties [(''type'', Text1), (''call_count'', Counter), (''sandbox_time'', Amount)],
     PatternProperties pattern9 Extension]"

definition usage_schema :: schema where
  "usage_schema = Obj
    [Type [''object''], Closed,
     Properties [(''llm'', usage_llm_schema), (''tool'', usage_tool_schema)]]"

definition cost_llm_schema :: schema where
  "cost_llm_schema = Obj
    [Type [''object''], Closed, Required [''total_token_cost''],
     Properties
       [(''total_token_cost'', Amount), (''input_token_cost'', Amount),
        (''output_token_cost'', Amount), (''cache_read_cost'', Amount),
        (''cache_write_cost'', Amount), (''reasoning_cost'', Amount)]]"

definition cost_tool_schema :: schema where
  "cost_tool_schema = Obj
    [Type [''object''], MinProperties 1, Closed,
     Properties [(''type'', Text1), (''call_cost'', Amount), (''sandbox_cost'', Amount)],
     PatternProperties pattern9 Amount]"

definition cost_schema :: schema where
  "cost_schema = Obj
    [Type [''object''], Closed, Required [''total_cost'', ''currency''],
     Properties
       [(''total_cost'', Amount), (''currency'', Obj [Type [''string''], Pattern pattern13]),
        (''llm'', cost_llm_schema), (''tool'', cost_tool_schema),
        (''original_cost'', Amount), (''discount_amount'', Amount),
        (''discount_percent'', Obj [Type [''number''], Minimum 0, Maximum 100])]]"

definition operation_if :: "string list \<Rightarrow> schema" where
  "operation_if os = Obj
    [Required [''resource''],
     Properties [(''resource'', Obj
       [Required [''operation''], Properties [(''operation'', Obj [Enum os])]])]]"

definition model_branch :: schema where
  "model_branch = Obj [IfThen (operation_if [''generation'', ''embedding'', ''reranking''])
    (Obj [Properties
       [(''resource'', Obj
          [Required [''modality''], Properties [(''type'', Obj [Const ''model''])],
           Not (Obj [Required [''namespace'']])]),
        (''usage'', Obj [Required [''llm''], Not (Obj [Required [''tool'']])]),
        (''cost'', Obj [Not (Obj [Required [''tool'']])])]])]"

definition tool_branch :: schema where
  "tool_branch = Obj [IfThen (operation_if [''tool_execution'', ''retrieval''])
    (Obj [Properties
       [(''resource'', Obj [Properties [(''type'', Obj [Const ''tool''])]]),
        (''usage'', Obj [Required [''tool''], Not (Obj [Required [''llm'']])]),
        (''cost'', Obj [Not (Obj [Required [''llm'']])])]])]"

definition root_required :: "string list" where
  "root_required = [''spec_version'', ''record_id'', ''emitter'', ''timing'', ''resource'',
     ''usage'', ''run'', ''attribution'']"

definition schema31 :: schema where
  "schema31 = Obj
    [Type [''object''], Closed, Required root_required,
     Properties
       [(''spec_version'', Obj [Type [''string''], Pattern pattern4]), (''record_id'', Ident),
        (''emitter'', emitter_schema), (''corrects'', Ident), (''timing'', timing_schema),
        (''resource'', resource_schema), (''run'', run_schema),
        (''attribution'', attribution_schema), (''usage'', usage_schema), (''cost'', cost_schema)],
     AllOf [model_branch, tool_branch]]"

end
