(* ===== verification/Validator.thy ===== *)
theory Validator
  imports Schema
begin

text \<open>
  \<open>validate20\<close> and \<open>schemaErrors\<close> of
  \<open>adapters/core/typescript/src/generated-validator.ts\<close>: one definition per object of the
  schema, in the order the generated function visits them, over the checks it repeats for
  every leaf. The last section shows that it decides the schema.
\<close>

section \<open>Failures\<close>

datatype kw =
    K_type | K_required | K_additionalProperties | K_pattern | K_minLength | K_maxLength | K_enum
  | K_const | K_minimum | K_maximum | K_minProperties | K_maxProperties | K_propertyNames | K_not
  | K_if

text \<open>
  What the callers read of a failure: \<open>types\<close> is \<open>params.type\<close>, \<open>namedProperty\<close>
  \<open>params.propertyName\<close>, \<open>forbidden\<close> the \<open>required\<close> list of a failing \<open>not\<close>'s schema, and
  \<open>formatOf\<close> the \<open>format\<close> of the schema object that holds the keyword.
\<close>

record schema_error =
  keyword_of :: kw
  instancePath :: string
  schemaPath :: string
  types :: "string list"
  missingProperty :: "string option"
  additionalProperty :: "string option"
  namedProperty :: "string option"
  propertyName :: "string option"
  forbidden :: "string list"
  formatOf :: "string option"

definition err :: "kw \<Rightarrow> string \<Rightarrow> string \<Rightarrow> schema_error" where
  "err k ip sp = \<lparr>keyword_of = k, instancePath = ip, schemaPath = sp, types = [],
     missingProperty = None, additionalProperty = None, namedProperty = None,
     propertyName = None, forbidden = [], formatOf = None\<rparr>"

definition type_error :: "string list \<Rightarrow> string \<Rightarrow> string \<Rightarrow> schema_error" where
  "type_error ts ip sp = (err K_type ip (sp @ ''/type''))\<lparr>types := ts\<rparr>"

definition v_required :: "string list \<Rightarrow> string \<Rightarrow> string \<Rightarrow> jsval \<Rightarrow> schema_error list" where
  "v_required ns ip sp v =
     map (\<lambda>n. (err K_required ip (sp @ ''/required''))\<lparr>missingProperty := Some n\<rparr>)
       (filter (\<lambda>n. jget v n = JUndef) ns)"

definition v_closed :: "(string \<Rightarrow> bool) \<Rightarrow> string \<Rightarrow> string \<Rightarrow> jsval \<Rightarrow> schema_error list" where
  "v_closed known ip sp v =
     map (\<lambda>k. (err K_additionalProperties ip (sp @ ''/additionalProperties''))
                \<lparr>additionalProperty := Some k\<rparr>)
       (filter (\<lambda>k. \<not> known k) (keys v))"

section \<open>Leaves\<close>

text \<open>\<open>codePoints\<close>: a code unit of the model is a code point.\<close>

definition codePoints :: "string \<Rightarrow> nat" where
  "codePoints s = length s"

fun v_string :: "nat option \<Rightarrow> nat option \<Rightarrow> rx option \<Rightarrow> string option \<Rightarrow>
    string \<Rightarrow> string \<Rightarrow> jsval \<Rightarrow> schema_error list" where
  "v_string mx mn pat fmt ip sp (JStr s) =
     (case mx of Some n \<Rightarrow> if n < codePoints s then [err K_maxLength ip (sp @ ''/maxLength'')] else []
      | None \<Rightarrow> []) @
     (case mn of Some n \<Rightarrow> if codePoints s < n then [err K_minLength ip (sp @ ''/minLength'')] else []
      | None \<Rightarrow> []) @
     (case pat of Some r \<Rightarrow>
        if \<not> matches r s then [(err K_pattern ip (sp @ ''/pattern''))\<lparr>formatOf := fmt\<rparr>] else []
      | None \<Rightarrow> [])"
| "v_string mx mn pat fmt ip sp v = [type_error [''string''] ip sp]"

definition v_text :: "string \<Rightarrow> string \<Rightarrow> jsval \<Rightarrow> schema_error list" where
  "v_text = v_string None None None None"

definition v_text1 :: "string \<Rightarrow> string \<Rightarrow> jsval \<Rightarrow> schema_error list" where
  "v_text1 = v_string None (Some 1) None None"

definition v_ident :: "string \<Rightarrow> string \<Rightarrow> jsval \<Rightarrow> schema_error list" where
  "v_ident = v_string (Some 64) (Some 8) None None"

definition v_enum :: "string list \<Rightarrow> string \<Rightarrow> string \<Rightarrow> jsval \<Rightarrow> schema_error list" where
  "v_enum es ip sp v = (if list_ex (\<lambda>e. v = JStr e) es then [] else [err K_enum ip (sp @ ''/enum'')])"

fun v_minimum :: "string \<Rightarrow> string \<Rightarrow> jsval \<Rightarrow> schema_error list" where
  "v_minimum ip sp (JNum (Fin x)) = (if x < 0 then [err K_minimum ip (sp @ ''/minimum'')] else [])"
| "v_minimum ip sp v = []"

fun finite_number :: "jsval \<Rightarrow> bool" where
  "finite_number (JNum n) = is_finite n"
| "finite_number v = False"

fun integer_number :: "jsval \<Rightarrow> bool" where
  "integer_number (JNum n) = is_integer n"
| "integer_number v = False"

text \<open>An integer reports a wrong type and a wrong sign, a number one of the two.\<close>

definition v_counter :: "string \<Rightarrow> string \<Rightarrow> jsval \<Rightarrow> schema_error list" where
  "v_counter ip sp v =
     (if \<not> integer_number v then [type_error [''integer''] ip sp] else []) @ v_minimum ip sp v"

definition v_extension :: "string \<Rightarrow> string \<Rightarrow> jsval \<Rightarrow> schema_error list" where
  "v_extension ip sp v =
     (if \<not> finite_number v then [type_error [''integer'', ''number''] ip sp] else []) @
     v_minimum ip sp v"

definition v_amount :: "string \<Rightarrow> string \<Rightarrow> jsval \<Rightarrow> schema_error list" where
  "v_amount ip sp v =
     (if finite_number v then v_minimum ip sp v else [type_error [''number''] ip sp])"

fun v_percent :: "string \<Rightarrow> string \<Rightarrow> jsval \<Rightarrow> schema_error list" where
  "v_percent ip sp (JNum (Fin x)) =
     (if 100 < x then [err K_maximum ip (sp @ ''/maximum'')] else []) @
     (if x < 0 then [err K_minimum ip (sp @ ''/minimum'')] else [])"
| "v_percent ip sp v = [type_error [''number''] ip sp]"

text \<open>\<open>key.replace(/~/g, '~0').replace(/\\/g, '~1')\<close>, the escape of RFC 6901.\<close>

definition escape_segment :: "string \<Rightarrow> string" where
  "escape_segment s = replace_all ''/'' ''~1'' (replace_all ''~'' ''~0'' s)"

text \<open>\<open>if (data.p !== undefined) ...\<close>: the checks of property \<open>p\<close>, with its two paths.\<close>

definition v_prop :: "(string \<Rightarrow> string \<Rightarrow> jsval \<Rightarrow> schema_error list) \<Rightarrow> string \<Rightarrow>
    string \<Rightarrow> string \<Rightarrow> jsval \<Rightarrow> schema_error list" where
  "v_prop check p ip sp v =
     (if jget v p = JUndef then []
      else check (ip @ ''/'' @ p) (sp @ ''/properties/'' @ p) (jget v p))"

definition v_object :: "(string \<Rightarrow> string \<Rightarrow> jsval \<Rightarrow> schema_error list) \<Rightarrow>
    string \<Rightarrow> string \<Rightarrow> jsval \<Rightarrow> schema_error list" where
  "v_object check ip sp v =
     (if is_object v then check ip sp v else [type_error [''object''] ip sp])"

text \<open>The loop over the names that match \<open>pattern9\<close>, whose schema path is percent-encoded.\<close>

definition v_extensions :: "(string \<Rightarrow> string \<Rightarrow> jsval \<Rightarrow> schema_error list) \<Rightarrow>
    string \<Rightarrow> string \<Rightarrow> jsval \<Rightarrow> schema_error list" where
  "v_extensions check ip sp v =
     concat (map (\<lambda>k. check (ip @ ''/'' @ escape_segment k)
                        (sp @ ''/patternProperties/%5Ex_%5Ba-z0-9_%5D%2B%24'') (jget v k))
       (filter (matches pattern9) (keys v)))"

section \<open>Objects\<close>

definition v_emitter :: "string \<Rightarrow> string \<Rightarrow> jsval \<Rightarrow> schema_error list" where
  "v_emitter = v_object (\<lambda>ip sp v.
     v_required [''component'', ''name'', ''version''] ip sp v @
     v_closed (\<lambda>k. k = ''component'' \<or> k = ''name'' \<or> k = ''version'') ip sp v @
     v_prop (v_enum [''harness'', ''router'', ''provider'']) ''component'' ip sp v @
     v_prop v_text1 ''name'' ip sp v @
     v_prop v_text1 ''version'' ip sp v)"

definition v_datetime :: "string \<Rightarrow> string \<Rightarrow> jsval \<Rightarrow> schema_error list" where
  "v_datetime = v_string None None (Some pattern5) (Some ''date-time'')"

definition v_timing :: "string \<Rightarrow> string \<Rightarrow> jsval \<Rightarrow> schema_error list" where
  "v_timing = v_object (\<lambda>ip sp v.
     v_required [''event_time''] ip sp v @
     v_closed (\<lambda>k. k = ''event_time'' \<or> k = ''received_time'' \<or> k = ''duration_ms'') ip sp v @
     v_prop v_datetime ''event_time'' ip sp v @
     v_prop v_datetime ''received_time'' ip sp v @
     v_prop v_counter ''duration_ms'' ip sp v)"

definition resource_names :: "string list" where
  "resource_names = [''provider'', ''type'', ''name'', ''namespace'', ''operation'', ''modality'',
     ''key_name'', ''region'', ''deployment'']"

definition v_resource_a :: "string \<Rightarrow> string \<Rightarrow> jsval \<Rightarrow> schema_error list" where
  "v_resource_a ip sp v =
     v_required [''provider'', ''type'', ''name'', ''operation''] ip sp v @
     v_closed (List.member resource_names) ip sp v @
     v_prop (v_string None None (Some pattern7) None) ''provider'' ip sp v"

definition v_resource_b :: "string \<Rightarrow> string \<Rightarrow> jsval \<Rightarrow> schema_error list" where
  "v_resource_b ip sp v =
     v_prop (v_enum [''model'', ''tool'']) ''type'' ip sp v @
     v_prop v_text1 ''name'' ip sp v @
     v_prop v_text1 ''namespace'' ip sp v @
     v_prop (v_enum [''generation'', ''embedding'', ''reranking'', ''tool_execution'', ''retrieval''])
       ''operation'' ip sp v"

definition v_resource_c :: "string \<Rightarrow> string \<Rightarrow> jsval \<Rightarrow> schema_error list" where
  "v_resource_c ip sp v =
     v_prop (v_enum [''text'', ''image'', ''audio'', ''multimodal'']) ''modality'' ip sp v @
     v_prop v_text ''key_name'' ip sp v @
     v_prop v_text ''region'' ip sp v @
     v_prop v_text1 ''deployment'' ip sp v"

definition v_resource :: "string \<Rightarrow> string \<Rightarrow> jsval \<Rightarrow> schema_error list" where
  "v_resource = v_object (\<lambda>ip sp v.
     v_resource_a ip sp v @ v_resource_b ip sp v @ v_resource_c ip sp v)"

definition run_names :: "string list" where
  "run_names = [''run_id'', ''name'', ''span_id'', ''parent_span_id'', ''step'', ''trace_id'',
     ''run_type'', ''error_code'', ''error_reason'', ''outcome'']"

definition v_run_a :: "string \<Rightarrow> string \<Rightarrow> jsval \<Rightarrow> schema_error list" where
  "v_run_a ip sp v =
     v_required [''run_id'', ''span_id''] ip sp v @
     v_closed (List.member run_names) ip sp v @
     v_prop v_ident ''run_id'' ip sp v @
     v_prop v_text1 ''name'' ip sp v"

definition v_run_b :: "string \<Rightarrow> string \<Rightarrow> jsval \<Rightarrow> schema_error list" where
  "v_run_b ip sp v =
     v_prop v_text1 ''span_id'' ip sp v @
     v_prop v_text1 ''parent_span_id'' ip sp v @
     v_prop v_counter ''step'' ip sp v @
     v_prop v_text ''trace_id'' ip sp v"

definition v_run_c :: "string \<Rightarrow> string \<Rightarrow> jsval \<Rightarrow> schema_error list" where
  "v_run_c ip sp v =
     v_prop (v_enum [''agent_run'', ''workflow'', ''single_call'']) ''run_type'' ip sp v @
     v_prop v_text1 ''error_code'' ip sp v @
     v_prop (v_string (Some 32) None None None) ''error_reason'' ip sp v @
     v_prop (v_enum [''resolved'', ''escalated'', ''abandoned'', ''failed'']) ''outcome'' ip sp v"

definition v_run :: "string \<Rightarrow> string \<Rightarrow> jsval \<Rightarrow> schema_error list" where
  "v_run = v_object (\<lambda>ip sp v. v_run_a ip sp v @ v_run_b ip sp v @ v_run_c ip sp v)"

text \<open>
  One round of the loop over label names: each failure of the name carries it, and a
  \<open>propertyNames\<close> failure follows when there was one.
\<close>

definition v_label_name :: "string \<Rightarrow> string \<Rightarrow> string \<Rightarrow> schema_error list" where
  "v_label_name ip sp k =
     (let found = map (\<lambda>e. e\<lparr>propertyName := Some k\<rparr>)
            (v_string (Some 64) None (Some pattern8) None ip (sp @ ''/propertyNames'') (JStr k))
      in found @ (if found = [] then []
                  else [(err K_propertyNames ip (sp @ ''/propertyNames''))\<lparr>namedProperty := Some k\<rparr>]))"

definition v_label_value :: "string \<Rightarrow> string \<Rightarrow> jsval \<Rightarrow> string \<Rightarrow> schema_error list" where
  "v_label_value ip sp v k =
     v_string (Some 256) None None None (ip @ ''/'' @ escape_segment k)
       (sp @ ''/additionalProperties'') (jget v k)"

definition v_labels :: "string \<Rightarrow> string \<Rightarrow> jsval \<Rightarrow> schema_error list" where
  "v_labels = v_object (\<lambda>ip sp v.
     (if 20 < length (keys v) then [err K_maxProperties ip (sp @ ''/maxProperties'')] else []) @
     concat (map (v_label_name ip sp) (keys v)) @
     concat (map (v_label_value ip sp v) (keys v)))"

text \<open>The \<open>allOf\<close> branch of \<open>attribution\<close>, which comes first and runs on any value.\<close>

definition v_production :: "string \<Rightarrow> string \<Rightarrow> jsval \<Rightarrow> schema_error list" where
  "v_production ip sp v =
     (if is_object v \<longrightarrow> jget v ''environment'' = JStr ''production''
      then
        (let found = (if is_object v then v_required [''account_id''] ip (sp @ ''/allOf/0/then'') v
                      else [])
         in found @ (if found = [] then [] else [err K_if ip (sp @ ''/allOf/0/if'')]))
      else [])"

definition v_attribution_fields :: "string \<Rightarrow> string \<Rightarrow> jsval \<Rightarrow> schema_error list" where
  "v_attribution_fields ip sp v =
     v_closed (\<lambda>k. k = ''environment'' \<or> k = ''user_id'' \<or> k = ''account_id'' \<or>
       k = ''subscription_id'' \<or> k = ''feature_id'' \<or> k = ''labels'') ip sp v @
     v_prop (v_enum [''production'', ''staging'', ''development'', ''test'', ''evaluation''])
       ''environment'' ip sp v @
     v_prop v_text ''user_id'' ip sp v @
     v_prop v_text1 ''account_id'' ip sp v"

definition v_attribution_rest :: "string \<Rightarrow> string \<Rightarrow> jsval \<Rightarrow> schema_error list" where
  "v_attribution_rest ip sp v =
     v_prop v_text ''subscription_id'' ip sp v @
     v_prop v_text1 ''feature_id'' ip sp v @
     v_prop v_labels ''labels'' ip sp v"

definition v_attribution :: "string \<Rightarrow> string \<Rightarrow> jsval \<Rightarrow> schema_error list" where
  "v_attribution ip sp v =
     v_production ip sp v @
     v_object (\<lambda>ip sp v. v_attribution_fields ip sp v @ v_attribution_rest ip sp v) ip sp v"

definition usage_llm_names :: "string list" where
  "usage_llm_names = [''input_tokens'', ''output_tokens'', ''cache_read_tokens'',
     ''cache_write_tokens'', ''reasoning_tokens'', ''requests'', ''images_processed'',
     ''audio_input_seconds'', ''audio_output_seconds'']"

definition v_nonempty :: "string \<Rightarrow> string \<Rightarrow> jsval \<Rightarrow> schema_error list" where
  "v_nonempty ip sp v =
     (if length (keys v) < 1 then [err K_minProperties ip (sp @ ''/minProperties'')] else [])"

definition v_usage_llm_a :: "string \<Rightarrow> string \<Rightarrow> jsval \<Rightarrow> schema_error list" where
  "v_usage_llm_a ip sp v =
     v_nonempty ip sp v @
     v_closed (\<lambda>k. List.member usage_llm_names k \<or> matches pattern9 k) ip sp v @
     v_prop v_counter ''input_tokens'' ip sp v @
     v_prop v_counter ''output_tokens'' ip sp v"

definition v_usage_llm_b :: "string \<Rightarrow> string \<Rightarrow> jsval \<Rightarrow> schema_error list" where
  "v_usage_llm_b ip sp v =
     v_prop v_counter ''cache_read_tokens'' ip sp v @
     v_prop v_counter ''cache_write_tokens'' ip sp v @
     v_prop v_counter ''reasoning_tokens'' ip sp v"

definition v_usage_llm_c :: "string \<Rightarrow> string \<Rightarrow> jsval \<Rightarrow> schema_error list" where
  "v_usage_llm_c ip sp v =
     v_prop v_counter ''requests'' ip sp v @
     v_prop v_counter ''images_processed'' ip sp v @
     v_prop v_amount ''audio_input_seconds'' ip sp v @
     v_prop v_amount ''audio_output_seconds'' ip sp v"

definition v_usage_llm :: "string \<Rightarrow> string \<Rightarrow> jsval \<Rightarrow> schema_error list" where
  "v_usage_llm = v_object (\<lambda>ip sp v.
     v_usage_llm_a ip sp v @ v_usage_llm_b ip sp v @ v_usage_llm_c ip sp v @
     v_extensions v_extension ip sp v)"

definition v_usage_tool_a :: "string \<Rightarrow> string \<Rightarrow> jsval \<Rightarrow> schema_error list" where
  "v_usage_tool_a ip sp v =
     v_nonempty ip sp v @
     v_closed (\<lambda>k. k = ''type'' \<or> k = ''call_count'' \<or> k = ''sandbox_time'' \<or> matches pattern9 k)
       ip sp v @
     v_prop v_text1 ''type'' ip sp v @
     v_prop v_counter ''call_count'' ip sp v"

definition v_usage_tool :: "string \<Rightarrow> string \<Rightarrow> jsval \<Rightarrow> schema_error list" where
  "v_usage_tool = v_object (\<lambda>ip sp v.
     v_usage_tool_a ip sp v @
     v_prop v_amount ''sandbox_time'' ip sp v @
     v_extensions v_extension ip sp v)"

definition v_usage :: "string \<Rightarrow> string \<Rightarrow> jsval \<Rightarrow> schema_error list" where
  "v_usage = v_object (\<lambda>ip sp v.
     v_closed (\<lambda>k. k = ''llm'' \<or> k = ''tool'') ip sp v @
     v_prop v_usage_llm ''llm'' ip sp v @
     v_prop v_usage_tool ''tool'' ip sp v)"

definition v_cost_llm_a :: "string \<Rightarrow> string \<Rightarrow> jsval \<Rightarrow> schema_error list" where
  "v_cost_llm_a ip sp v =
     v_required [''total_token_cost''] ip sp v @
     v_closed (\<lambda>k. k = ''total_token_cost'' \<or> k = ''input_token_cost'' \<or> k = ''output_token_cost'' \<or>
       k = ''cache_read_cost'' \<or> k = ''cache_write_cost'' \<or> k = ''reasoning_cost'') ip sp v @
     v_prop v_amount ''total_token_cost'' ip sp v @
     v_prop v_amount ''input_token_cost'' ip sp v"

definition v_cost_llm_b :: "string \<Rightarrow> string \<Rightarrow> jsval \<Rightarrow> schema_error list" where
  "v_cost_llm_b ip sp v =
     v_prop v_amount ''output_token_cost'' ip sp v @
     v_prop v_amount ''cache_read_cost'' ip sp v @
     v_prop v_amount ''cache_write_cost'' ip sp v @
     v_prop v_amount ''reasoning_cost'' ip sp v"

definition v_cost_llm :: "string \<Rightarrow> string \<Rightarrow> jsval \<Rightarrow> schema_error list" where
  "v_cost_llm = v_object (\<lambda>ip sp v. v_cost_llm_a ip sp v @ v_cost_llm_b ip sp v)"

definition v_cost_tool_a :: "string \<Rightarrow> string \<Rightarrow> jsval \<Rightarrow> schema_error list" where
  "v_cost_tool_a ip sp v =
     v_nonempty ip sp v @
     v_closed (\<lambda>k. k = ''type'' \<or> k = ''call_cost'' \<or> k = ''sandbox_cost'' \<or> matches pattern9 k)
       ip sp v @
     v_prop v_text1 ''type'' ip sp v @
     v_prop v_amount ''call_cost'' ip sp v"

definition v_cost_tool :: "string \<Rightarrow> string \<Rightarrow> jsval \<Rightarrow> schema_error list" where
  "v_cost_tool = v_object (\<lambda>ip sp v.
     v_cost_tool_a ip sp v @
     v_prop v_amount ''sandbox_cost'' ip sp v @
     v_extensions v_amount ip sp v)"

definition v_cost_head :: "string \<Rightarrow> string \<Rightarrow> jsval \<Rightarrow> schema_error list" where
  "v_cost_head ip sp v =
     v_required [''total_cost'', ''currency''] ip sp v @
     v_closed (\<lambda>k. k = ''total_cost'' \<or> k = ''currency'' \<or> k = ''llm'' \<or> k = ''tool'' \<or>
       k = ''original_cost'' \<or> k = ''discount_amount'' \<or> k = ''discount_percent'') ip sp v @
     v_prop v_amount ''total_cost'' ip sp v @
     v_prop (v_string None None (Some pattern13) None) ''currency'' ip sp v"

definition v_cost_tail :: "string \<Rightarrow> string \<Rightarrow> jsval \<Rightarrow> schema_error list" where
  "v_cost_tail ip sp v =
     v_prop v_amount ''original_cost'' ip sp v @
     v_prop v_amount ''discount_amount'' ip sp v @
     v_prop v_percent ''discount_percent'' ip sp v"

definition v_cost :: "string \<Rightarrow> string \<Rightarrow> jsval \<Rightarrow> schema_error list" where
  "v_cost = v_object (\<lambda>ip sp v.
     v_cost_head ip sp v @
     v_prop v_cost_llm ''llm'' ip sp v @
     v_prop v_cost_tool ''tool'' ip sp v @
     v_cost_tail ip sp v)"

section \<open>The branches of the root\<close>

text \<open>The condition of a branch: vacuously true of a value that is no object.\<close>

definition operation_in :: "string list \<Rightarrow> jsval \<Rightarrow> bool" where
  "operation_in os d \<longleftrightarrow>
     (is_object d \<longrightarrow>
        (let r = jget d ''resource''
         in r \<noteq> JUndef \<and>
            (is_object r \<longrightarrow> jget r ''operation'' \<noteq> JUndef \<and>
               list_ex (\<lambda>e. jget r ''operation'' = JStr e) os)))"

text \<open>\<open>not: { required: [p] }\<close> fails unless the value is an object without \<open>p\<close>.\<close>

definition v_forbid :: "string \<Rightarrow> string \<Rightarrow> string \<Rightarrow> jsval \<Rightarrow> schema_error list" where
  "v_forbid p ip sp v =
     (if is_object v \<and> jget v p = JUndef then []
      else [(err K_not ip (sp @ ''/not''))\<lparr>forbidden := [p]\<rparr>])"

definition v_demand :: "string \<Rightarrow> string \<Rightarrow> string \<Rightarrow> jsval \<Rightarrow> schema_error list" where
  "v_demand p ip sp v = (if is_object v then v_required [p] ip sp v else [])"

definition v_const :: "string \<Rightarrow> string \<Rightarrow> string \<Rightarrow> jsval \<Rightarrow> schema_error list" where
  "v_const c ip sp v = (if v = JStr c then [] else [err K_const ip (sp @ ''/const'')])"

definition v_type_const :: "string \<Rightarrow> string \<Rightarrow> string \<Rightarrow> jsval \<Rightarrow> schema_error list" where
  "v_type_const c ip sp v = (if is_object v then v_prop (v_const c) ''type'' ip sp v else [])"

definition v_model_then :: "string \<Rightarrow> string \<Rightarrow> jsval \<Rightarrow> schema_error list" where
  "v_model_then ip sp d =
     v_prop (\<lambda>ip sp r. v_forbid ''namespace'' ip sp r @ v_demand ''modality'' ip sp r @
       v_type_const ''model'' ip sp r) ''resource'' ip sp d @
     v_prop (\<lambda>ip sp u. v_forbid ''tool'' ip sp u @ v_demand ''llm'' ip sp u) ''usage'' ip sp d @
     v_prop (v_forbid ''tool'') ''cost'' ip sp d"

definition v_tool_then :: "string \<Rightarrow> string \<Rightarrow> jsval \<Rightarrow> schema_error list" where
  "v_tool_then ip sp d =
     v_prop (v_type_const ''tool'') ''resource'' ip sp d @
     v_prop (\<lambda>ip sp u. v_forbid ''llm'' ip sp u @ v_demand ''tool'' ip sp u) ''usage'' ip sp d @
     v_prop (v_forbid ''llm'') ''cost'' ip sp d"

definition v_branch :: "string list \<Rightarrow> (string \<Rightarrow> string \<Rightarrow> jsval \<Rightarrow> schema_error list) \<Rightarrow>
    string \<Rightarrow> jsval \<Rightarrow> schema_error list" where
  "v_branch os check sp d =
     (if operation_in os d
      then
        (let found = (if is_object d then check [] (sp @ ''/then'') d else [])
         in found @ (if found = [] then [] else [err K_if [] (sp @ ''/if'')]))
      else [])"

definition v_model :: "jsval \<Rightarrow> schema_error list" where
  "v_model = v_branch [''generation'', ''embedding'', ''reranking''] v_model_then ''#/allOf/0''"

definition v_tool :: "jsval \<Rightarrow> schema_error list" where
  "v_tool = v_branch [''tool_execution'', ''retrieval''] v_tool_then ''#/allOf/1''"

definition root_names :: "string list" where
  "root_names = [''spec_version'', ''record_id'', ''emitter'', ''corrects'', ''timing'',
     ''resource'', ''run'', ''attribution'', ''usage'', ''cost'']"

definition v_head :: "string \<Rightarrow> string \<Rightarrow> jsval \<Rightarrow> schema_error list" where
  "v_head ip sp d = v_required root_required ip sp d @ v_closed (List.member root_names) ip sp d"

definition v_ids :: "string \<Rightarrow> string \<Rightarrow> jsval \<Rightarrow> schema_error list" where
  "v_ids ip sp d =
     v_prop (v_string None None (Some pattern4) None) ''spec_version'' ip sp d @
     v_prop v_ident ''record_id'' ip sp d"

definition v_fields :: "string \<Rightarrow> string \<Rightarrow> jsval \<Rightarrow> schema_error list" where
  "v_fields ip sp d =
     v_head ip sp d @
     v_ids ip sp d @
     v_prop v_emitter ''emitter'' ip sp d @
     v_prop v_ident ''corrects'' ip sp d @
     v_prop v_timing ''timing'' ip sp d @
     v_prop v_resource ''resource'' ip sp d @
     v_prop v_run ''run'' ip sp d @
     v_prop v_attribution ''attribution'' ip sp d @
     v_prop v_usage ''usage'' ip sp d @
     v_prop v_cost ''cost'' ip sp d"

definition schemaErrors :: "jsval \<Rightarrow> schema_error list" where
  "schemaErrors d = v_model d @ v_tool d @ v_object v_fields [] ''#'' d"

section \<open>The validator decides the schema\<close>

named_theorems valid_simps \<open>when a check reports nothing\<close>

lemma v_required_iff [valid_simps]:
  "v_required ns ip sp v = [] \<longleftrightarrow> list_all (has v) ns"
  by (auto simp: v_required_def filter_empty_conv list_all_iff has_def)

lemma v_closed_iff [valid_simps]:
  "v_closed known ip sp v = [] \<longleftrightarrow> list_all known (keys v)"
  by (auto simp: v_closed_def filter_empty_conv list_all_iff)

lemma list_all_member [valid_simps]:
  "list_all (List.member ns) xs \<longleftrightarrow> list_all (\<lambda>k. k \<in> set ns) xs"
  by (simp add: list_all_iff)

lemma v_prop_iff [valid_simps]:
  "v_prop check p ip sp v = [] \<longleftrightarrow>
     (has v p \<longrightarrow> check (ip @ ''/'' @ p) (sp @ ''/properties/'' @ p) (jget v p) = [])"
  by (auto simp: v_prop_def has_def)

lemma v_enum_iff [valid_simps]: "v_enum es ip sp v = [] \<longleftrightarrow> sat (Obj [Enum es]) v"
  by (simp add: v_enum_def)

lemma v_string_iff:
  "v_string mx mn pat fmt ip sp v = [] \<longleftrightarrow>
     (case v of JStr s \<Rightarrow>
        (case mx of Some n \<Rightarrow> length s \<le> n | None \<Rightarrow> True) \<and>
        (case mn of Some n \<Rightarrow> n \<le> length s | None \<Rightarrow> True) \<and>
        (case pat of Some r \<Rightarrow> matches r s | None \<Rightarrow> True)
      | _ \<Rightarrow> False)"
  by (cases v) (auto simp: type_error_def codePoints_def split: option.splits)

lemma v_string_pattern [valid_simps]:
  "v_string None None (Some r) None ip sp v = [] \<longleftrightarrow> sat (Obj [Type [''string''], Pattern r]) v"
  by (cases v) (auto simp: codePoints_def)

lemma v_string_max [valid_simps]:
  "v_string (Some n) None None None ip sp v = [] \<longleftrightarrow> sat (Obj [Type [''string''], MaxLength n]) v"
  by (cases v) (auto simp: codePoints_def)

lemma v_text_iff [valid_simps]: "v_text ip sp v = [] \<longleftrightarrow> sat Text v"
  by (cases v) (auto simp: v_text_def Text_def codePoints_def)

lemma v_text1_iff [valid_simps]: "v_text1 ip sp v = [] \<longleftrightarrow> sat Text1 v"
  by (cases v) (auto simp: v_text1_def Text1_def codePoints_def Suc_le_eq)

lemma v_ident_iff [valid_simps]: "v_ident ip sp v = [] \<longleftrightarrow> sat Ident v"
  by (cases v) (auto simp: v_ident_def Ident_def codePoints_def)

lemma v_datetime_iff [valid_simps]: "v_datetime ip sp v = [] \<longleftrightarrow> sat DateTime v"
  by (cases v) (auto simp: v_datetime_def DateTime_def codePoints_def)

lemma v_minimum_iff:
  "v_minimum ip sp v = [] \<longleftrightarrow> (case v of JNum (Fin x) \<Rightarrow> 0 \<le> x | _ \<Rightarrow> True)"
  by (cases "(ip, sp, v)" rule: v_minimum.cases) (auto split: jsnum.splits)

lemma v_counter_iff [valid_simps]: "v_counter ip sp v = [] \<longleftrightarrow> sat Counter v"
  by (cases v) (auto simp: v_counter_def Counter_def v_minimum_iff split: jsnum.splits)

lemma v_extension_iff [valid_simps]: "v_extension ip sp v = [] \<longleftrightarrow> sat Extension v"
  by (cases v) (auto simp: v_extension_def Extension_def v_minimum_iff is_integer_finite
      split: jsnum.splits)

lemma v_amount_iff [valid_simps]: "v_amount ip sp v = [] \<longleftrightarrow> sat Amount v"
  by (cases v) (auto simp: v_amount_def Amount_def v_minimum_iff split: jsnum.splits)

lemma v_percent_iff [valid_simps]:
  "v_percent ip sp v = [] \<longleftrightarrow> sat (Obj [Type [''number''], Minimum 0, Maximum 100]) v"
  by (cases "(ip, sp, v)" rule: v_percent.cases) (auto split: jsnum.splits)

lemma v_object_iff [valid_simps]:
  "v_object check ip sp v = [] \<longleftrightarrow> is_object v \<and> check ip sp v = []"
  by (simp add: v_object_def)

lemma v_extensions_iff:
  assumes "\<And>ip sp v. check ip sp v = [] \<longleftrightarrow> sat s v"
  shows "v_extensions check ip sp v = [] \<longleftrightarrow>
    list_all (\<lambda>k. matches pattern9 k \<longrightarrow> sat s (jget v k)) (keys v)"
  using assms by (auto simp: v_extensions_def list_all_iff)

lemmas extension_checks [valid_simps] =
  v_extensions_iff [where check = v_extension, OF v_extension_iff]
  v_extensions_iff [where check = v_amount, OF v_amount_iff]

lemma has_type_object [simp]: "has_type v ''object'' = is_object v"
  by (cases v) auto

lemma undeclared_all:
  "(\<not> list_ex (undeclared ks) xs) \<longleftrightarrow>
     list_all (\<lambda>k. List.member (declared ks) k \<or> list_ex (\<lambda>r. matches r k) (declared_patterns ks)) xs"
  by (auto simp: undeclared_def list_ex_iff list_all_iff)

lemma member_Cons: "List.member (x # xs) y \<longleftrightarrow> y = x \<or> List.member xs y"
  by auto

lemma member_Nil: "\<not> List.member [] y"
  by simp

lemmas sat_object_simps =
  sat.simps sat_kw.simps undeclared_all member_Cons member_Nil has_type_object

lemma v_emitter_iff [valid_simps]: "v_emitter ip sp v = [] \<longleftrightarrow> sat emitter_schema v"
  unfolding v_emitter_def emitter_schema_def
  by (auto simp: valid_simps sat_object_simps)

lemma v_timing_iff [valid_simps]: "v_timing ip sp v = [] \<longleftrightarrow> sat timing_schema v"
  unfolding v_timing_def timing_schema_def
  by (auto simp: valid_simps sat_object_simps)

lemma v_resource_iff [valid_simps]: "v_resource ip sp v = [] \<longleftrightarrow> sat resource_schema v"
  unfolding v_resource_def v_resource_a_def v_resource_b_def v_resource_c_def resource_schema_def
  by (auto simp: valid_simps sat_object_simps resource_names_def)

lemma v_run_iff [valid_simps]: "v_run ip sp v = [] \<longleftrightarrow> sat run_schema v"
  unfolding v_run_def v_run_a_def v_run_b_def v_run_c_def run_schema_def
  by (auto simp: valid_simps sat_object_simps run_names_def)

lemma v_label_name_iff:
  "v_label_name ip sp k = [] \<longleftrightarrow> length k \<le> 64 \<and> matches pattern8 k"
  by (auto simp: v_label_name_def Let_def codePoints_def)

lemma v_label_value_iff:
  "v_label_value ip sp v k = [] \<longleftrightarrow> sat (Obj [Type [''string''], MaxLength 256]) (jget v k)"
  unfolding v_label_value_def by (rule v_string_max)

lemma v_labels_iff [valid_simps]: "v_labels ip sp v = [] \<longleftrightarrow> sat labels_schema v"
  unfolding v_labels_def labels_schema_def v_object_iff
  by (auto simp: v_label_name_iff v_label_value_iff undeclared_def list_all_iff)

lemma v_production_iff:
  "v_production ip sp v = [] \<longleftrightarrow>
     (is_object v \<and> jget v ''environment'' = JStr ''production'' \<longrightarrow> has v ''account_id'')"
  by (auto simp: v_production_def Let_def valid_simps)

lemma v_attribution_iff [valid_simps]: "v_attribution ip sp v = [] \<longleftrightarrow> sat attribution_schema v"
proof -
  have "sat (Obj [IfThen
       (Obj [Properties [(''environment'', Obj [Const ''production''])], Required [''environment'']])
       (Obj [Required [''account_id'']])]) v \<longleftrightarrow> v_production ip sp v = []"
    by (auto simp: v_production_iff has_def)
  then show ?thesis
    unfolding v_attribution_def v_attribution_fields_def v_attribution_rest_def
      attribution_schema_def append_is_Nil_conv
    by (auto simp: valid_simps sat_object_simps)
qed

lemma v_nonempty_iff [valid_simps]: "v_nonempty ip sp v = [] \<longleftrightarrow> 1 \<le> length (keys v)"
  by (auto simp: v_nonempty_def Suc_le_eq)

lemma v_usage_llm_iff [valid_simps]: "v_usage_llm ip sp v = [] \<longleftrightarrow> sat usage_llm_schema v"
  unfolding v_usage_llm_def v_usage_llm_a_def v_usage_llm_b_def v_usage_llm_c_def
    usage_llm_schema_def
  by (auto simp: valid_simps sat_object_simps usage_llm_names_def)

lemma v_usage_tool_iff [valid_simps]: "v_usage_tool ip sp v = [] \<longleftrightarrow> sat usage_tool_schema v"
  unfolding v_usage_tool_def v_usage_tool_a_def usage_tool_schema_def
  by (auto simp: valid_simps sat_object_simps)

lemma v_usage_iff [valid_simps]: "v_usage ip sp v = [] \<longleftrightarrow> sat usage_schema v"
  unfolding v_usage_def usage_schema_def
  by (auto simp: valid_simps sat_object_simps)

lemma v_cost_llm_iff [valid_simps]: "v_cost_llm ip sp v = [] \<longleftrightarrow> sat cost_llm_schema v"
  unfolding v_cost_llm_def v_cost_llm_a_def v_cost_llm_b_def cost_llm_schema_def
  by (auto simp: valid_simps sat_object_simps)

lemma v_cost_tool_iff [valid_simps]: "v_cost_tool ip sp v = [] \<longleftrightarrow> sat cost_tool_schema v"
  unfolding v_cost_tool_def v_cost_tool_a_def cost_tool_schema_def
  by (auto simp: valid_simps sat_object_simps)

lemma v_cost_iff [valid_simps]: "v_cost ip sp v = [] \<longleftrightarrow> sat cost_schema v"
  unfolding v_cost_def v_cost_head_def v_cost_tail_def cost_schema_def
  by (auto simp: valid_simps sat_object_simps)

lemma operation_in_iff: "operation_in os d \<longleftrightarrow> sat (operation_if os) d"
  by (auto simp: operation_in_def operation_if_def has_def Let_def)

lemma v_forbid_iff [valid_simps]:
  "v_forbid p ip sp v = [] \<longleftrightarrow> sat (Obj [Not (Obj [Required [p]])]) v"
  by (auto simp: v_forbid_def has_def)

lemma v_demand_iff [valid_simps]: "v_demand p ip sp v = [] \<longleftrightarrow> sat (Obj [Required [p]]) v"
  by (auto simp: v_demand_def valid_simps)

lemma v_type_const_iff [valid_simps]:
  "v_type_const c ip sp v = [] \<longleftrightarrow> sat (Obj [Properties [(''type'', Obj [Const c])]]) v"
  by (auto simp: v_type_const_def v_const_def valid_simps)

lemma v_branch_iff:
  "v_branch os check sp d = [] \<longleftrightarrow>
     (sat (operation_if os) d \<longrightarrow> is_object d \<longrightarrow> check [] (sp @ ''/then'') d = [])"
  by (auto simp: v_branch_def operation_in_iff Let_def)

lemma v_model_iff: "v_model d = [] \<longleftrightarrow> sat model_branch d"
  unfolding v_model_def model_branch_def v_branch_iff v_model_then_def
  by (auto simp: valid_simps)

lemma v_tool_iff: "v_tool d = [] \<longleftrightarrow> sat tool_branch d"
  unfolding v_tool_def tool_branch_def v_branch_iff v_tool_then_def
  by (auto simp: valid_simps)

lemma v_fields_iff:
  "v_object v_fields ip sp d = [] \<and> sat model_branch d \<and> sat tool_branch d \<longleftrightarrow> sat schema31 d"
  unfolding v_object_iff v_fields_def v_head_def v_ids_def schema31_def root_required_def
  by (auto simp: valid_simps sat_object_simps root_names_def)

lemma schemaErrors_Nil: "schemaErrors d = [] \<longleftrightarrow> sat schema31 d"
  unfolding schemaErrors_def append_is_Nil_conv v_model_iff v_tool_iff
  using v_fields_iff [of "[]" "''#''" d] by blast

text \<open>
  C3: The generated validator reports no failure exactly for the values that satisfy the schema
  it was compiled from, for every JavaScript value, of whatever shape.
\<close>

theorem schema_errors_iff: "schemaErrors d = [] \<longleftrightarrow> sat schema31 d"
  by (rule schemaErrors_Nil)

end
