(* ===== verification/Validate.thy ===== *)
theory Validate
  imports Validator
begin

text \<open>
  \<open>adapters/core/typescript/src/validate.ts\<close>: the copy of a value as JSON sees it, schema
  failures turned into issues, the formats and rules the specification states in prose, and
  \<open>inspect\<close> and \<open>validate\<close> over them. The clock is an argument; \<open>None\<close> is the reading of an
  invalid \<open>Date\<close>, \<open>NaN\<close>. A value whose reading throws is \<open>None\<close>.
\<close>

definition FUTURE_SKEW_MS :: int where
  "FUTURE_SKEW_MS = 5 * 60 * 1000"

definition crockford :: "(char \<times> char) list" where
  "crockford = [(CHR ''0'', CHR ''9''), (CHR ''A'', CHR ''H''), one (CHR ''J''), one (CHR ''K''),
     one (CHR ''M''), one (CHR ''N''), (CHR ''P'', CHR ''T''), (CHR ''V'', CHR ''Z'')]"

definition hex :: rx where
  "hex = Cls [(CHR ''0'', CHR ''9''), (CHR ''a'', CHR ''f'')]"

definition ULID :: rx where
  "ULID = Sq (Cls [(CHR ''0'', CHR ''7'')]) (Rep 25 (Cls crockford))"

definition UUID7 :: rx where
  "UUID7 = Cat [Rep 8 hex, Str ''-'', Rep 4 hex, Str ''-7'', Rep 3 hex, Str ''-'',
     Cls [(CHR ''8'', CHR ''9''), (CHR ''a'', CHR ''b'')], Rep 3 hex, Str ''-'', Rep 12 hex]"

definition TRACE_ID :: rx where
  "TRACE_ID = Rep 32 hex"

definition SINK_OWNED :: string where
  "SINK_OWNED = ''/timing/received_time''"

definition CALLER_KEYED :: string where
  "CALLER_KEYED = ''labels''"

definition REDACTED :: string where
  "REDACTED = ''*''"

fun kw_name :: "kw \<Rightarrow> string" where
  "kw_name K_type = ''type''"
| "kw_name K_required = ''required''"
| "kw_name K_additionalProperties = ''additionalProperties''"
| "kw_name K_pattern = ''pattern''"
| "kw_name K_minLength = ''minLength''"
| "kw_name K_maxLength = ''maxLength''"
| "kw_name K_enum = ''enum''"
| "kw_name K_const = ''const''"
| "kw_name K_minimum = ''minimum''"
| "kw_name K_maximum = ''maximum''"
| "kw_name K_minProperties = ''minProperties''"
| "kw_name K_maxProperties = ''maxProperties''"
| "kw_name K_propertyNames = ''propertyNames''"
| "kw_name K_not = ''not''"
| "kw_name K_if = ''if''"

definition KEYWORD_CODES :: "(string \<times> error_code) list" where
  "KEYWORD_CODES =
    [(''enum'', INVALID_ENUM), (''const'', INVALID_STRUCTURE), (''minLength'', INVALID_STRING),
     (''maxLength'', STRING_TOO_LONG), (''required'', REQUIRED),
     (''additionalProperties'', UNKNOWN_PROPERTY), (''maxProperties'', TOO_MANY_PROPERTIES),
     (''propertyNames'', INVALID_PROPERTY_NAME), (''not'', FORBIDDEN)]"

definition FIELD_CODES :: "(string \<times> error_code) list" where
  "FIELD_CODES =
    [(''/spec_version pattern'', UNSUPPORTED_VERSION),
     (''/record_id minLength'', INVALID_IDENTIFIER), (''/record_id maxLength'', INVALID_IDENTIFIER),
     (''/corrects minLength'', INVALID_IDENTIFIER), (''/corrects maxLength'', INVALID_IDENTIFIER),
     (''/cost/currency pattern'', INVALID_CURRENCY),
     (''/usage required'', INVALID_STRUCTURE), (''/usage not'', INVALID_STRUCTURE)]"

section \<open>Paths\<close>

definition unescape :: "string \<Rightarrow> string" where
  "unescape s = replace_all ''~0'' ''~'' (replace_all ''~1'' ''/'' s)"

definition path_segments :: "string \<Rightarrow> string list" where
  "path_segments p = map unescape (tl (split_on (CHR ''/'') p))"

text \<open>\<open>pointer\<close>: the name after \<open>labels\<close> is the caller's and is not shown.\<close>

fun pointer_segments :: "bool \<Rightarrow> string list \<Rightarrow> string list" where
  "pointer_segments redact [] = []"
| "pointer_segments redact (s # ss) =
     (if redact then REDACTED else escape_segment s) # pointer_segments (s = CALLER_KEYED) ss"

definition pointer :: "string list \<Rightarrow> string" where
  "pointer p = (if p = [] then ''/'' else ''/'' @ join ''/'' (pointer_segments False p))"

definition valueAt :: "jsval \<Rightarrow> string list \<Rightarrow> jsval" where
  "valueAt d p = foldl (\<lambda>parent k. if is_object parent then jget parent k else JUndef) d p"

section \<open>Issues from schema failures\<close>

definition propertyOf :: "schema_error \<Rightarrow> string option" where
  "propertyOf e =
     (if keyword_of e = K_not then (case forbidden e of [] \<Rightarrow> None | p # _ \<Rightarrow> Some p)
      else opt_or (missingProperty e) (opt_or (additionalProperty e)
             (opt_or (propertyName e) (namedProperty e))))"

fun non_finite :: "jsval \<Rightarrow> bool" where
  "non_finite (JNum n) = (\<not> is_finite n)"
| "non_finite _ = False"

definition codeFor :: "schema_error \<Rightarrow> jsval \<Rightarrow> error_code" where
  "codeFor e v =
     (if propertyName e \<noteq> None then INVALID_PROPERTY_NAME
      else
        let bound = (if starts_with ''/cost/'' (instancePath e) then INVALID_COST
                     else INVALID_COUNTER)
        in case keyword_of e of
             K_type \<Rightarrow>
               if non_finite v \<and> list_ex (\<lambda>t. t = ''number'' \<or> t = ''integer'') (types e)
               then bound else INVALID_TYPE
           | K_pattern \<Rightarrow>
               if formatOf e = Some ''date-time'' then INVALID_DATETIME else INVALID_STRING
           | K_minimum \<Rightarrow> bound
           | K_maximum \<Rightarrow> bound
           | K_minProperties \<Rightarrow>
               if starts_with ''/usage/'' (instancePath e) then EMPTY_USAGE else INVALID_STRUCTURE
           | k \<Rightarrow> (case map_of KEYWORD_CODES (kw_name k) of
                    Some c \<Rightarrow> c | None \<Rightarrow> INVALID_STRUCTURE))"

definition toIssue :: "schema_error \<Rightarrow> jsval \<Rightarrow> validation_issue" where
  "toIssue e d =
     (let segments = path_segments (instancePath e)
      in case map_of FIELD_CODES (instancePath e @ '' '' @ kw_name (keyword_of e)) of
           Some c \<Rightarrow> issue c (pointer segments)
         | None \<Rightarrow>
             (let path = (case propertyOf e of None \<Rightarrow> segments | Some p \<Rightarrow> segments @ [p])
              in issue (codeFor e (valueAt d segments)) (pointer path)))"

definition mistyped :: "schema_error list \<Rightarrow> string \<Rightarrow> bool" where
  "mistyped es p \<longleftrightarrow> list_ex (\<lambda>e. keyword_of e = K_type \<and> instancePath e = p) es"

text \<open>The failures the loop of \<open>schemaIssues\<close> does not skip.\<close>

definition reported :: "schema_error list \<Rightarrow> jsval \<Rightarrow> schema_error \<Rightarrow> bool" where
  "reported es d e \<longleftrightarrow>
     keyword_of e \<noteq> K_if \<and>
     \<not> (keyword_of e \<noteq> K_type \<and> mistyped es (instancePath e)) \<and>
     issue_path (toIssue e d) \<noteq> SINK_OWNED"

definition is_conditional :: "schema_error \<Rightarrow> bool" where
  "is_conditional e \<longleftrightarrow> has_sub ''/allOf/'' (schemaPath e)"

definition schemaIssues :: "jsval \<Rightarrow> validation_issue list \<times> validation_issue list" where
  "schemaIssues d =
     (let es = schemaErrors d; kept = filter (reported es d) es
      in (map (\<lambda>e. toIssue e d) (filter (\<lambda>e. \<not> is_conditional e) kept),
          map (\<lambda>e. toIssue e d) (filter is_conditional kept)))"

section \<open>Formats and rules of the prose\<close>

definition is_identifier :: "string \<Rightarrow> bool" where
  "is_identifier s \<longleftrightarrow> matches ULID s \<or> matches UUID7 s"

definition id_issue :: "jsval \<Rightarrow> string \<Rightarrow> validation_issue list" where
  "id_issue d key =
     (case jget d key of
        JStr s \<Rightarrow> if \<not> is_identifier s then [issue INVALID_IDENTIFIER (''/'' @ key)] else []
      | _ \<Rightarrow> [])"

definition timing_issues :: "jsval \<Rightarrow> validation_issue list" where
  "timing_issues timing =
     (if is_object timing then
        (case jget timing ''event_time'' of
           JStr s \<Rightarrow> if parse_timestamp s = None then [issue INVALID_DATETIME ''/timing/event_time'']
                     else []
         | _ \<Rightarrow> []) @
        (if jget timing ''received_time'' \<noteq> JUndef then [issue FORBIDDEN SINK_OWNED] else [])
      else [])"

definition trace_issues :: "jsval \<Rightarrow> validation_issue list" where
  "trace_issues run =
     (if is_object run then
        (case jget run ''trace_id'' of
           JStr s \<Rightarrow> if \<not> matches TRACE_ID s then [issue INVALID_IDENTIFIER ''/run/trace_id''] else []
         | _ \<Rightarrow> [])
      else [])"

definition formatIssues :: "jsval \<Rightarrow> validation_issue list" where
  "formatIssues d =
     (if \<not> is_object d then []
      else id_issue d ''record_id'' @ id_issue d ''corrects'' @ timing_issues (jget d ''timing'') @
           trace_issues (jget d ''run''))"

definition nonzero_digit :: "char \<Rightarrow> bool" where
  "nonzero_digit c \<longleftrightarrow> 49 \<le> code c \<and> code c \<le> 57"

definition event_time_of :: "jsval \<Rightarrow> instant option" where
  "event_time_of d =
     (case jget (jget d ''timing'') ''event_time'' of JStr s \<Rightarrow> parse_timestamp s | _ \<Rightarrow> None)"

definition proseIssues :: "jsval \<Rightarrow> int option \<Rightarrow> validation_issue list" where
  "proseIssues d now =
     (case event_time_of d of
        None \<Rightarrow> []
      | Some t \<Rightarrow>
          (if list_ex nonzero_digit (drop 3 (fraction t))
           then [issue MILLISECOND_PRECISION ''/timing/event_time''] else []) @
          (case now of
             Some n \<Rightarrow> if n + FUTURE_SKEW_MS < epochMs t
                       then [issue FUTURE_EVENT_TIME ''/timing/event_time''] else []
           | None \<Rightarrow> [])) @
     (if jget (jget d ''attribution'') ''environment'' = JUndef
      then [issue REQUIRED ''/attribution/environment''] else []) @
     (case jget (jget d ''attribution'') ''user_id'' of
        JStr s \<Rightarrow> if has_sub ''@'' s then [issue NON_PSEUDONYMOUS_ID ''/attribution/user_id''] else []
      | _ \<Rightarrow> [])"

section \<open>\<open>asJson\<close>, \<open>inspect\<close> and \<open>validate\<close>\<close>

definition present :: "string option \<Rightarrow> jsval \<Rightarrow> bool" where
  "present key f \<longleftrightarrow> key = Some CALLER_KEYED \<or> f \<noteq> JUndef"

fun asJson :: "string option \<Rightarrow> jsval \<Rightarrow> jsval" where
  "asJson key (JObj kvs) =
     JObj (map (\<lambda>(n, f). (n, asJson (Some n) f)) (filter (\<lambda>(n, f). present key f) kvs))"
| "asJson key (JInst kvs) =
     JObj (map (\<lambda>(n, f). (n, asJson (Some n) f)) (filter (\<lambda>(n, f). present key f) kvs))"
| "asJson key (JDate t) = JObj []"
| "asJson key v = v"

definition dedupe :: "validation_issue list \<Rightarrow> validation_issue list" where
  "dedupe is =
     map snd (foldl (\<lambda>m i. put m (code_name (issue_code i) @ '' '' @ issue_path i) i) [] is)"

definition inspect :: "jsval option \<Rightarrow> int option \<Rightarrow> validation_issue list \<times> jsval" where
  "inspect v now =
     (case v of
        None \<Rightarrow> ([issue INVALID_TYPE ''/''], JUndef)
      | Some x \<Rightarrow>
          let d = asJson None x; (structural, conditional) = schemaIssues d;
              broken = formatIssues d @ structural
          in if broken \<noteq> [] then (dedupe broken, d)
             else (dedupe (conditional @ proseIssues d now), d))"

definition validate :: "jsval option \<Rightarrow> int option \<Rightarrow> validation_issue list" where
  "validate v now = fst (inspect v now)"

end
