(* ===== verification/Conformance.thy ===== *)
theory Conformance
  imports Validate
begin

text \<open>
  What \<open>validate\<close> promises: a record conforms when it satisfies the schema and the rules the
  specification states in prose (\<open>conforms\<close>), and \<open>validate\<close> reports no issue exactly then.
  The other lemmas are about the issues it does report: their paths never show a label's
  name, and no issue is reported twice.
\<close>

section \<open>Escaping and pointers\<close>

definition escape_char :: "char \<Rightarrow> string" where
  "escape_char c = (if c = CHR ''~'' then ''~0'' else if c = CHR ''/'' then ''~1'' else [c])"

lemma escape_segment_eq: "escape_segment s = concat (map escape_char s)"
  by (induction s) (auto simp: escape_segment_def escape_char_def replace_all_char)

lemma escape_no_slash: "CHR ''/'' \<notin> set (escape_segment s)"
  by (auto simp: escape_segment_eq escape_char_def)

lemma unescape_escape: "unescape (escape_segment s) = s"
proof -
  have "replace_all ''~1'' ''/'' (concat (map escape_char s)) =
      concat (map (\<lambda>c. if c = CHR ''~'' then ''~0'' else [c]) s)"
    by (induction s) (auto simp: escape_char_def)
  moreover have "replace_all ''~0'' ''~'' (concat (map (\<lambda>c. if c = CHR ''~'' then ''~0'' else [c]) s)) = s"
    by (induction s) auto
  ultimately show ?thesis by (simp add: unescape_def escape_segment_eq)
qed

lemma escape_eq_iff: "escape_segment s = escape_segment t \<longleftrightarrow> s = t"
  by (metis unescape_escape)

lemma pointer_segments_no_slash: "\<forall>x \<in> set (pointer_segments r p). CHR ''/'' \<notin> set x"
  by (induction r p rule: pointer_segments.induct) (auto simp: escape_no_slash REDACTED_def)

lemma pointer_segments_Nil [simp]: "pointer_segments r p = [] \<longleftrightarrow> p = []"
  by (cases p) auto

lemma split_pointer:
  "p \<noteq> [] \<Longrightarrow> split_on (CHR ''/'') (pointer p) = [] # pointer_segments False p"
  using split_on_join [of "pointer_segments False p" "CHR ''/''"] pointer_segments_no_slash
  by (simp add: pointer_def)

lemma pointer_sink_owned: "pointer p = SINK_OWNED \<longleftrightarrow> p = [''timing'', ''received_time'']"
proof
  assume eq: "pointer p = SINK_OWNED"
  then have "p \<noteq> []" by (auto simp: pointer_def SINK_OWNED_def)
  from split_pointer [OF this] eq
  have ps: "pointer_segments False p = [''timing'', ''received_time'']"
    by (simp add: SINK_OWNED_def)
  have e: "escape_segment ''timing'' = ''timing''" "escape_segment ''received_time'' = ''received_time''"
    by (simp_all add: escape_segment_eq escape_char_def)
  from ps obtain a b where "p = [a, b]" by (cases p rule: remdups_adj.cases) auto
  with ps have "a = ''timing''" "b = ''received_time''"
    using escape_eq_iff [of a "''timing''"] escape_eq_iff [of b "''received_time''"]
    by (auto simp: e REDACTED_def split: if_splits)
  with \<open>p = [a, b]\<close> show "p = [''timing'', ''received_time'']" by simp
next
  assume "p = [''timing'', ''received_time'']"
  then show "pointer p = SINK_OWNED"
    by (simp add: pointer_def SINK_OWNED_def escape_segment_eq escape_char_def CALLER_KEYED_def)
qed

section \<open>Where failures are\<close>

text \<open>
  A list of failures below a path: all are there, and a failure of an \<open>if\<close> never comes alone.
\<close>

definition below :: "string \<Rightarrow> schema_error list \<Rightarrow> bool" where
  "below ip es \<longleftrightarrow>
     (\<forall>e \<in> set es. starts_with ip (instancePath e)) \<and>
     (es \<noteq> [] \<longrightarrow> (\<exists>e \<in> set es. keyword_of e \<noteq> K_if))"

named_theorems below_intros \<open>the failures of a check are below its path\<close>

lemma starts_with_refl [simp]: "starts_with p p"
  by (simp add: starts_with_def)

lemma below_Nil [below_intros]: "below ip []"
  by (simp add: below_def)

lemma below_append [below_intros]: "below ip xs \<Longrightarrow> below ip ys \<Longrightarrow> below ip (xs @ ys)"
  by (auto simp: below_def)

lemma below_if [below_intros]:
  "(b \<Longrightarrow> below ip xs) \<Longrightarrow> (\<not> b \<Longrightarrow> below ip ys) \<Longrightarrow> below ip (if b then xs else ys)"
  by auto

lemma below_concat:
  assumes "\<And>x. x \<in> set xs \<Longrightarrow> below ip (f x)"
  shows "below ip (concat (map f xs))"
  using assms by (induction xs) (auto intro: below_intros)

lemma below_extend: "below (ip @ s) es \<Longrightarrow> below ip es"
  by (auto simp: below_def starts_with_iff)

lemma err_simps [simp]:
  "keyword_of (err k ip sp) = k" "instancePath (err k ip sp) = ip" "schemaPath (err k ip sp) = sp"
  by (simp_all add: err_def)

lemma below_required [below_intros]: "below ip (v_required ns ip sp v)"
  by (auto simp: below_def v_required_def filter_empty_conv)

lemma below_closed [below_intros]: "below ip (v_closed known ip sp v)"
  by (auto simp: below_def v_closed_def filter_empty_conv)

lemma below_string [below_intros]: "below ip (v_string mx mn pat fmt ip sp v)"
  by (cases v) (auto simp: below_def type_error_def split: option.splits)

lemma below_leaves [below_intros]:
  "below ip (v_text ip sp v)" "below ip (v_text1 ip sp v)" "below ip (v_ident ip sp v)"
  "below ip (v_datetime ip sp v)"
  by (simp_all add: v_text_def v_text1_def v_ident_def v_datetime_def below_string)

lemma below_enum [below_intros]: "below ip (v_enum es ip sp v)"
  by (simp add: v_enum_def below_def)

lemma below_minimum [below_intros]: "below ip (v_minimum ip sp v)"
  by (cases "(ip, sp, v)" rule: v_minimum.cases) (auto simp: below_def)

lemma below_numbers [below_intros]:
  "below ip (v_counter ip sp v)" "below ip (v_amount ip sp v)" "below ip (v_extension ip sp v)"
  using below_minimum [of ip sp v]
  by (auto simp: v_counter_def v_amount_def v_extension_def below_def type_error_def)

lemma below_percent [below_intros]: "below ip (v_percent ip sp v)"
  by (cases "(ip, sp, v)" rule: v_percent.cases) (auto simp: below_def type_error_def)

lemma below_prop [below_intros]:
  "(\<And>ip sp v. below ip (check ip sp v)) \<Longrightarrow> below ip (v_prop check p ip sp v)"
  unfolding v_prop_def by (intro below_intros) (blast intro: below_extend)

lemma below_object [below_intros]:
  "(\<And>ip sp v. below ip (check ip sp v)) \<Longrightarrow> below ip (v_object check ip sp v)"
  by (auto simp: v_object_def below_def type_error_def)

lemma below_extensions [below_intros]:
  "(\<And>ip sp v. below ip (check ip sp v)) \<Longrightarrow> below ip (v_extensions check ip sp v)"
  unfolding v_extensions_def by (intro below_concat) (blast intro: below_extend)

lemma below_nonempty [below_intros]: "below ip (v_nonempty ip sp v)"
  by (auto simp: v_nonempty_def below_def)

lemma below_label_name [below_intros]: "below ip (v_label_name ip sp k)"
  by (auto simp: v_label_name_def Let_def below_def)

lemma below_label_value [below_intros]: "below ip (v_label_value ip sp v k)"
  unfolding v_label_value_def by (rule below_extend [of _ "''/'' @ escape_segment k"]) (simp add: below_string)

lemma below_labels [below_intros]: "below ip (v_labels ip sp v)"
  unfolding v_labels_def
  by (intro below_object below_append below_concat below_label_name below_label_value)
    (auto simp: below_def)

lemma below_production [below_intros]: "below ip (v_production ip sp v)"
  by (auto simp: v_production_def Let_def below_def v_required_def)

lemma below_attribution [below_intros]: "below ip (v_attribution ip sp v)"
  unfolding v_attribution_def v_attribution_fields_def v_attribution_rest_def
  by (intro below_intros)

lemma below_objects [below_intros]:
  "below ip (v_emitter ip sp v)" "below ip (v_timing ip sp v)" "below ip (v_resource ip sp v)"
  "below ip (v_run ip sp v)" "below ip (v_usage_llm ip sp v)" "below ip (v_usage_tool ip sp v)"
  "below ip (v_cost_llm ip sp v)" "below ip (v_cost_tool ip sp v)"
  unfolding v_emitter_def v_timing_def v_resource_def v_resource_a_def v_resource_b_def
    v_resource_c_def v_run_def v_run_a_def v_run_b_def v_run_c_def v_usage_llm_def
    v_usage_llm_a_def v_usage_llm_b_def v_usage_llm_c_def v_usage_tool_def v_usage_tool_a_def
    v_cost_llm_def v_cost_llm_a_def v_cost_llm_b_def v_cost_tool_def v_cost_tool_a_def
  by (intro below_intros)+

lemma below_blocks [below_intros]: "below ip (v_usage ip sp v)" "below ip (v_cost ip sp v)"
  unfolding v_usage_def v_cost_def v_cost_head_def v_cost_tail_def
  by (intro below_intros)+

lemma below_branch_parts [below_intros]:
  "below ip (v_forbid p ip sp v)" "below ip (v_demand p ip sp v)" "below ip (v_type_const c ip sp v)"
  by (auto simp: v_forbid_def v_demand_def v_type_const_def v_const_def v_prop_def below_def
      v_required_def)

section \<open>Which failures are reported\<close>

lemma issue_path_toIssue:
  "issue_path (toIssue e d) = pointer (path_segments (instancePath e)) \<or>
   (\<exists>p. propertyOf e = Some p \<and>
      issue_path (toIssue e d) = pointer (path_segments (instancePath e) @ [p]))"
  by (auto simp: toIssue_def Let_def split: option.splits)

lemma sink_owned_cases:
  assumes "issue_path (toIssue e d) = SINK_OWNED"
  shows "path_segments (instancePath e) = [''timing'', ''received_time''] \<or>
    (path_segments (instancePath e) = [''timing''] \<and> propertyOf e = Some ''received_time'')"
proof -
  have "SINK_OWNED = pointer p \<longleftrightarrow> p = [''timing'', ''received_time'']" for p
    using pointer_sink_owned [of p] by auto
  then show ?thesis
    using issue_path_toIssue [of e d] unfolding assms by (auto simp: append_eq_Cons_conv)
qed

lemma replace_all_keep:
  "p \<noteq> [] \<Longrightarrow> hd p \<noteq> c \<Longrightarrow> replace_all p r (c # s) = c # replace_all p r s"
  by (cases p) auto

lemma path_segments_first:
  assumes "c \<noteq> CHR ''/''" "c \<noteq> CHR ''~''" "starts_with [CHR ''/'', c] ip"
  shows "\<exists>s ss. path_segments ip = (c # s) # ss"
proof -
  from assms obtain r where ip: "ip = CHR ''/'' # c # r" by (auto simp: starts_with_iff)
  then show ?thesis
    using assms
    by (auto simp: path_segments_def unescape_def replace_all_keep split: list.splits)
qed

lemma path_segments_literals [simp]:
  "path_segments [] = []" "path_segments ''/timing'' = [''timing'']"
  "path_segments ''/timing/event_time'' = [''timing'', ''event_time'']"
  "path_segments ''/timing/duration_ms'' = [''timing'', ''duration_ms'']"
  by (simp_all add: path_segments_def unescape_def)

definition first_in :: "char list \<Rightarrow> schema_error list \<Rightarrow> bool" where
  "first_in cs es \<longleftrightarrow>
     (\<forall>e \<in> set es. instancePath e = [] \<or> (\<exists>c \<in> set cs. starts_with [CHR ''/'', c] (instancePath e)))"

lemma first_in_append: "first_in cs (xs @ ys) \<longleftrightarrow> first_in cs xs \<and> first_in cs ys"
  by (auto simp: first_in_def)

lemma first_in_prop:
  assumes "\<And>ip sp v. below ip (check ip sp v)" "c \<in> set cs"
  shows "first_in cs (v_prop check (c # p) [] sp d)"
  using below_prop [of check "c # p" "[]" sp d, OF assms(1)] assms(2)
    assms(1) [of "''/'' @ c # p"]
  by (fastforce simp: first_in_def v_prop_def below_def starts_with_iff)

lemma first_in_root:
  "first_in cs (v_required ns [] sp d)" "first_in cs (v_closed known [] sp d)"
  by (auto simp: first_in_def v_required_def v_closed_def)

lemma first_in_branch:
  assumes "\<And>sp. first_in cs (check [] sp d)"
  shows "first_in cs (v_branch os check sp d)"
  using assms by (auto simp: v_branch_def Let_def first_in_def)

definition section_chars :: "char list" where
  "section_chars = ''srecua''"

lemma first_in_sections:
  "first_in section_chars (v_model d)" "first_in section_chars (v_tool d)"
  unfolding v_model_def v_tool_def v_model_then_def v_tool_then_def
  by (intro first_in_branch, unfold first_in_append,
      intro conjI first_in_prop below_intros, simp_all add: section_chars_def)+

lemma first_in_fields:
  "e \<in> set (v_object v_fields [] ''#'' d) \<Longrightarrow>
     instancePath e = [] \<or> (\<exists>c \<in> set section_chars. starts_with [CHR ''/'', c] (instancePath e)) \<or>
     (is_object d \<and> e \<in> set (v_prop v_timing ''timing'' [] ''#'' d))"
proof -
  have parts: "first_in section_chars (v_head [] ''#'' d @ v_ids [] ''#'' d @
      v_prop v_emitter ''emitter'' [] ''#'' d @ v_prop v_ident ''corrects'' [] ''#'' d @
      v_prop v_resource ''resource'' [] ''#'' d @ v_prop v_run ''run'' [] ''#'' d @
      v_prop v_attribution ''attribution'' [] ''#'' d @ v_prop v_usage ''usage'' [] ''#'' d @
      v_prop v_cost ''cost'' [] ''#'' d)"
    unfolding v_head_def v_ids_def first_in_append
    by (intro conjI first_in_root first_in_prop below_intros) (simp_all add: section_chars_def)
  assume "e \<in> set (v_object v_fields [] ''#'' d)"
  then show ?thesis
    using parts by (auto simp: v_object_def v_fields_def first_in_def type_error_def split: if_splits)
qed

lemma string_failures_here:
  "e \<in> set (v_string mx mn pat fmt ip sp v) \<Longrightarrow> instancePath e = ip \<and> propertyOf e = None"
  by (cases v) (auto simp: type_error_def propertyOf_def err_def split: option.splits if_splits)

lemma counter_failures_here:
  "e \<in> set (v_counter ip sp v) \<Longrightarrow> instancePath e = ip \<and> propertyOf e = None"
  by (cases "(ip, sp, v)" rule: v_minimum.cases)
    (auto simp: v_counter_def type_error_def propertyOf_def err_def split: if_splits)

lemma timing_failures:
  assumes "e \<in> set (v_prop v_timing ''timing'' [] ''#'' d)"
    and "issue_path (toIssue e d) = SINK_OWNED"
  shows "is_object (jget d ''timing'') \<and> jget (jget d ''timing'') ''received_time'' \<noteq> JUndef"
proof (rule ccontr)
  assume absent: "\<not> ?thesis"
  have "instancePath e = ''/timing'' \<and> propertyOf e \<noteq> Some ''received_time'' \<or>
      instancePath e \<in> {''/timing/event_time'', ''/timing/duration_ms''} \<and> propertyOf e = None"
    using assms(1) absent
    by (auto simp: v_prop_def v_timing_def v_object_def v_required_def v_closed_def type_error_def
        v_datetime_def propertyOf_def err_def split: if_splits
        dest!: string_failures_here counter_failures_here)
  with sink_owned_cases [OF assms(2)] show False by auto
qed

lemma sink_owned_failure:
  assumes e: "e \<in> set (schemaErrors d)" and path: "issue_path (toIssue e d) = SINK_OWNED"
  shows "is_object d \<and> is_object (jget d ''timing'') \<and>
    jget (jget d ''timing'') ''received_time'' \<noteq> JUndef"
proof -
  have "\<exists>ss. path_segments (instancePath e) = ''timing'' # ss"
    using sink_owned_cases [OF path] by auto
  moreover have "\<exists>s ss. path_segments (instancePath e) = (c # s) # ss"
    if "c \<in> set section_chars" "starts_with [CHR ''/'', c] (instancePath e)" for c
    using that by (intro path_segments_first) (auto simp: section_chars_def)
  moreover have "CHR ''t'' \<notin> set section_chars" by (simp add: section_chars_def)
  ultimately have "\<not> (instancePath e = [] \<or>
      (\<exists>c \<in> set section_chars. starts_with [CHR ''/'', c] (instancePath e)))"
    by fastforce
  with e have "is_object d \<and> e \<in> set (v_prop v_timing ''timing'' [] ''#'' d)"
    using first_in_sections [of d] first_in_fields [of e d]
    by (auto simp: schemaErrors_def first_in_def)
  with timing_failures [OF _ path] show ?thesis by blast
qed

lemma below_schemaErrors: "below [] (schemaErrors d)"
proof -
  have branch: "below [] (v_branch os check sp d)" if "\<And>sp. below [] (check [] sp d)" for os check sp
    using that by (auto simp: v_branch_def Let_def below_def)
  have "below [] (v_model d)" "below [] (v_tool d)"
    unfolding v_model_def v_tool_def v_model_then_def v_tool_then_def
    by (intro branch below_intros)+
  moreover have "below [] (v_object v_fields [] ''#'' d)"
    unfolding v_fields_def v_head_def v_ids_def by (intro below_intros)
  ultimately show ?thesis
    unfolding schemaErrors_def by (intro below_append)
qed

text \<open>When something is wrong, something is reported: a failure, or the sink-owned property.\<close>

lemma some_reported:
  assumes "schemaErrors d \<noteq> []" and "formatIssues d = []"
  shows "\<exists>e \<in> set (schemaErrors d). reported (schemaErrors d) d e"
proof -
  let ?es = "schemaErrors d"
  have clear: "issue_path (toIssue e d) \<noteq> SINK_OWNED" if "e \<in> set ?es" for e
    using sink_owned_failure [OF that] assms(2)
    by (auto simp: formatIssues_def timing_issues_def split: if_splits)
  from below_schemaErrors [of d] assms(1) obtain e where e: "e \<in> set ?es" "keyword_of e \<noteq> K_if"
    by (auto simp: below_def)
  show ?thesis
  proof (cases "mistyped ?es (instancePath e)")
    case True
    then obtain t where "t \<in> set ?es" "keyword_of t = K_type"
      by (auto simp: mistyped_def list_ex_iff)
    with clear show ?thesis by (auto simp: reported_def intro!: bexI [of _ t])
  next
    case False
    with e clear show ?thesis by (auto simp: reported_def intro!: bexI [of _ e])
  qed
qed

lemma schemaIssues_Nil:
  assumes "formatIssues d = []"
  shows "fst (schemaIssues d) = [] \<and> snd (schemaIssues d) = [] \<longleftrightarrow> sat schema31 d"
proof -
  have "fst (schemaIssues d) = [] \<and> snd (schemaIssues d) = [] \<longleftrightarrow>
      (\<forall>e \<in> set (schemaErrors d). \<not> reported (schemaErrors d) d e)"
    by (auto simp: schemaIssues_def Let_def filter_empty_conv)
  also have "\<dots> \<longleftrightarrow> schemaErrors d = []"
    using some_reported [OF _ assms] by (cases "schemaErrors d = []") auto
  finally show ?thesis by (simp only: schemaErrors_Nil)
qed

section \<open>Removing duplicates\<close>

definition issue_key :: "validation_issue \<Rightarrow> string" where
  "issue_key i = code_name (issue_code i) @ '' '' @ issue_path i"

lemma first_space:
  "c \<notin> set x \<Longrightarrow> c \<notin> set y \<Longrightarrow> x @ c # u = y @ c # v \<longleftrightarrow> x = y \<and> u = v"
proof (induction x arbitrary: y)
  case (Cons a x)
  then show ?case by (cases y) auto
qed (auto simp: Cons_eq_append_conv)

lemma issue_key_inj: "issue_key (issue c p) = issue_key (issue c' p') \<longleftrightarrow> c = c' \<and> p = p'"
  using first_space [OF code_name_no_space code_name_no_space, of c p c' p']
  by (auto simp: issue_key_def code_name_inj)

lemma dedupe_fold:
  "dedupe is = map snd (foldl (\<lambda>m i. put m (issue_key i) i) [] is)"
  by (simp add: dedupe_def issue_key_def)

lemma fold_put:
  assumes "distinct (map fst m)" "\<forall>(k, i) \<in> set m. k = issue_key i"
  shows "distinct (map fst (foldl (\<lambda>m i. put m (issue_key i) i) m is)) \<and>
    (\<forall>(k, i) \<in> set (foldl (\<lambda>m i. put m (issue_key i) i) m is). k = issue_key i)"
  using assms
proof (induction "is" arbitrary: m)
  case (Cons i "is")
  have "\<forall>(k, j) \<in> set (put m (issue_key i) i). k = issue_key j"
    using Cons.prems(2) by (induction m "issue_key i" i rule: put.induct) auto
  with Cons.prems(1) show ?case
    using Cons.IH [of "put m (issue_key i) i"] by (simp add: distinct_put)
qed simp

lemma distinct_dedupe: "distinct (map issue_key (dedupe is))"
proof -
  let ?m = "foldl (\<lambda>m i. put m (issue_key i) i) [] is"
  have "distinct (map fst ?m)" "\<forall>(k, i) \<in> set ?m. k = issue_key i"
    using fold_put [of "[]" "is"] by auto
  then have "map (issue_key \<circ> snd) ?m = map fst ?m" by (auto simp: split_def)
  with \<open>distinct (map fst ?m)\<close> have "distinct (map (issue_key \<circ> snd) ?m)" by (simp only:)
  then show ?thesis by (simp add: dedupe_fold)
qed

lemma fold_put_keys:
  "fst ` set (foldl (\<lambda>m i. put m (issue_key i) i) m is) = fst ` set m \<union> issue_key ` set is"
  by (induction "is" arbitrary: m) auto

lemma fold_put_values:
  "snd ` set (foldl (\<lambda>m i. put m (issue_key i) i) m is) \<subseteq> snd ` set m \<union> set is"
proof (induction "is" arbitrary: m)
  case (Cons i "is")
  have "snd ` set (put m (issue_key i) i) \<subseteq> insert i (snd ` set m)"
    by (induction m "issue_key i" i rule: put.induct) auto
  with Cons [of "put m (issue_key i) i"] show ?case by auto
qed simp

lemma set_dedupe:
  assumes "\<forall>i \<in> set is. \<exists>c p. i = issue c p"
  shows "set (dedupe is) = set is"
proof -
  let ?m = "foldl (\<lambda>m i. put m (issue_key i) i) [] is"
  have sub: "snd ` set ?m \<subseteq> set is" using fold_put_values [of "[]" "is"] by simp
  moreover have "i \<in> snd ` set ?m" if i: "i \<in> set is" for i
  proof -
    have "issue_key i \<in> fst ` set ?m" using i fold_put_keys [of "[]" "is"] by simp
    then obtain j where j: "(issue_key i, j) \<in> set ?m" by auto
    moreover have "issue_key i = issue_key j" using j fold_put [of "[]" "is"] by auto
    moreover have "j \<in> set is" using j sub by force
    ultimately have "j = i" using i assms by (metis issue_key_inj)
    with j show ?thesis by force
  qed
  ultimately show ?thesis by (auto simp: dedupe_fold)
qed

lemma dedupe_Nil_iff: "dedupe is = [] \<longleftrightarrow> is = []"
  using fold_put_keys [of "[]" "is"] by (cases "is") (auto simp: dedupe_fold)

section \<open>Conformance\<close>

text \<open>The rules the specification states in prose, of the copy JSON sees.\<close>

definition text_field :: "jsval \<Rightarrow> string \<Rightarrow> string option" where
  "text_field v k = (case jget v k of JStr s \<Rightarrow> Some s | _ \<Rightarrow> None)"

definition formats_ok :: "jsval \<Rightarrow> bool" where
  "formats_ok d \<longleftrightarrow>
     (\<forall>s. text_field d ''record_id'' = Some s \<or> text_field d ''corrects'' = Some s \<longrightarrow>
        matches ULID s \<or> matches UUID7 s) \<and>
     (\<forall>s. text_field (jget d ''timing'') ''event_time'' = Some s \<longrightarrow> parse_timestamp s \<noteq> None) \<and>
     jget (jget d ''timing'') ''received_time'' = JUndef \<and>
     (\<forall>s. text_field (jget d ''run'') ''trace_id'' = Some s \<longrightarrow> matches TRACE_ID s)"

definition prose_ok :: "jsval \<Rightarrow> int option \<Rightarrow> bool" where
  "prose_ok d now \<longleftrightarrow>
     (\<forall>t. event_time_of d = Some t \<longrightarrow>
        (\<forall>c \<in> set (drop 3 (fraction t)). \<not> nonzero_digit c) \<and>
        (\<forall>n. now = Some n \<longrightarrow> epochMs t \<le> n + FUTURE_SKEW_MS)) \<and>
     jget (jget d ''attribution'') ''environment'' \<noteq> JUndef \<and>
     (\<forall>s. text_field (jget d ''attribution'') ''user_id'' = Some s \<longrightarrow> CHR ''@'' \<notin> set s)"

definition conforms :: "jsval \<Rightarrow> int option \<Rightarrow> bool" where
  "conforms d now \<longleftrightarrow> sat schema31 d \<and> formats_ok d \<and> prose_ok d now"

lemma id_issue_Nil:
  "id_issue d k = [] \<longleftrightarrow> (\<forall>s. text_field d k = Some s \<longrightarrow> matches ULID s \<or> matches UUID7 s)"
  by (auto simp: id_issue_def text_field_def is_identifier_def split: jsval.splits)

lemma timing_issues_Nil:
  "timing_issues t = [] \<longleftrightarrow>
     (is_object t \<longrightarrow>
       (\<forall>s. text_field t ''event_time'' = Some s \<longrightarrow> parse_timestamp s \<noteq> None) \<and>
       jget t ''received_time'' = JUndef)"
  by (auto simp: timing_issues_def text_field_def split: jsval.splits)

lemma trace_issues_Nil:
  "trace_issues r = [] \<longleftrightarrow>
     (is_object r \<longrightarrow> (\<forall>s. text_field r ''trace_id'' = Some s \<longrightarrow> matches TRACE_ID s))"
  by (auto simp: trace_issues_def text_field_def split: jsval.splits)

lemma jget_not_object: "\<not> is_object v \<Longrightarrow> jget v k = JUndef"
  by (cases v) (auto simp: js_simps)

lemma sat_root_object: "sat schema31 d \<Longrightarrow> is_object d"
  by (simp add: schema31_def)

lemma formatIssues_Nil: "is_object d \<Longrightarrow> formatIssues d = [] \<longleftrightarrow> formats_ok d"
  unfolding formatIssues_def formats_ok_def
  by (auto simp: id_issue_Nil timing_issues_Nil trace_issues_Nil)
    (auto simp: jget_not_object text_field_def)

lemma proseIssues_Nil: "proseIssues d now = [] \<longleftrightarrow> prose_ok d now"
  unfolding proseIssues_def prose_ok_def text_field_def
  by (auto simp: list_ex_iff has_sub_single not_less split: option.splits jsval.splits)

lemma validate_conforms:
  "validate (Some v) now = [] \<longleftrightarrow> conforms (asJson None v) now"
proof -
  let ?d = "asJson None v"
  show ?thesis
  proof (cases "is_object ?d")
    case True
    have "validate (Some v) now = [] \<longleftrightarrow>
        formatIssues ?d = [] \<and> fst (schemaIssues ?d) = [] \<and> snd (schemaIssues ?d) = [] \<and>
        proseIssues ?d now = []"
      by (auto simp: validate_def inspect_def Let_def dedupe_Nil_iff split: prod.splits)
    with schemaIssues_Nil [of ?d] formatIssues_Nil [OF True] proseIssues_Nil [of ?d now]
    show ?thesis by (auto simp: conforms_def)
  next
    case False
    then have "\<not> sat schema31 ?d" "formatIssues ?d = []"
      using sat_root_object by (auto simp: formatIssues_def)
    with schemaIssues_Nil [of ?d] show ?thesis
      by (auto simp: validate_def inspect_def Let_def dedupe_Nil_iff conforms_def split: prod.splits)
  qed
qed

text \<open>
  C1: \<open>validate\<close> reports no issue exactly for the values whose JSON copy satisfies the AUDR schema
  and the prose rules: ULID or UUIDv7 identifiers, a real RFC 3339 event time with no digits
  below the millisecond and at most five minutes ahead of the clock, no \<open>received_time\<close>, a
  lower-case hex trace id, an environment, and a user id without an at sign.
\<close>

theorem validate_iff_conforms:
  "validate (Some v) now = [] \<longleftrightarrow> conforms (asJson None v) now"
  by (rule validate_conforms)

section \<open>The issues reported\<close>

definition made :: "validation_issue list \<Rightarrow> bool" where
  "made is \<longleftrightarrow> (\<forall>i \<in> set is. \<exists>c p. i = issue c (pointer p))"

lemma made_append: "made (xs @ ys) \<longleftrightarrow> made xs \<and> made ys"
  by (auto simp: made_def)

lemma made_toIssue: "\<exists>c p. toIssue e d = issue c (pointer p)"
  by (auto simp: toIssue_def Let_def split: option.splits)

lemma made_pointer: "made [issue c (pointer q)]"
  by (auto simp: made_def)

lemma made_literals:
  "made [issue c ''/'']" "made [issue c ''/timing/event_time'']" "made [issue c SINK_OWNED]"
  "made [issue c ''/run/trace_id'']" "made [issue c ''/record_id'']" "made [issue c ''/corrects'']"
  "made [issue c ''/attribution/environment'']" "made [issue c ''/attribution/user_id'']"
  using made_pointer [of c "[]"] made_pointer [of c "[''timing'', ''event_time'']"]
    made_pointer [of c "[''timing'', ''received_time'']"] made_pointer [of c "[''run'', ''trace_id'']"]
    made_pointer [of c "[''record_id'']"] made_pointer [of c "[''corrects'']"]
    made_pointer [of c "[''attribution'', ''environment'']"]
    made_pointer [of c "[''attribution'', ''user_id'']"]
  by (simp_all add: pointer_def escape_segment_eq escape_char_def CALLER_KEYED_def SINK_OWNED_def)

lemma made_Nil: "made []"
  by (simp add: made_def)

lemma made_if: "made xs \<Longrightarrow> made ys \<Longrightarrow> made (if b then xs else ys)"
  by simp

lemma made_str: "(\<And>s. made (f s)) \<Longrightarrow> made (case v of JStr s \<Rightarrow> f s | _ \<Rightarrow> [])"
  by (cases v) (simp_all add: made_Nil)

lemma made_option: "made ys \<Longrightarrow> (\<And>x. made (f x)) \<Longrightarrow> made (case t of None \<Rightarrow> ys | Some x \<Rightarrow> f x)"
  by (cases t) simp_all

lemmas made_intros =
  made_literals made_Nil made_if made_str made_option made_append [THEN iffD2, OF conjI]

lemma made_id: "k \<in> {''record_id'', ''corrects''} \<Longrightarrow> made (id_issue d k)"
  unfolding id_issue_def by (rule made_str) (auto intro!: made_intros)

lemma made_formatIssues: "made (formatIssues d)"
  unfolding formatIssues_def timing_issues_def trace_issues_def
  by (intro made_intros made_id) simp_all

lemma made_proseIssues: "made (proseIssues d now)"
  unfolding proseIssues_def by (intro made_intros)

lemma made_schemaIssues: "made (fst (schemaIssues d))" "made (snd (schemaIssues d))"
  by (auto simp: schemaIssues_def Let_def made_def made_toIssue)

lemma made_dedupe: "made is \<Longrightarrow> set (dedupe is) = set is"
  by (intro set_dedupe) (auto simp: made_def)

text \<open>What is found, whatever is reported twice: the structural issues alone if there are any.\<close>

definition found_issues :: "jsval \<Rightarrow> int option \<Rightarrow> validation_issue list" where
  "found_issues v now =
     (let d = asJson None v; broken = formatIssues d @ fst (schemaIssues d)
      in if broken \<noteq> [] then broken else snd (schemaIssues d) @ proseIssues d now)"

lemma validate_found: "validate (Some v) now = dedupe (found_issues v now)"
  by (simp add: validate_def inspect_def found_issues_def Let_def split_def)

lemma made_found: "made (found_issues v now)"
  by (simp add: found_issues_def Let_def made_append made_formatIssues made_proseIssues
      made_schemaIssues)

fun redacted :: "string list \<Rightarrow> bool" where
  "redacted (a # b # ss) = ((a = CALLER_KEYED \<longrightarrow> b = REDACTED) \<and> redacted (b # ss))"
| "redacted _ = True"

lemma escape_labels: "escape_segment s = CALLER_KEYED \<longleftrightarrow> s = CALLER_KEYED"
  using escape_eq_iff [of s CALLER_KEYED]
  by (simp add: CALLER_KEYED_def escape_segment_eq escape_char_def)

lemma redacted_segments: "redacted (pointer_segments r p)"
proof (induction r p rule: pointer_segments.induct)
  case (2 r s ss)
  then show ?case
    by (cases ss) (auto simp: escape_labels CALLER_KEYED_def REDACTED_def
        escape_labels [unfolded CALLER_KEYED_def])
qed simp

lemma redacted_pointer: "redacted (split_on (CHR ''/'') (pointer p))"
proof (cases "p = []")
  case False
  obtain a ss where "pointer_segments False p = a # ss"
    using False by (cases p) auto
  with split_pointer [OF False] redacted_segments [of False p] show ?thesis
    by (simp add: CALLER_KEYED_def)
qed (simp add: pointer_def CALLER_KEYED_def)

text \<open>
  C10: No issue shows what a label is called: in the path of every issue \<open>validate\<close> reports, the
  segment after \<open>labels\<close> is an asterisk, whatever the names and values the record holds.
\<close>

theorem validate_redacts_labels:
  "list_all (\<lambda>i. redacted (split_on (CHR ''/'') (issue_path i))) (validate (Some v) now)"
  using made_found [of v now] made_dedupe [OF made_found, of v now]
  by (force simp: validate_found list_all_iff made_def redacted_pointer)

text \<open>
  \<open>validate\<close> reports every rule it finds broken, the structural ones alone when there are
  any, and reports no code twice at one path.
\<close>

theorem validate_reports_once:
  "set (validate (Some v) now) = set (found_issues v now) \<and>
   distinct (map (\<lambda>i. (issue_code i, issue_path i)) (validate (Some v) now))"
proof -
  have "inj_on issue_key (set (validate (Some v) now))"
    using distinct_dedupe [of "found_issues v now"] by (simp add: validate_found distinct_map)
  moreover have "distinct (validate (Some v) now)"
    using distinct_dedupe [of "found_issues v now"] by (simp add: validate_found distinct_map)
  ultimately have "distinct (map (\<lambda>i. (issue_code i, issue_path i)) (validate (Some v) now))"
    by (auto simp: distinct_map inj_on_def issue_key_def)
  then show ?thesis by (simp add: validate_found made_dedupe made_found)
qed

section \<open>The copy\<close>

lemma asJson_undef: "asJson k v = JUndef \<longleftrightarrow> v = JUndef"
  by (cases v) auto

lemma present_asJson: "present k (asJson n v) \<longleftrightarrow> present k v"
  by (simp add: present_def asJson_undef)

lemma asJson_idem: "asJson k (asJson k v) = asJson k v"
proof (induction k v rule: asJson.induct)
  case (1 key kvs)
  then show ?case
    by (auto simp: filter_map o_def split_def present_asJson intro!: map_cong filter_cong)
next
  case (2 key kvs)
  then show ?case
    by (auto simp: filter_map o_def split_def present_asJson intro!: map_cong filter_cong)
qed auto

text \<open>
  The copy \<open>inspect\<close> checks is a fixed point of the copying: checking it again gives the same
  issues and the same copy, so what the client queues is exactly what was validated.
\<close>

theorem inspect_copy:
  "inspect (Some (snd (inspect (Some v) now))) now = inspect (Some v) now"
  by (simp add: inspect_def Let_def split_def asJson_idem)

section \<open>Records the package builds\<close>



text \<open>
  A record built by \<open>createRecord\<close> without an event time carries the clock's reading as one
  that parses to exactly that instant, so it is neither too precise nor ahead of the clock;
  the version and the identifier are filled in when they are missing.
\<close>

theorem createRecord_stamps:
  assumes "100 \<le> year_of_day (now div 86400000)" "year_of_day (now div 86400000) \<le> 9999"
    and "nullish (jget (field input ''timing'') ''event_time'')"
  shows "\<exists>r. createRecord now fresh input = Some r \<and>
    event_time_of (JObj r) =
      Some \<lparr>epochMs = now, fraction = p3 (nat (now mod 86400000) mod 1000)\<rparr> \<and>
    field r ''spec_version'' = coalesce (field input ''spec_version'') (JStr SPEC_VERSION) \<and>
    field r ''record_id'' = coalesce (field input ''record_id'') (JStr fresh)"
  using assms(3) parse_to_iso [OF assms(1,2)]
  by (simp add: createRecord_def Let_def event_time_of_def js_simps)

theorem createRecord_stamps_witness:
  "\<exists>r. createRecord 1709164800005 ''id'' [] = Some r \<and> field r ''record_id'' = JStr ''id''"
proof -
  have "year_of_day (1709164800005 div 86400000) = 2024" by code_simp
  from createRecord_stamps [of 1709164800005 "[]" "''id''"] this show ?thesis
    by (auto simp: nullish_def coalesce_def js_simps)
qed

end
