(* ===== verification/Sink.thy ===== *)
theory Sink
  imports Conformance
begin

text \<open>
  \<open>adapters/core/typescript/src/sink.ts\<close> and \<open>testing.ts\<close>: what a sink answers, the contract
  every sink promises (locale \<open>sink_contract\<close>), \<open>assertSinkContract\<close>, and \<open>MemorySink\<close>, the
  first of the sinks shown to keep the contract.
\<close>

section \<open>Answers\<close>

datatype batch_result =
    Accepted (rejected: "(string \<times> string option) list") (unconfirmed: "string list")
  | RetryableFailure "string option"
  | PermanentFailure "string option"
  | Closed_result

definition accepted_all :: batch_result where
  "accepted_all = Accepted [] []"

definition failed :: "bool \<Rightarrow> string option \<Rightarrow> batch_result" where
  "failed retryable detail = (if retryable then RetryableFailure detail else PermanentFailure detail)"

text \<open>
  What awaiting \<open>deliver()\<close> yields: a typed result; an object with another \<open>outcome\<close>; an
  accepted answer whose lists cannot be read, so that reading them throws; a value that is
  no object; or a rejection. The contract allows the first only.
\<close>

datatype answer =
    Answered batch_result
  | OtherOutcome
  | Unreadable thrown
  | NotAnObject
  | Threw thrown

text \<open>\<open>record.record_id\<close>, a string in every validated record.\<close>

definition rid :: "jsval \<Rightarrow> string" where
  "rid r = (case jget r ''record_id'' of JStr s \<Rightarrow> s | _ \<Rightarrow> [])"

section \<open>\<open>assertSinkContract\<close>\<close>

datatype breach =
    ThrewIn string string
  | AbsentId
  | BothLists
  | AnsweredAfterClose

fun result_breach :: "jsval list \<Rightarrow> batch_result \<Rightarrow> breach option" where
  "result_breach batch (Accepted rej unk) =
     (if list_ex (\<lambda>i. i \<notin> set (map rid batch)) (map fst rej @ unk) then Some AbsentId
      else if list_ex (\<lambda>i. i \<in> set unk) (map fst rej) then Some BothLists
      else None)"
| "result_breach batch _ = None"

definition assertSinkContract ::
  "('s \<Rightarrow> jsval list \<Rightarrow> answer \<times> 's) \<Rightarrow> ('s \<Rightarrow> 's) \<Rightarrow> 's \<Rightarrow> jsval list \<Rightarrow> breach option" where
  "assertSinkContract deliver close s batch =
     (case deliver s batch of
        (Threw t, _) \<Rightarrow> Some (ThrewIn ''deliver()'' (errorName t))
      | (a, s1) \<Rightarrow>
          (case (case a of Answered r \<Rightarrow> result_breach batch r | _ \<Rightarrow> None) of
             Some b \<Rightarrow> Some b
           | None \<Rightarrow>
               (case deliver (close (close s1)) batch of
                  (Threw t, _) \<Rightarrow> Some (ThrewIn ''deliver() after close()'' (errorName t))
                | (Answered Closed_result, _) \<Rightarrow> None
                | (Answered (Accepted _ _), _) \<Rightarrow> None
                | _ \<Rightarrow> Some AnsweredAfterClose)))"

section \<open>The contract\<close>

text \<open>
  \<open>ok\<close> is the sink's own invariant, and \<open>good\<close> what it asks of the records it is handed. A
  sink answers every batch of good records with a typed result, names
  only records of the batch, never names one twice with two fates, and once closed stays
  closed and answers \<open>closed\<close>.
\<close>

locale sink_contract =
  fixes deliver :: "'s \<Rightarrow> jsval list \<Rightarrow> answer \<times> 's"
    and close :: "'s \<Rightarrow> 's"
    and ok :: "'s \<Rightarrow> bool"
    and shut :: "'s \<Rightarrow> bool"
    and good :: "jsval \<Rightarrow> bool"
  assumes deliver_ok: "ok s \<Longrightarrow> ok (snd (deliver s b))"
    and close_ok: "ok s \<Longrightarrow> ok (close s)"
    and answers: "ok s \<Longrightarrow> list_all good b \<Longrightarrow> \<exists>r. fst (deliver s b) = Answered r"
    and names_rejected:
      "ok s \<Longrightarrow> fst (deliver s b) = Answered (Accepted rej unk) \<Longrightarrow> fst ` set rej \<subseteq> rid ` set b"
    and names_unknown:
      "ok s \<Longrightarrow> fst (deliver s b) = Answered (Accepted rej unk) \<Longrightarrow> set unk \<subseteq> rid ` set b"
    and one_fate:
      "ok s \<Longrightarrow> distinct (map rid b) \<Longrightarrow> fst (deliver s b) = Answered (Accepted rej unk) \<Longrightarrow>
       fst ` set rej \<inter> set unk = {}"
    and close_shut: "ok s \<Longrightarrow> shut (close s)"
    and shut_answer: "ok s \<Longrightarrow> shut s \<Longrightarrow> fst (deliver s b) = Answered Closed_result"
begin

lemma after_close: "ok s \<Longrightarrow> fst (deliver (close (close s)) b) = Answered Closed_result"
  by (intro shut_answer close_shut close_ok)

text \<open>A sink that keeps the contract passes the check the package ships for sinks.\<close>

lemma passes_check:
  assumes "ok s" "list_all good b" "distinct (map rid b)"
  shows "assertSinkContract deliver close s b = None"
proof -
  from answers [OF assms(1,2)] obtain r s1 where d: "deliver s b = (Answered r, s1)"
    by (metis prod.collapse)
  then have "ok s1" using deliver_ok [OF assms(1), of b] by simp
  have "result_breach b r = None"
  proof (cases r)
    case (Accepted rej unk)
    with d have a: "fst (deliver s b) = Answered (Accepted rej unk)" by simp
    show ?thesis
      using names_rejected [OF assms(1) a] names_unknown [OF assms(1) a] one_fate [OF assms(1,3) a]
      unfolding Accepted by (auto simp: list_ex_iff)
  qed auto
  moreover obtain s2 where "deliver (close (close s1)) b = (Answered Closed_result, s2)"
    using after_close [OF \<open>ok s1\<close>, of b] by (metis prod.collapse)
  ultimately show ?thesis using d by (simp add: assertSinkContract_def)
qed

text \<open>Every record of an accepted batch has exactly one of three fates.\<close>

lemma partition_ids:
  assumes "ok s" "distinct (map rid b)" "fst (deliver s b) = Answered (Accepted rej unk)"
  shows "\<exists>confirmed. rid ` set b = confirmed \<union> fst ` set rej \<union> set unk \<and>
    confirmed \<inter> fst ` set rej = {} \<and> confirmed \<inter> set unk = {} \<and> fst ` set rej \<inter> set unk = {}"
  using names_rejected [OF assms(1,3)] names_unknown [OF assms(1,3)] one_fate [OF assms]
  by (intro exI [of _ "rid ` set b - (fst ` set rej \<union> set unk)"]) auto

end

section \<open>\<open>MemorySink\<close>\<close>

datatype fail_mode = FailRetryable | FailPermanent | FailClosed

record memory_sink =
  records :: "jsval list"
  acceptedBatches :: nat
  closed :: bool
  reject :: "(jsval \<Rightarrow> string option) option"
  failWith :: "fail_mode option"

text \<open>The loop over the batch: what is kept, and who is rejected with which reason.\<close>

fun sort_out :: "(jsval \<Rightarrow> string option) \<Rightarrow> jsval list \<Rightarrow>
    jsval list \<times> (string \<times> string option) list" where
  "sort_out why [] = ([], [])"
| "sort_out why (r # rs) =
     (let (kept, rej) = sort_out why rs
      in case why r of None \<Rightarrow> (r # kept, rej) | Some reason \<Rightarrow> (kept, (rid r, Some reason) # rej))"

definition memory_deliver :: "memory_sink \<Rightarrow> jsval list \<Rightarrow> answer \<times> memory_sink" where
  "memory_deliver s batch =
     (if closed s \<or> failWith s = Some FailClosed then (Answered Closed_result, s)
      else case failWith s of
        Some m \<Rightarrow> (Answered (failed (m = FailRetryable) None), s)
      | None \<Rightarrow>
          (let (kept, rej) = sort_out (case reject s of None \<Rightarrow> (\<lambda>_. None) | Some f \<Rightarrow> f) batch
           in (Answered (Accepted rej []),
               s\<lparr>records := records s @ kept, acceptedBatches := acceptedBatches s + 1\<rparr>)))"

definition memory_close :: "memory_sink \<Rightarrow> memory_sink" where
  "memory_close s = s\<lparr>closed := True\<rparr>"

lemma sort_out_rejected:
  "snd (sort_out why b) = map (\<lambda>r. (rid r, why r)) (filter (\<lambda>r. why r \<noteq> None) b)"
  by (induction b) (auto simp: Let_def split: prod.splits option.splits)

lemma sort_out_ids: "fst ` set (snd (sort_out why b)) \<subseteq> rid ` set b"
  by (auto simp: sort_out_rejected)

lemma sort_out_kept: "fst (sort_out why b) = filter (\<lambda>r. why r = None) b"
  by (induction b) (auto simp: Let_def split: prod.splits option.splits)

lemma memory_deliver_cases:
  "\<exists>r s'. memory_deliver s b = (Answered r, s') \<and>
     (r = Closed_result \<or> (\<exists>d. r = RetryableFailure d) \<or> (\<exists>d. r = PermanentFailure d) \<or>
      (\<exists>why. r = Accepted (snd (sort_out why b)) []))"
proof -
  define why where "why = (case reject s of None \<Rightarrow> (\<lambda>_. None) | Some f \<Rightarrow> f)"
  obtain kept rej where "sort_out why b = (kept, rej)" by (cases "sort_out why b")
  then show ?thesis
    unfolding memory_deliver_def why_def [symmetric]
    by (auto simp: failed_def split: option.splits intro!: exI [of _ why])
qed

interpretation memory: sink_contract memory_deliver memory_close "\<lambda>s. True" closed "\<lambda>r. True"
proof unfold_locales
  fix s b rej unk
  assume "fst (memory_deliver s b) = Answered (Accepted rej unk)"
  then obtain why where "rej = snd (sort_out why b)" and unk: "unk = []"
    using memory_deliver_cases [of s b] by auto
  then show "fst ` set rej \<subseteq> rid ` set b" using sort_out_ids [of why b] by simp
  from unk show "set unk \<subseteq> rid ` set b" by simp
  from unk show "fst ` set rej \<inter> set unk = {}" by simp
qed (auto simp: memory_deliver_def memory_close_def split: option.splits prod.splits)

end
