(* ===== verification/Codec.thy ===== *)
theory Codec
  imports Sink
begin

text \<open>
  \<open>adapters/core/typescript/src/codec.ts\<close>: \<open>parseRecord\<close>, \<open>decodeRecord\<close> and
  \<open>encodeRecord\<close>. \<open>JSON.parse\<close> and \<open>JSON.stringify\<close> are arguments; \<open>structuredClone\<close> is
  written out for the values of the model: it copies data, turns a class instance into a
  plain object, and throws on a function or a symbol.
\<close>

section \<open>Reading\<close>

text \<open>All or nothing: the results of \<open>f\<close> on every element, or the first failure.\<close>

fun traverse :: "('a \<Rightarrow> 'e + 'b) \<Rightarrow> 'a list \<Rightarrow> 'e + 'b list" where
  "traverse f [] = Inr []"
| "traverse f (x # xs) =
     (case f x of Inl e \<Rightarrow> Inl e
      | Inr y \<Rightarrow> (case traverse f xs of Inl e \<Rightarrow> Inl e | Inr ys \<Rightarrow> Inr (y # ys)))"

lemma traverse_cong [fundef_cong]:
  "xs = ys \<Longrightarrow> (\<And>x. x \<in> set ys \<Longrightarrow> f x = g x) \<Longrightarrow> traverse f xs = traverse g ys"
  by (induction ys arbitrary: xs) (auto split: sum.splits)

text \<open>\<open>named f\<close> applies \<open>f\<close> to the value of an entry and keeps the name.\<close>

definition named :: "(string \<Rightarrow> jsval \<Rightarrow> 'e + jsval) \<Rightarrow> string \<times> jsval \<Rightarrow> 'e + (string \<times> jsval)" where
  "named f p = (case f (fst p) (snd p) of Inl e \<Rightarrow> Inl e | Inr v \<Rightarrow> Inr (fst p, v))"

lemma named_cong [fundef_cong]:
  "p = q \<Longrightarrow> f (fst q) (snd q) = g (fst q) (snd q) \<Longrightarrow> named f p = named g q"
  by (simp add: named_def)

lemma named_Inr: "named f p = Inr q \<longleftrightarrow> fst q = fst p \<and> f (fst p) (snd p) = Inr (snd q)"
  by (cases q) (auto simp: named_def split: sum.splits)

definition uncloneable :: "string list" where
  "uncloneable = [''function'', ''symbol'']"

fun structuredClone :: "jsval \<Rightarrow> unit + jsval" where
  "structuredClone (JObj kvs) = map_sum id JObj (traverse (named (\<lambda>_ v. structuredClone v)) kvs)"
| "structuredClone (JInst kvs) = map_sum id JObj (traverse (named (\<lambda>_ v. structuredClone v)) kvs)"
| "structuredClone (JArr xs) = map_sum id JArr (traverse structuredClone xs)"
| "structuredClone (JOpaque t) = (if t \<in> set uncloneable then Inl () else Inr (JOpaque t))"
| "structuredClone v = Inr v"

text \<open>\<open>cloneInput\<close>: a value that cannot be cloned fails with the issues it has, or as such.\<close>

definition cloneInput :: "jsval \<Rightarrow> int \<Rightarrow> validation_issue list + jsval" where
  "cloneInput input now =
     (case structuredClone input of
        Inr d \<Rightarrow> Inr d
      | Inl _ \<Rightarrow>
          (let found = validate (Some input) (Some now)
           in Inl (if found \<noteq> [] then found else [issue INVALID_TYPE ''/''])))"

definition SUPPORTED_SPEC_VERSION :: rx where
  "SUPPORTED_SPEC_VERSION = pattern4"

definition parseRecord :: "jsval \<Rightarrow> int \<Rightarrow> validation_issue list + jsval" where
  "parseRecord input now =
     (case cloneInput input now of
        Inl found \<Rightarrow> Inl found
      | Inr d \<Rightarrow>
          let declared = jget d ''spec_version'';
              checked = (let found = validate (Some d) (Some now)
                         in if found \<noteq> [] then Inl found else Inr d)
          in if is_object d \<and> declared = JUndef then Inl [issue REQUIRED ''/spec_version'']
             else (case declared of
                     JStr s \<Rightarrow>
                       if is_object d \<and> \<not> matches SUPPORTED_SPEC_VERSION s
                       then Inl [issue UNSUPPORTED_VERSION ''/spec_version''] else checked
                   | _ \<Rightarrow> checked))"

definition decodeRecord :: "(string \<Rightarrow> jsval option) \<Rightarrow> string \<Rightarrow> int \<Rightarrow> validation_issue list + jsval" where
  "decodeRecord parse json now =
     (case parse json of None \<Rightarrow> Inl [issue NOT_JSON ''/''] | Some d \<Rightarrow> parseRecord d now)"

lemma validate_Nil: "validate (Some v) now = [] \<longleftrightarrow> conforms (asJson None v) now"
  by (rule validate_conforms)

lemma conforms_version:
  assumes "conforms d now"
  shows "is_object d \<and> (\<exists>s. jget d ''spec_version'' = JStr s \<and> matches pattern4 s)"
proof -
  have s: "sat schema31 d" using assms by (simp add: conforms_def)
  have o: "is_object d" by (rule sat_root_object [OF s])
  have "has d ''spec_version''" "sat (Obj [Type [''string''], Pattern pattern4]) (jget d ''spec_version'')"
    using s o by (simp_all add: schema31_def root_required_def)
  with o show ?thesis by (cases "jget d ''spec_version''") auto
qed

lemma field_asJson:
  assumes "distinct (map fst kvs)" "k \<noteq> Some CALLER_KEYED"
  shows "field (map (\<lambda>(n, f). (n, asJson (Some n) f)) (filter (\<lambda>(n, f). present k f) kvs)) n =
    asJson (Some n) (field kvs n)"
proof -
  have "n \<notin> fst ` set kvs \<Longrightarrow> field (map (\<lambda>(n, f). (n, asJson (Some n) f)) (filter (\<lambda>(n, f). present k f) kvs)) n = JUndef"
    for kvs
    by (induction kvs) auto
  with assms show ?thesis by (induction kvs) (auto simp: present_def field_notin)
qed

lemma jget_asJson:
  assumes "is_object v" "wf_val v" "k \<noteq> Some CALLER_KEYED"
  shows "jget (asJson k v) n = asJson (Some n) (jget v n)"
  using assms by (cases v) (auto simp: js_simps field_asJson)

lemma asJson_JStr: "asJson k v = JStr s \<longleftrightarrow> v = JStr s"
  by (cases v) auto

lemma is_object_asJson: "is_object (asJson k v) \<longleftrightarrow> is_object v"
  by (cases v) auto

lemma traverse_member: "traverse f xs = Inr ys \<Longrightarrow> y \<in> set ys \<Longrightarrow> \<exists>x \<in> set xs. f x = Inr y"
  by (induction xs arbitrary: ys) (auto split: sum.splits)

lemma traverse_named_keys: "traverse (named f) kvs = Inr kvs' \<Longrightarrow> map fst kvs' = map fst kvs"
  by (induction kvs arbitrary: kvs') (auto simp: named_def split: sum.splits)

lemma map_sum_Inr: "map_sum id f x = Inr z \<longleftrightarrow> (\<exists>y. x = Inr y \<and> z = f y)"
  by (cases x) auto

text \<open>A clone is data with the names of its source.\<close>

lemma structuredClone_wf: "wf_val v \<Longrightarrow> structuredClone v = Inr d \<Longrightarrow> wf_val d"
proof (induction v arbitrary: d rule: structuredClone.induct)
  case (1 kvs)
  then obtain kvs' where d: "d = JObj kvs'" and t: "traverse (named (\<lambda>_ v. structuredClone v)) kvs = Inr kvs'"
    by (auto simp: map_sum_Inr)
  have "wf_val v'" if "(n, v') \<in> set kvs'" for n v'
  proof -
    from traverse_member [OF t that] obtain p
      where "p \<in> set kvs" "named (\<lambda>_ v. structuredClone v) p = Inr (n, v')" by blast
    with "1.IH" [of p] "1.prems"(1) show ?thesis
      by (cases p) (auto simp: named_def split: sum.splits)
  qed
  with d traverse_named_keys [OF t] "1.prems"(1) show ?case by auto
next
  case (2 kvs)
  then obtain kvs' where d: "d = JObj kvs'" and t: "traverse (named (\<lambda>_ v. structuredClone v)) kvs = Inr kvs'"
    by (auto simp: map_sum_Inr)
  have "wf_val v'" if "(n, v') \<in> set kvs'" for n v'
  proof -
    from traverse_member [OF t that] obtain p
      where "p \<in> set kvs" "named (\<lambda>_ v. structuredClone v) p = Inr (n, v')" by blast
    with "2.IH" [of p] "2.prems"(1) show ?thesis
      by (cases p) (auto simp: named_def split: sum.splits)
  qed
  with d traverse_named_keys [OF t] "2.prems"(1) show ?case by auto
next
  case (3 xs)
  then obtain ys where d: "d = JArr ys" and t: "traverse structuredClone xs = Inr ys"
    by (auto simp: map_sum_Inr)
  have "wf_val y" if "y \<in> set ys" for y
    using traverse_member [OF t that] "3.IH" "3.prems"(1) by auto
  with d show ?case by simp
qed (auto split: if_splits)

lemma conforms_declared:
  assumes "wf_val d" "conforms (asJson None d) now"
  shows "is_object d \<and> (\<exists>s. jget d ''spec_version'' = JStr s \<and> matches pattern4 s)"
  using conforms_version [OF assms(2)] assms(1)
  by (auto simp: is_object_asJson jget_asJson asJson_JStr)

text \<open>
  C16: \<open>parseRecord\<close> returns a record exactly when the value can be cloned and the clone
  conforms; what it returns is the clone, and when it fails it fails with at least one issue.
\<close>

theorem parseRecord_iff:
  assumes "wf_val input"
  shows "(parseRecord input now = Inr d \<longleftrightarrow>
      structuredClone input = Inr d \<and> conforms (asJson None d) (Some now)) \<and>
    parseRecord input now \<noteq> Inl []"
proof (cases "structuredClone input")
  case (Inl u)
  then show ?thesis by (auto simp: parseRecord_def cloneInput_def Let_def)
next
  case (Inr x)
  have wf: "wf_val x" by (rule structuredClone_wf [OF assms Inr])
  show ?thesis
  proof (cases "conforms (asJson None x) (Some now)")
    case True
    with conforms_declared [OF wf True] validate_Nil [of x "Some now"] Inr show ?thesis
      by (auto simp: parseRecord_def cloneInput_def SUPPORTED_SPEC_VERSION_def Let_def)
  next
    case False
    with validate_Nil [of x "Some now"] Inr show ?thesis
      by (auto simp: parseRecord_def cloneInput_def Let_def split: jsval.splits)
  qed
qed

definition sample_record :: jsval where
  "sample_record = JObj
    [(''spec_version'', JStr ''1.1.0''), (''record_id'', JStr ''01890a5d-ac96-774b-bcce-b302099a8057''),
     (''emitter'', JObj [(''component'', JStr ''harness''), (''name'', JStr ''n''), (''version'', JStr ''0'')]),
     (''timing'', JObj [(''event_time'', JStr ''1970-01-01T00:00:00.000Z'')]),
     (''resource'', JObj [(''provider'', JStr ''p''), (''type'', JStr ''model''), (''name'', JStr ''m''),
        (''operation'', JStr ''generation''), (''modality'', JStr ''text'')]),
     (''usage'', JObj [(''llm'', JObj [(''requests'', JNum (Fin 1))])]),
     (''run'', JObj [(''run_id'', JStr ''12345678''), (''span_id'', JStr ''s'')]),
     (''attribution'', JObj [(''environment'', JStr ''test'')])]"

lemma sample_record_valid: "validate (Some sample_record) (Some 0) = []"
  by code_simp

theorem parseRecord_iff_witness: "parseRecord sample_record 0 = Inr sample_record"
proof -
  have wf: "wf_val sample_record" by (simp add: sample_record_def)
  have "structuredClone sample_record = Inr sample_record"
    by (simp add: sample_record_def named_def)
  moreover have "conforms (asJson None sample_record) (Some 0)"
    using sample_record_valid validate_Nil by blast
  ultimately show ?thesis using parseRecord_iff [OF wf] by blast
qed

section \<open>Writing\<close>

definition entry_order :: "fields \<Rightarrow> fields" where
  "entry_order kvs = sort_key fst (filter (\<lambda>p. snd p \<noteq> JUndef) kvs)"

lemma entry_order_cong [fundef_cong]: "kvs = kvs' \<Longrightarrow> entry_order kvs = entry_order kvs'"
  by simp

lemma set_entry_order: "p \<in> set (entry_order kvs) \<Longrightarrow> p \<in> set kvs"
  by (simp add: entry_order_def)

text \<open>
  \<open>sortKeys\<close>: entries are compared by code units, and the first entry, in that order, that
  holds no JSON throws; \<open>Object.fromEntries\<close> then lists array indices first.
\<close>

function sortKeys :: "string list \<Rightarrow> jsval \<Rightarrow> validation_issue list + jsval" where
  "sortKeys path (JNum n) =
     (if \<not> is_finite n then Inl [issue INVALID_TYPE (pointer path)] else Inr (JNum n))"
| "sortKeys path (JObj kvs) =
     map_sum id (\<lambda>kvs. JObj (property_order kvs))
       (traverse (named (\<lambda>k v. sortKeys (path @ [k]) v)) (entry_order kvs))"
| "sortKeys path (JInst kvs) = Inl [issue INVALID_TYPE (pointer path)]"
| "sortKeys path (JDate t) = Inl [issue INVALID_TYPE (pointer path)]"
| "sortKeys path (JArr xs) = Inl [issue INVALID_TYPE (pointer path)]"
| "sortKeys path JUndef = Inr JUndef"
| "sortKeys path JNull = Inr JNull"
| "sortKeys path (JBool b) = Inr (JBool b)"
| "sortKeys path (JStr s) = Inr (JStr s)"
| "sortKeys path (JOpaque t) = Inr (JOpaque t)"
  by pat_completeness auto
termination
  by (relation "measure (\<lambda>(path, v). size v)") (auto dest!: set_entry_order intro: size_entry_snd)

text \<open>\<open>stringify\<close> is \<open>JSON.stringify\<close> at the indentation asked for.\<close>

definition encodeRecord :: "(jsval \<Rightarrow> string) \<Rightarrow> jsval \<Rightarrow> validation_issue list + string" where
  "encodeRecord stringify record = map_sum id stringify (sortKeys [] record)"

text \<open>The same record with its properties in another order, at every level.\<close>

inductive reordered :: "jsval \<Rightarrow> jsval \<Rightarrow> bool" where
  same: "reordered v v"
| object: "list_all2 (\<lambda>p q. fst p = fst q \<and> reordered (snd p) (snd q)) kvs kvs' \<Longrightarrow>
    mset kvs' = mset kvs'' \<Longrightarrow> distinct (map fst kvs'') \<Longrightarrow> reordered (JObj kvs) (JObj kvs'')"

lemma entry_order_mset:
  assumes "mset kvs = mset kvs'" "distinct (map fst kvs')"
  shows "entry_order kvs = entry_order kvs'"
proof -
  have "distinct (map fst (filter (\<lambda>p. snd p \<noteq> JUndef) kvs'))"
    using assms(2) by (simp add: distinct_map_filter)
  then have inj: "inj_on fst (set (filter (\<lambda>p. snd p \<noteq> JUndef) kvs'))"
    by (simp add: distinct_map)
  have m: "mset (filter (\<lambda>p. snd p \<noteq> JUndef) kvs) = mset (filter (\<lambda>p. snd p \<noteq> JUndef) kvs')"
    using assms(1) by simp
  have "entry_order kvs' = sort_key fst (filter (\<lambda>p. snd p \<noteq> JUndef) kvs)"
    unfolding entry_order_def
  proof (rule sort_key_inj_key_eq)
    show "mset (filter (\<lambda>p. snd p \<noteq> JUndef) kvs') = mset (sort_key fst (filter (\<lambda>p. snd p \<noteq> JUndef) kvs))"
      using m by simp
    show "inj_on fst (set (filter (\<lambda>p. snd p \<noteq> JUndef) kvs'))" by (rule inj)
    show "sorted (map fst (sort_key fst (filter (\<lambda>p. snd p \<noteq> JUndef) kvs)))" by simp
  qed
  then show ?thesis by (simp add: entry_order_def)
qed

lemma reordered_undef: "reordered v w \<Longrightarrow> v = JUndef \<longleftrightarrow> w = JUndef"
  by (induction rule: reordered.induct) auto

lemma insort_key_rel:
  assumes "list_all2 R xs ys" "\<And>x y. R x y \<Longrightarrow> fst x = fst y" "R p q"
  shows "list_all2 R (insort_key fst p xs) (insort_key fst q ys)"
  using assms by (induction rule: list_all2_induct) auto

lemma sort_key_rel:
  assumes "list_all2 R xs ys" "\<And>x y. R x y \<Longrightarrow> fst x = fst y"
  shows "list_all2 R (sort_key fst xs) (sort_key fst ys)"
  using assms(1)
  by (induction rule: list_all2_induct) (simp_all add: insort_key_rel [OF _ assms(2)])

lemma entry_order_rel:
  assumes "list_all2 (\<lambda>p q. fst p = fst q \<and> R (snd p) (snd q)) xs ys"
    and "\<And>v w. R v w \<Longrightarrow> v = JUndef \<longleftrightarrow> w = JUndef"
  shows "list_all2 (\<lambda>p q. fst p = fst q \<and> R (snd p) (snd q)) (entry_order xs) (entry_order ys)"
proof -
  have "list_all2 (\<lambda>p q. fst p = fst q \<and> R (snd p) (snd q))
      (filter (\<lambda>p. snd p \<noteq> JUndef) xs) (filter (\<lambda>p. snd p \<noteq> JUndef) ys)"
    using assms(1) by (induction rule: list_all2_induct) (auto simp: assms(2))
  then show ?thesis unfolding entry_order_def by (intro sort_key_rel) auto
qed

lemma traverse_rel:
  "list_all2 (\<lambda>x y. f x = f y) xs ys \<Longrightarrow> traverse f xs = traverse f ys"
  by (induction rule: list_all2_induct) (auto split: sum.splits)



section \<open>What is written\<close>

lemma traverse_named_field:
  assumes "traverse (named f) kvs = Inr kvs'"
  shows "field kvs k \<noteq> JUndef \<Longrightarrow> f k (field kvs k) = Inr (field kvs' k)"
    "k \<notin> fst ` set kvs \<Longrightarrow> field kvs' k = JUndef"
  using assms by (induction kvs arbitrary: kvs') (auto simp: named_def split: sum.splits if_splits)

lemma entry_order_sorted: "sorted (map fst (entry_order kvs))"
  by (simp add: entry_order_def)

lemma distinct_entry_order:
  assumes "distinct (map fst kvs)"
  shows "distinct (map fst (entry_order kvs))"
proof -
  let ?xs = "filter (\<lambda>p. snd p \<noteq> JUndef) kvs"
  have "mset (map fst (sort_key fst ?xs)) = mset (map fst ?xs)" by simp
  then have "distinct (map fst (sort_key fst ?xs)) \<longleftrightarrow> distinct (map fst ?xs)"
    by (rule mset_eq_imp_distinct_iff)
  with assms show ?thesis by (simp add: entry_order_def distinct_map_filter)
qed

text \<open>
  Every level of a value has its names in strictly ascending order, array indices by value
  before all others.
\<close>

fun sorted_names :: "jsval \<Rightarrow> bool" where
  "sorted_names (JObj kvs) = (sorted_wrt name_before (map fst kvs) \<and> (\<forall>(k, v) \<in> set kvs. sorted_names v))"
| "sorted_names _ = True"

lemma sortKeys_sorted: "wf_val v \<Longrightarrow> sortKeys path v = Inr w \<Longrightarrow> sorted_names w"
proof (induction path v arbitrary: w rule: sortKeys.induct)
  case (2 path kvs)
  let ?f = "\<lambda>k v. sortKeys (path @ [k]) v"
  obtain kvs' where w: "w = JObj (property_order kvs')" and t: "traverse (named ?f) (entry_order kvs) = Inr kvs'"
    using "2.prems"(2) by (auto simp: map_sum_Inr)
  have "distinct (map fst (entry_order kvs))"
    using "2.prems"(1) by (intro distinct_entry_order) simp
  then have "sorted_wrt (<) (map fst kvs')"
    using entry_order_sorted [of kvs] traverse_named_keys [OF t] by (simp add: strict_sorted_iff)
  then have "sorted_wrt name_before (map fst (property_order kvs'))" by (rule property_order_sorted)
  moreover have "sorted_names v'" if m: "(k, v') \<in> set kvs'" for k v'
  proof -
    from traverse_member [OF t m] obtain v where "(k, v) \<in> set (entry_order kvs)" "?f k v = Inr v'"
      by (auto simp: named_Inr)
    moreover from this have "wf_val v" using "2.prems"(1) set_entry_order by fastforce
    ultimately show ?thesis using "2.IH" [of "(k, v)"] by simp
  qed
  ultimately show ?case using w by auto
qed (auto split: if_splits)

text \<open>
  What \<open>encodeRecord\<close> hands to \<open>JSON.stringify\<close> has the names of every object in ascending
  order, except that names which are array indices come first, by value: labels \<open>10\<close> and \<open>9\<close>
  are written \<open>9\<close>, \<open>10\<close>, although \<open>10\<close> is the smaller string.
\<close>

theorem encode_sorted:
  assumes "wf_val v" "sortKeys [] v = Inr w"
  shows "sorted_names w"
  by (rule sortKeys_sorted [OF assms])

theorem encode_sorted_witness:
  "sortKeys [] (JObj [(''b'', JNull), (''a'', JUndef), (''10'', JNull), (''9'', JBool True)]) =
     Inr (JObj [(''9'', JBool True), (''10'', JNull), (''b'', JNull)]) \<and>
   sorted_names (JObj [(''9'', JBool True), (''10'', JNull), (''b'', JNull)])"
proof -
  have "sortKeys [] (JObj [(''b'', JNull), (''a'', JUndef), (''10'', JNull), (''9'', JBool True)]) =
     Inr (JObj [(''9'', JBool True), (''10'', JNull), (''b'', JNull)])" by code_simp
  with encode_sorted [OF _ this] show ?thesis by simp
qed

end
