(* ===== verification/LagoEvent.thy ===== *)
theory LagoEvent
  imports Codec
begin

text \<open>
  \<open>sinks/lago/typescript/src/event.ts\<close>, \<open>flatten.ts\<close> and \<open>preflight.ts\<close>: from a record to
  the event Lago is sent, or to the reason it is rejected. \<open>JSON.stringify\<close> is the argument
  \<open>stringify\<close> and \<open>Date.parse\<close> the argument \<open>date_parse\<close>, \<open>None\<close> for \<open>NaN\<close>. The message of an
  \<open>InvalidEventError\<close> is the left value of a sum.
\<close>

section \<open>Flattening\<close>

definition SEPARATOR :: string where
  "SEPARATOR = ''__''"

definition lago_pointer :: "string list \<Rightarrow> string" where
  "lago_pointer segments =
     concat (map (\<lambda>s. ''/'' @ replace_all ''/'' ''~1'' (replace_all ''~'' ''~0'' s)) segments)"

definition notEncodable :: "string list \<Rightarrow> string" where
  "notEncodable path = ''unencodable_field:'' @ lago_pointer path"

text \<open>
  \<open>o[k] = v\<close> on an object literal: \<open>__proto__\<close> names the prototype, so that the assignment adds
  no property.
\<close>

definition assign :: "(string \<times> 'v) list \<Rightarrow> string \<Rightarrow> 'v \<Rightarrow> (string \<times> 'v) list" where
  "assign kvs k v = (if k = ''__proto__'' then kvs else put kvs k v)"

function canonical :: "string list \<Rightarrow> jsval \<Rightarrow> string + jsval" where
  "canonical path JNull = Inr JNull"
| "canonical path (JStr s) = Inr (JStr s)"
| "canonical path (JBool b) = Inr (JBool b)"
| "canonical path (JNum n) = (if \<not> is_finite n then Inl (notEncodable path) else Inr (JNum n))"
| "canonical path (JArr xs) = map_sum id JArr (traverse (canonical path) xs)"
| "canonical path (JObj kvs) =
     map_sum id (\<lambda>kvs. JObj (property_order (filter (\<lambda>p. fst p \<noteq> ''__proto__'') kvs)))
       (traverse (named (\<lambda>k v. canonical path v)) (entry_order kvs))"
| "canonical path JUndef = Inl (notEncodable path)"
| "canonical path (JInst kvs) = Inl (notEncodable path)"
| "canonical path (JDate t) = Inl (notEncodable path)"
| "canonical path (JOpaque t) = Inl (notEncodable path)"
  by pat_completeness auto
termination
  by (relation "measure (\<lambda>(path, v). size v)")
    (auto dest!: set_entry_order intro: size_entry_snd simp: size_list_estimation' less_Suc_eq_le)

text \<open>
  \<open>flattenInto\<close>: the properties it assigns, in order, up to the first field it cannot encode.
\<close>

function leaves :: "(jsval \<Rightarrow> string) \<Rightarrow> string list \<Rightarrow> fields \<Rightarrow> string + fields" where
  "leaves stringify path [] = Inr []"
| "leaves stringify path ((k, item) # kvs) =
     (let p = path @ [k];
          first = (case item of
              JUndef \<Rightarrow> Inr []
            | JArr xs \<Rightarrow> map_sum id (\<lambda>c. [(join SEPARATOR (p @ [''json'']), JStr (stringify c))]) (canonical p item)
            | JObj kvs' \<Rightarrow> leaves stringify p kvs'
            | JStr s \<Rightarrow> Inr [(join SEPARATOR p, item)]
            | JNum n \<Rightarrow> if is_finite n then Inr [(join SEPARATOR p, item)] else Inl (notEncodable p)
            | _ \<Rightarrow> Inl (notEncodable p))
      in case first of Inl e \<Rightarrow> Inl e
         | Inr xs \<Rightarrow> map_sum id (\<lambda>ys. xs @ ys) (leaves stringify path kvs))"
  by pat_completeness auto
termination
  by (relation "measure (\<lambda>(_, path, kvs). size_list (size_prod (\<lambda>_. 0) size) kvs)") auto

definition flatten :: "(jsval \<Rightarrow> string) \<Rightarrow> jsval \<Rightarrow> string + fields" where
  "flatten stringify nested =
     (case nested of
        JObj kvs \<Rightarrow>
          map_sum id (\<lambda>xs. property_order (foldl (\<lambda>out (k, v). assign out k v) [] xs))
            (leaves stringify [] kvs)
      | _ \<Rightarrow> Inl ''unencodable_record'')"

section \<open>Events\<close>

record lago_event =
  transaction_id :: string
  external_subscription_id :: string
  metric_code :: string
  event_timestamp :: string
  event_properties :: fields

definition isPresent :: "jsval \<Rightarrow> bool" where
  "isPresent v = (case v of JStr s \<Rightarrow> trim s \<noteq> [] | _ \<Rightarrow> False)"

definition isMetricCode :: "jsval \<Rightarrow> bool" where
  "isMetricCode v = (case v of JStr s \<Rightarrow> s \<noteq> [] \<and> s = trim s | _ \<Rightarrow> False)"

fun text_of :: "jsval \<Rightarrow> string" where
  "text_of (JStr s) = s"
| "text_of _ = []"

definition formatTimestamp :: "(string \<Rightarrow> int option) \<Rightarrow> jsval \<Rightarrow> string + string" where
  "formatTimestamp date_parse v =
     (case (case v of JStr s \<Rightarrow> date_parse s | _ \<Rightarrow> None) of
        None \<Rightarrow> Inl ''invalid_timestamp''
      | Some ms \<Rightarrow>
          if ms < 0 then Inl ''invalid_timestamp''
          else Inr (nat_str (nat (ms div 1000)) @ ''.'' @
                 pad_start 3 (CHR ''0'') (nat_str (nat (ms mod 1000)))))"

definition encodable :: "string \<times> jsval \<Rightarrow> bool" where
  "encodable p \<longleftrightarrow> fst p \<noteq> [] \<and> (case snd p of JStr s \<Rightarrow> True | JNum n \<Rightarrow> is_finite n | _ \<Rightarrow> False)"

definition validateProperties :: "jsval \<Rightarrow> string option" where
  "validateProperties v =
     (if \<not> is_object v then Some ''unencodable_field:/properties''
      else case find (\<lambda>p. \<not> encodable p) (entries v) of
        None \<Rightarrow> None
      | Some p \<Rightarrow> Some (''unencodable_field:'' @ lago_pointer [''properties'', fst p]))"

definition createEvent :: "(string \<Rightarrow> int option) \<Rightarrow> jsval \<Rightarrow> jsval \<Rightarrow> jsval \<Rightarrow> jsval \<Rightarrow> jsval \<Rightarrow>
    string + lago_event" where
  "createEvent date_parse transaction subscription metric time props =
     (if \<not> isPresent subscription then Inl ''missing_subscription_id''
      else if \<not> isPresent transaction then Inl ''invalid_field:/record_id''
      else if metric = JUndef then Inl ''missing_metric_code''
      else if \<not> isMetricCode metric then Inl ''invalid_metric_code''
      else case formatTimestamp date_parse time of
        Inl e \<Rightarrow> Inl e
      | Inr ts \<Rightarrow>
          (case validateProperties props of
             Some e \<Rightarrow> Inl e
           | None \<Rightarrow> Inr \<lparr>transaction_id = text_of transaction,
               external_subscription_id = text_of subscription, metric_code = text_of metric,
               event_timestamp = ts, event_properties = entries props\<rparr>))"

section \<open>Preflight\<close>

text \<open>
  \<open>encode\<close>; reading a property of a missing \<open>attribution\<close> or \<open>timing\<close> throws a \<open>TypeError\<close>,
  which \<open>preflight\<close> reports as \<open>unencodable_record\<close>.
\<close>

definition lago_encode :: "(jsval \<Rightarrow> string) \<Rightarrow> (string \<Rightarrow> int option) \<Rightarrow> jsval \<Rightarrow> string + lago_event" where
  "lago_encode stringify date_parse r =
     (if jget r ''corrects'' \<noteq> JUndef then Inl ''unsupported_correction''
      else if nullish (jget r ''attribution'') \<or> nullish (jget r ''timing'')
      then Inl ''unencodable_record''
      else case flatten stringify r of
        Inl e \<Rightarrow> Inl e
      | Inr props \<Rightarrow> createEvent date_parse (jget r ''record_id'')
          (jget (jget r ''attribution'') ''subscription_id'')
          (jget (jget r ''attribution'') ''feature_id'')
          (jget (jget r ''timing'') ''event_time'') (JObj props))"

definition event_json :: "lago_event \<Rightarrow> jsval" where
  "event_json e = JObj
     [(''transaction_id'', JStr (transaction_id e)),
      (''external_subscription_id'', JStr (external_subscription_id e)),
      (''code'', JStr (metric_code e)), (''timestamp'', JStr (event_timestamp e)),
      (''properties'', JObj (event_properties e))]"

text \<open>The two maps of \<open>preflight\<close>, as association lists in insertion order.\<close>

type_synonym sorted_batch =
  "(string \<times> lago_event \<times> string) list \<times> (string \<times> string) list"

definition reject_id :: "string \<Rightarrow> string \<Rightarrow> sorted_batch \<Rightarrow> sorted_batch" where
  "reject_id i detail m =
     (filter (\<lambda>p. fst p \<noteq> i) (fst m),
      if i \<in> fst ` set (snd m) then snd m else snd m @ [(i, detail)])"

definition take_record :: "(jsval \<Rightarrow> string) \<Rightarrow> (string \<Rightarrow> int option) \<Rightarrow> sorted_batch \<Rightarrow> jsval \<Rightarrow>
    sorted_batch" where
  "take_record stringify date_parse m r =
     (case lago_encode stringify date_parse r of
        Inl detail \<Rightarrow> reject_id (rid r) detail m
      | Inr e \<Rightarrow>
          if rid r \<in> fst ` set (snd m) then m
          else let body = stringify (event_json e)
            in case map_of (fst m) (rid r) of
                 None \<Rightarrow> (fst m @ [(rid r, e, body)], snd m)
               | Some (_, earlier) \<Rightarrow>
                   if earlier = body then m else reject_id (rid r) ''duplicate_record_id'' m)"

text \<open>Reading the identifier of a batch element that is no object at all throws.\<close>

definition preflight :: "(jsval \<Rightarrow> string) \<Rightarrow> (string \<Rightarrow> int option) \<Rightarrow> jsval list \<Rightarrow>
    (lago_event list \<times> (string \<times> string) list) option" where
  "preflight stringify date_parse batch =
     (if list_ex nullish batch then None
      else let m = foldl (take_record stringify date_parse) ([], []) batch
        in Some (map (\<lambda>(_, e, _). e) (fst m), snd m))"

section \<open>What becomes of a record\<close>

lemma lago_encode_id:
  assumes "lago_encode stringify date_parse r = Inr e"
  shows "transaction_id e = rid r"
  using assms
  by (auto simp: lago_encode_def createEvent_def isPresent_def rid_def
      split: if_splits sum.splits option.splits jsval.splits)

definition agreed :: "(jsval \<Rightarrow> string) \<Rightarrow> (string \<Rightarrow> int option) \<Rightarrow> jsval list \<Rightarrow>
    string \<times> lago_event \<times> string \<Rightarrow> bool" where
  "agreed stringify date_parse batch = (\<lambda>(i, e, body).
     i = transaction_id e \<and> (\<exists>r \<in> set batch. lago_encode stringify date_parse r = Inr e) \<and>
     body = stringify (event_json e) \<and>
     (\<forall>r \<in> set batch. rid r = i \<longrightarrow>
        (\<exists>e'. lago_encode stringify date_parse r = Inr e' \<and> stringify (event_json e') = body)))"

definition sorted_out :: "(jsval \<Rightarrow> string) \<Rightarrow> (string \<Rightarrow> int option) \<Rightarrow> jsval list \<Rightarrow> sorted_batch \<Rightarrow> bool" where
  "sorted_out stringify date_parse batch m \<longleftrightarrow>
     distinct (map fst (fst m)) \<and> distinct (map fst (snd m)) \<and>
     fst ` set (fst m) \<inter> fst ` set (snd m) = {} \<and>
     fst ` set (fst m) \<union> fst ` set (snd m) = rid ` set batch \<and>
     (\<forall>p \<in> set (fst m). agreed stringify date_parse batch p)"

lemma agreed_snoc:
  assumes "agreed stringify date_parse batch p"
    and "fst p = rid r \<Longrightarrow> \<exists>e'. lago_encode stringify date_parse r = Inr e' \<and>
      stringify (event_json e') = snd (snd p)"
  shows "agreed stringify date_parse (batch @ [r]) p"
  using assms by (cases p) (auto simp: agreed_def)

lemma reject_id_keys:
  "fst ` set (fst (reject_id i detail m)) = fst ` set (fst m) - {i}"
  "fst ` set (snd (reject_id i detail m)) = insert i (fst ` set (snd m))"
  "distinct (map fst (fst m)) \<Longrightarrow> distinct (map fst (fst (reject_id i detail m)))"
  "distinct (map fst (snd m)) \<Longrightarrow> distinct (map fst (snd (reject_id i detail m)))"
  "p \<in> set (fst (reject_id i detail m)) \<Longrightarrow> p \<in> set (fst m) \<and> fst p \<noteq> i"
  by (auto simp: reject_id_def distinct_map_filter)

lemma sorted_out_agreed:
  "sorted_out stringify date_parse batch m \<Longrightarrow> p \<in> set (fst m) \<Longrightarrow> agreed stringify date_parse batch p"
  by (simp add: sorted_out_def)

lemma sorted_out_disjoint:
  "sorted_out stringify date_parse batch m \<Longrightarrow> p \<in> set (fst m) \<Longrightarrow> fst p \<notin> fst ` set (snd m)"
  unfolding sorted_out_def by (metis disjoint_iff image_eqI)

lemma sorted_out_ids:
  assumes "sorted_out stringify date_parse batch m"
  shows "r \<in> set batch \<Longrightarrow> rid r \<in> fst ` set (fst m) \<union> fst ` set (snd m)"
    "fst ` set (fst m) \<subseteq> rid ` set batch" "fst ` set (snd m) \<subseteq> rid ` set batch"
proof -
  have ids: "fst ` set (fst m) \<union> fst ` set (snd m) = rid ` set batch"
    using assms by (simp add: sorted_out_def)
  show "r \<in> set batch \<Longrightarrow> rid r \<in> fst ` set (fst m) \<union> fst ` set (snd m)"
    unfolding ids by (rule imageI)
  show "fst ` set (fst m) \<subseteq> rid ` set batch" "fst ` set (snd m) \<subseteq> rid ` set batch"
    unfolding ids [symmetric] by (rule Un_upper1, rule Un_upper2)
qed

lemma reject_sorted_out:
  assumes "sorted_out stringify date_parse batch m"
  shows "sorted_out stringify date_parse (batch @ [r]) (reject_id (rid r) detail m)"
proof -
  have "\<forall>p \<in> set (fst (reject_id (rid r) detail m)). agreed stringify date_parse (batch @ [r]) p"
  proof
    fix p
    assume "p \<in> set (fst (reject_id (rid r) detail m))"
    from reject_id_keys(5) [OF this] have "p \<in> set (fst m)" "fst p \<noteq> rid r" by simp_all
    then show "agreed stringify date_parse (batch @ [r]) p"
      by (intro agreed_snoc sorted_out_agreed [OF assms]) simp_all
  qed
  moreover have "insert (rid r) (fst ` set (fst m) \<union> fst ` set (snd m)) = rid ` set (batch @ [r])"
    using assms by (simp add: sorted_out_def)
  ultimately show ?thesis
    using assms unfolding sorted_out_def reject_id_keys(1,2) by (auto intro: reject_id_keys(3,4))
qed

lemma sorted_out_same:
  assumes "sorted_out stringify date_parse batch m" "rid r \<in> rid ` set batch"
    and "\<And>p. p \<in> set (fst m) \<Longrightarrow> fst p = rid r \<Longrightarrow>
      \<exists>e'. lago_encode stringify date_parse r = Inr e' \<and> stringify (event_json e') = snd (snd p)"
  shows "sorted_out stringify date_parse (batch @ [r]) m"
proof -
  have "\<forall>p \<in> set (fst m). agreed stringify date_parse (batch @ [r]) p"
    by (intro ballI agreed_snoc sorted_out_agreed [OF assms(1)] assms(3))
  moreover have "rid ` set (batch @ [r]) = rid ` set batch" using assms(2) by auto
  ultimately show ?thesis using assms(1) by (simp add: sorted_out_def)
qed

lemma sorted_out_new:
  assumes "sorted_out stringify date_parse batch m" "lago_encode stringify date_parse r = Inr e"
    and "rid r \<notin> fst ` set (fst m)" "rid r \<notin> fst ` set (snd m)"
  shows "sorted_out stringify date_parse (batch @ [r]) (fst m @ [(rid r, e, stringify (event_json e))], snd m)"
proof -
  have old: "rid r' \<noteq> rid r" if "r' \<in> set batch" for r'
    using sorted_out_ids(1) [OF assms(1) that] assms(3,4) by (metis UnE)
  then have "agreed stringify date_parse (batch @ [r]) (rid r, e, stringify (event_json e))"
    using assms(2) lago_encode_id [OF assms(2)] by (auto simp: agreed_def)
  moreover have "agreed stringify date_parse (batch @ [r]) p" if "p \<in> set (fst m)" for p
  proof (rule agreed_snoc [OF sorted_out_agreed [OF assms(1) that]])
    assume "fst p = rid r"
    with that assms(3) show "\<exists>e'. lago_encode stringify date_parse r = Inr e' \<and>
        stringify (event_json e') = snd (snd p)" by (metis imageI)
  qed
  moreover have "insert (rid r) (fst ` set (fst m) \<union> fst ` set (snd m)) = rid ` set (batch @ [r])"
    using assms(1) by (simp add: sorted_out_def)
  ultimately show ?thesis
    using assms(1,3,4) unfolding sorted_out_def by (auto simp: image_iff)
qed

lemma take_record_sorted_out:
  assumes "sorted_out stringify date_parse batch m"
  shows "sorted_out stringify date_parse (batch @ [r]) (take_record stringify date_parse m r)"
proof (cases "lago_encode stringify date_parse r")
  case (Inl detail)
  with reject_sorted_out [OF assms] show ?thesis by (simp add: take_record_def)
next
  case (Inr e)
  have known: "fst ` set (fst m) \<subseteq> rid ` set batch" "fst ` set (snd m) \<subseteq> rid ` set batch"
    by (rule sorted_out_ids [OF assms])+
  show ?thesis
  proof (cases "rid r \<in> fst ` set (snd m)")
    case True
    moreover have "fst p \<noteq> rid r" if "p \<in> set (fst m)" for p
      using sorted_out_disjoint [OF assms that] True by metis
    ultimately have "sorted_out stringify date_parse (batch @ [r]) m"
      using known by (intro sorted_out_same [OF assms]) auto
    with True Inr show ?thesis by (simp add: take_record_def)
  next
    case fresh: False
    show ?thesis
    proof (cases "map_of (fst m) (rid r)")
      case None
      then have "rid r \<notin> fst ` set (fst m)" by (simp add: map_of_eq_None_iff)
      from sorted_out_new [OF assms Inr this fresh] show ?thesis
        using fresh None Inr by (simp add: take_record_def Let_def)
    next
      case (Some ev)
      obtain e0 body where ev: "ev = (e0, body)" by (cases ev)
      have m: "(rid r, e0, body) \<in> set (fst m)" using Some ev by (auto dest: map_of_SomeD)
      show ?thesis
      proof (cases "body = stringify (event_json e)")
        case True
        have "snd (snd p) = body" if "p \<in> set (fst m)" "fst p = rid r" for p
        proof -
          have "distinct (map fst (fst m))" using assms by (simp add: sorted_out_def)
          with that m show ?thesis by (metis eq_key_imp_eq_value prod.collapse snd_conv)
        qed
        then have "sorted_out stringify date_parse (batch @ [r]) m"
        proof (intro sorted_out_same [OF assms])
          show "rid r \<in> rid ` set batch" using known(1) m by (metis fst_conv imageI subsetD)
        qed (use True Inr in simp)
        with True Inr Some ev fresh show ?thesis by (simp add: take_record_def Let_def)
      next
        case False
        with reject_sorted_out [OF assms] show ?thesis
          using Inr Some ev fresh by (simp add: take_record_def Let_def)
      qed
    qed
  qed
qed

lemma preflight_sorted_out:
  assumes "preflight stringify date_parse batch = Some (events, rej)"
  obtains m where "sorted_out stringify date_parse batch m" "events = map (\<lambda>(_, e, _). e) (fst m)"
    "rej = snd m"
proof
  let ?m = "foldl (take_record stringify date_parse) ([], []) batch"
  show "sorted_out stringify date_parse batch ?m"
  proof (induction batch rule: rev_induct)
    case (snoc x xs)
    from take_record_sorted_out [OF snoc.IH] show ?case by simp
  qed (simp add: sorted_out_def)
  show "events = map (\<lambda>(_, e, _). e) (fst ?m)" "rej = snd ?m"
    using assms by (simp_all add: preflight_def Let_def split: if_splits)
qed

lemma sorted_out_keys:
  assumes "sorted_out stringify date_parse batch m" "events = map (\<lambda>(_, e, _). e) (fst m)" "rej = snd m"
  shows "distinct (map transaction_id events @ map fst rej)"
    "transaction_id ` set events \<union> fst ` set rej = rid ` set batch"
proof -
  have ids: "map transaction_id events = map fst (fst m)"
    using assms(1) unfolding assms(2) by (auto simp: sorted_out_def split_def agreed_def)
  then have "transaction_id ` set events = fst ` set (fst m)" by (metis set_map)
  with assms(1) ids show "distinct (map transaction_id events @ map fst rej)"
    "transaction_id ` set events \<union> fst ` set rej = rid ` set batch"
    unfolding assms(3) by (simp_all add: sorted_out_def)
qed

text \<open>What Lago's event schema asks of an event.\<close>

definition lago_valid :: "lago_event \<Rightarrow> bool" where
  "lago_valid e \<longleftrightarrow>
     trim (transaction_id e) \<noteq> [] \<and> trim (external_subscription_id e) \<noteq> [] \<and>
     metric_code e \<noteq> [] \<and> trim (metric_code e) = metric_code e \<and>
     list_all encodable (event_properties e)"

lemma createEvent_valid:
  assumes "createEvent date_parse transaction subscription metric time props = Inr e"
  shows "lago_valid e"
  using assms
  by (auto simp: createEvent_def lago_valid_def isPresent_def isMetricCode_def validateProperties_def
      find_None_iff list_all_iff split: if_splits sum.splits option.splits jsval.splits)

lemma lago_encode_valid: "lago_encode stringify date_parse r = Inr e \<Longrightarrow> lago_valid e"
  by (auto simp: lago_encode_def split: if_splits sum.splits intro: createEvent_valid)

text \<open>
  C36: Before anything is sent, every record identifier of a batch is sorted into exactly one
  of two lists, in which it occurs once: the events to send, each of which obeys Lago's rules
  and is the encoding of a record of the batch that no other record with its identifier
  contradicts; or the rejected records.
\<close>

theorem preflight_sorts:
  assumes "preflight stringify date_parse batch = Some (events, rej)"
  shows "distinct (map transaction_id events @ map fst rej) \<and>
    set (map transaction_id events @ map fst rej) = rid ` set batch \<and>
    (\<forall>e \<in> set events. lago_valid e \<and>
       (\<exists>r \<in> set batch. lago_encode stringify date_parse r = Inr e) \<and>
       (\<forall>r \<in> set batch. rid r = transaction_id e \<longrightarrow>
          (\<exists>e'. lago_encode stringify date_parse r = Inr e' \<and>
            stringify (event_json e') = stringify (event_json e))))"
proof -
  obtain m where m: "sorted_out stringify date_parse batch m"
    and ev: "events = map (\<lambda>(_, e, _). e) (fst m)" "rej = snd m"
    by (rule preflight_sorted_out [OF assms])
  have "\<forall>e \<in> set events. (\<exists>r \<in> set batch. lago_encode stringify date_parse r = Inr e) \<and>
       (\<forall>r \<in> set batch. rid r = transaction_id e \<longrightarrow>
          (\<exists>e'. lago_encode stringify date_parse r = Inr e' \<and>
            stringify (event_json e') = stringify (event_json e)))"
    using m unfolding ev sorted_out_def agreed_def by fastforce
  moreover have "distinct (map transaction_id events @ map fst rej)"
    "set (map transaction_id events @ map fst rej) = rid ` set batch"
    using sorted_out_keys [OF m ev] by simp_all
  ultimately show ?thesis using lago_encode_valid by blast
qed

text \<open>A record Lago can take: it names its subscription and its metric.\<close>

definition lago_sample :: "string \<Rightarrow> string \<Rightarrow> jsval" where
  "lago_sample i metric = JObj
     [(''record_id'', JStr i), (''timing'', JObj [(''event_time'', JStr ''1970-01-01T00:00:01.234Z'')]),
      (''attribution'', JObj [(''subscription_id'', JStr ''s''), (''feature_id'', JStr metric)])]"

definition sample_date :: "string \<Rightarrow> int option" where
  "sample_date s = map_option epochMs (parse_timestamp s)"

definition tell :: "jsval \<Rightarrow> string" where
  "tell v = concat (map (\<lambda>(k, v). k @ text_of v) (entries v))"

theorem preflight_sorts_witness:
  "map_option (\<lambda>(es, rs). (map transaction_id es, rs))
     (preflight tell sample_date [lago_sample ''a'' ''m'', lago_sample ''b'' '' m'',
       lago_sample ''a'' ''m'', lago_sample ''c'' ''m'', lago_sample ''c'' ''n'']) =
     Some ([''a''], [(''b'', ''invalid_metric_code''), (''c'', ''duplicate_record_id'')]) \<and>
   distinct [''a'', ''b'', ''c'']"
proof -
  let ?p = "preflight tell sample_date [lago_sample ''a'' ''m'', lago_sample ''b'' '' m'',
       lago_sample ''a'' ''m'', lago_sample ''c'' ''m'', lago_sample ''c'' ''n'']"
  have v: "map_option (\<lambda>(es, rs). (map transaction_id es, rs)) ?p =
     Some ([''a''], [(''b'', ''invalid_metric_code''), (''c'', ''duplicate_record_id'')])"
    by code_simp
  then obtain es rs where p: "?p = Some (es, rs)" "map transaction_id es = [''a'']"
    "rs = [(''b'', ''invalid_metric_code''), (''c'', ''duplicate_record_id'')]" by auto
  from preflight_sorts [OF p(1)] p(2,3) v show ?thesis by simp
qed

section \<open>Time stamps\<close>

lemma nat_str_no_dot: "filter (\<lambda>c. c \<noteq> CHR ''.'') (pad_start w (CHR ''0'') (nat_str n)) = pad_start w (CHR ''0'') (nat_str n)"
proof -
  have "\<not> is_digit (CHR ''.'')" by code_simp
  then show ?thesis using pad_nat_str_digits [of w n] by (auto simp: filter_id_conv)
qed

lemma pad_0 [simp]: "pad_start 0 c s = s"
  by (simp add: pad_start_def)

text \<open>
  The time stamp of an event is exact: the digits of its seconds and its three decimals
  spell the instant of the record in milliseconds, so that two instants never share a time
  stamp and the same instant always gives the same one.
\<close>

theorem timestamp_exact:
  assumes "date_parse s = Some ms" "0 \<le> ms"
  shows "\<exists>ts. formatTimestamp date_parse (JStr s) = Inr ts \<and>
    num_of (filter (\<lambda>c. c \<noteq> CHR ''.'') ts) = nat ms"
proof -
  have p3: "length (pad_start 3 (CHR ''0'') (nat_str (nat (ms mod 1000)))) = 3"
    by (rule length_pad_nat_str) (use assms in \<open>auto simp: nat_less_iff\<close>)
  have "num_of (nat_str (nat (ms div 1000)) @ pad_start 3 (CHR ''0'') (nat_str (nat (ms mod 1000)))) =
      nat (ms div 1000) * 1000 + nat (ms mod 1000)"
    by (simp add: num_of_app p3)
  also have "\<dots> = nat ms" using assms(2) by (simp add: nat_div_distrib nat_mod_distrib)
  finally show ?thesis
    using assms nat_str_no_dot [of 0 "nat (ms div 1000)"] nat_str_no_dot [of 3 "nat (ms mod 1000)"]
    by (simp add: formatTimestamp_def)
qed

theorem timestamp_exact_witness:
  "\<exists>ts. formatTimestamp sample_date (JStr ''1970-01-01T00:00:01.234Z'') = Inr ts \<and>
     num_of (filter (\<lambda>c. c \<noteq> CHR ''.'') ts) = nat 1234"
  by (rule timestamp_exact) (code_simp, simp)

end
