(* ===== verification/ChargebeeEvent.thy ===== *)
theory ChargebeeEvent
  imports LagoEvent
begin

text \<open>
  \<open>sinks/chargebee/typescript/src/event.ts\<close> and \<open>flatten.ts\<close>: from a record to the usage event
  Chargebee is sent, or to the reason it is rejected. \<open>JSON.stringify\<close> is the argument
  \<open>stringify\<close>. The message of an \<open>InvalidUsageEventError\<close> is the left value of a sum.
\<close>

section \<open>Flattening\<close>

definition cb_pointer :: "string list \<Rightarrow> string" where
  "cb_pointer segments =
     ''/'' @ join ''/'' (map (\<lambda>s. replace_all ''/'' ''~1'' (replace_all ''~'' ''~0'' s)) segments)"

definition cb_notEncodable :: "string list \<Rightarrow> string" where
  "cb_notEncodable path = ''field at '' @ cb_pointer path @ '' is not JSON-encodable''"

definition isScalar :: "jsval \<Rightarrow> bool" where
  "isScalar v = (case v of JNull \<Rightarrow> True | JStr s \<Rightarrow> True | JNum n \<Rightarrow> True | JBool b \<Rightarrow> True | _ \<Rightarrow> False)"

function cb_canonical :: "string list \<Rightarrow> jsval \<Rightarrow> string + jsval" where
  "cb_canonical path (JArr xs) = map_sum id JArr (traverse (cb_canonical path) xs)"
| "cb_canonical path (JObj kvs) =
     map_sum id (\<lambda>kvs. JObj (property_order (filter (\<lambda>p. fst p \<noteq> ''__proto__'') kvs)))
       (traverse (named (\<lambda>k v. cb_canonical path v)) (entry_order kvs))"
| "cb_canonical path (JNum n) = (if is_finite n then Inr (JNum n) else Inl (cb_notEncodable path))"
| "cb_canonical path JNull = Inr JNull"
| "cb_canonical path (JStr s) = Inr (JStr s)"
| "cb_canonical path (JBool b) = Inr (JBool b)"
| "cb_canonical path JUndef = Inl (cb_notEncodable path)"
| "cb_canonical path (JInst kvs) = Inl (cb_notEncodable path)"
| "cb_canonical path (JDate t) = Inl (cb_notEncodable path)"
| "cb_canonical path (JOpaque t) = Inl (cb_notEncodable path)"
  by pat_completeness auto
termination
  by (relation "measure (\<lambda>(path, v). size v)")
    (auto dest!: set_entry_order intro: size_entry_snd simp: size_list_estimation' less_Suc_eq_le)

text \<open>\<open>rewriteLabelKeys\<close>: the labels under their new names, unless two of them get the same one.\<close>

definition label_name :: "string \<Rightarrow> string" where
  "label_name k = replace_all ''-'' ''_'' (replace_all ''.'' ''_'' k)"

fun rewrite_labels :: "string list \<Rightarrow> fields \<Rightarrow> fields \<Rightarrow> string + fields" where
  "rewrite_labels path [] out = Inr out"
| "rewrite_labels path ((k, v) # labels) out =
     (if label_name k \<in> fst ` set out
      then Inl (''labels at '' @ cb_pointer path @ '' collide once '' @ [CHR 0x27] @ ''.'' @ [CHR 0x27] @
        '' and '' @ [CHR 0x27] @ ''-'' @ [CHR 0x27] @ '' are rewritten to '' @ [CHR 0x27] @ ''_'' @ [CHR 0x27])
      else rewrite_labels path labels (assign out (label_name k) v))"

definition rewriteLabelKeys :: "string list \<Rightarrow> fields \<Rightarrow> string + fields" where
  "rewriteLabelKeys path labels = map_sum id property_order (rewrite_labels path labels [])"

abbreviation fields_size :: "fields \<Rightarrow> nat" where
  "fields_size \<equiv> size_list (size_prod (\<lambda>_. 0) size)"

lemma fields_size_put: "fields_size (put kvs k v) \<le> fields_size kvs + Suc (Suc (size v))"
  by (induction kvs k v rule: put.induct) auto

lemma fields_size_property_order: "fields_size (property_order kvs) = fields_size kvs"
proof -
  have m: "fields_size kvs = (\<Sum>p\<in>#mset kvs. Suc (size_prod (\<lambda>_. 0) size p))" for kvs
    by (induction kvs) auto
  show ?thesis by (simp only: m mset_property_order)
qed

lemma rewrite_labels_size: "rewrite_labels path kvs out = Inr kvs' \<Longrightarrow> fields_size kvs' \<le> fields_size kvs + fields_size out"
proof (induction path kvs out rule: rewrite_labels.induct)
  case (2 path k v labels out)
  then have "fields_size kvs' \<le> fields_size labels + fields_size (assign out (label_name k) v)"
    by (simp split: if_splits)
  moreover have "fields_size (assign out (label_name k) v) \<le> fields_size out + Suc (Suc (size v))"
    using fields_size_put [of out "label_name k" v] by (simp add: assign_def)
  ultimately show ?case by simp
qed simp

lemma rewriteLabelKeys_size: "rewriteLabelKeys path kvs = Inr kvs' \<Longrightarrow> fields_size kvs' \<le> fields_size kvs"
  using rewrite_labels_size [of path kvs "[]"]
  by (auto simp: rewriteLabelKeys_def fields_size_property_order map_sum_Inr)

function cb_leaves :: "(jsval \<Rightarrow> string) \<Rightarrow> string \<Rightarrow> string list \<Rightarrow> fields \<Rightarrow> string + fields" where
  "cb_leaves stringify sep path [] = Inr []"
| "cb_leaves stringify sep path ((k, item) # kvs) =
     (let p = path @ [k];
          first = (case item of
              JUndef \<Rightarrow> Inr []
            | JArr xs \<Rightarrow> map_sum id (\<lambda>c. [(join sep (p @ [''json'']), JStr (stringify c))]) (cb_canonical p item)
            | JObj kvs' \<Rightarrow>
                (case (if k = ''labels'' then rewriteLabelKeys p kvs' else Inr kvs') of
                   Inl e \<Rightarrow> Inl e
                 | Inr nested \<Rightarrow> cb_leaves stringify sep p nested)
            | _ \<Rightarrow> if isScalar item then Inr [(join sep p, item)] else Inl (cb_notEncodable p))
      in case first of Inl e \<Rightarrow> Inl e
         | Inr xs \<Rightarrow> map_sum id (\<lambda>ys. xs @ ys) (cb_leaves stringify sep path kvs))"
  by pat_completeness auto
termination
  by (relation "measure (\<lambda>(_, _, path, kvs). fields_size kvs)")
    (auto split: if_splits dest: rewriteLabelKeys_size)

definition cb_flatten :: "(jsval \<Rightarrow> string) \<Rightarrow> string \<Rightarrow> jsval \<Rightarrow> string + fields" where
  "cb_flatten stringify sep nested =
     (case nested of
        JObj kvs \<Rightarrow>
          map_sum id (\<lambda>xs. property_order (foldl (\<lambda>out (k, v). assign out k v) [] xs))
            (cb_leaves stringify sep [] kvs)
      | _ \<Rightarrow> Inl ''record must encode to a JSON object'')"

section \<open>Events\<close>

record usage_event =
  ev_subscription :: string
  ev_timestamp :: int
  deduplication_id :: string
  ev_properties :: fields

definition PROPERTY_NAME :: rx where
  "PROPERTY_NAME = Sq (Cls [(CHR ''a'', CHR ''z''), (CHR ''A'', CHR ''Z'')])
     (Star (Cls [(CHR ''a'', CHR ''z''), (CHR ''A'', CHR ''Z''), (CHR ''0'', CHR ''9''), (CHR ''_'', CHR ''_'')]))"

definition RESERVED_PROPERTY_NAMES :: "string list" where
  "RESERVED_PROPERTY_NAMES = [''deduplication_id'', ''error_codes'', ''event_meta'',
     ''ingestion_timestamp'', ''properties'', ''subscription_id'', ''usage_timestamp'']"

text \<open>A string has as many code points as code units, for want of surrogates.\<close>

definition bad_identifier :: "jsval \<Rightarrow> string \<Rightarrow> nat \<Rightarrow> string option" where
  "bad_identifier v name longest =
     (case v of
        JStr s \<Rightarrow>
          if trim s = [] then Some (name @ '' must not be empty'')
          else if longest < length s
          then Some (name @ '' must be at most '' @ nat_str longest @ '' characters'')
          else None
      | _ \<Rightarrow> Some (name @ '' must be a string''))"

definition int_str :: "int \<Rightarrow> string" where
  "int_str t = (if t < 0 then ''-'' @ nat_str (nat (- t)) else nat_str (nat t))"

definition quoted :: "string \<Rightarrow> string" where
  "quoted s = [CHR 0x27] @ s @ [CHR 0x27]"

fun typeof :: "jsval \<Rightarrow> string" where
  "typeof JUndef = ''undefined''"
| "typeof (JBool b) = ''boolean''"
| "typeof (JNum n) = ''number''"
| "typeof (JStr s) = ''string''"
| "typeof (JOpaque t) = t"
| "typeof _ = ''object''"

definition bad_property :: "string \<times> jsval \<Rightarrow> string option" where
  "bad_property p =
     (case p of (k, item) \<Rightarrow>
        if \<not> matches PROPERTY_NAME k
        then Some (''properties name '' @ quoted k @ '' must start with a letter and contain only letters, digits, and underscores'')
        else if k \<in> set RESERVED_PROPERTY_NAMES
        then Some (''properties name '' @ quoted k @ '' is reserved'')
        else if \<not> isScalar item
        then Some (''properties value for '' @ quoted k @ '' must be a scalar; the destination fails on nested objects and arrays, got '' @
          (case item of JArr _ \<Rightarrow> ''array'' | _ \<Rightarrow> typeof item))
        else case item of
          JNum n \<Rightarrow> if is_finite n then None
            else Some (''properties value for '' @ quoted k @ '' must be a finite JSON number'')
        | _ \<Rightarrow> None)"

definition bad_properties :: "jsval \<Rightarrow> string option" where
  "bad_properties v =
     (if \<not> is_object v then Some ''properties must be a JSON object''
      else if entries v = [] then Some ''properties must not be empty''
      else foldr (\<lambda>p. opt_or (bad_property p)) (entries v) None)"

text \<open>\<open>validateEvent\<close>, of a time stamp that is \<open>None\<close> for \<open>NaN\<close>.\<close>

definition validateEvent :: "jsval \<Rightarrow> int option \<Rightarrow> jsval \<Rightarrow> jsval \<Rightarrow> string + usage_event" where
  "validateEvent subscription time dedup props =
     (case opt_or (bad_identifier subscription ''subscription_id'' 50)
             (bad_identifier dedup ''deduplication_id'' 36) of
        Some e \<Rightarrow> Inl e
      | None \<Rightarrow>
          (case time of
             None \<Rightarrow> Inl ''usage_timestamp must be an integer''
           | Some t \<Rightarrow>
               if length (int_str t) \<noteq> 13
               then Inl ''usage_timestamp must be a 13-digit epoch-millisecond value; a 10-digit value is epoch seconds and the destination rejects it''
               else case bad_properties props of
                 Some e \<Rightarrow> Inl e
               | None \<Rightarrow> Inr \<lparr>ev_subscription = text_of subscription, ev_timestamp = t,
                   deduplication_id = text_of dedup, ev_properties = entries props\<rparr>))"

section \<open>What an event is\<close>

text \<open>What Chargebee's ingest endpoint asks of an event.\<close>

definition chargebee_valid :: "usage_event \<Rightarrow> bool" where
  "chargebee_valid e \<longleftrightarrow>
     trim (ev_subscription e) \<noteq> [] \<and> length (ev_subscription e) \<le> 50 \<and>
     trim (deduplication_id e) \<noteq> [] \<and> length (deduplication_id e) \<le> 36 \<and>
     length (int_str (ev_timestamp e)) = 13 \<and> ev_properties e \<noteq> [] \<and>
     (\<forall>(k, v) \<in> set (ev_properties e). matches PROPERTY_NAME k \<and>
        k \<notin> set RESERVED_PROPERTY_NAMES \<and> isScalar v \<and> (\<forall>n. v = JNum n \<longrightarrow> is_finite n))"

lemma foldr_opt_or_None: "foldr (\<lambda>p. opt_or (f p)) xs None = None \<longleftrightarrow> (\<forall>x \<in> set xs. f x = None)"
proof (induction xs)
  case (Cons x xs)
  then show ?case by (cases "f x") auto
qed simp

lemma bad_property_None:
  "bad_property (k, v) = None \<longleftrightarrow> matches PROPERTY_NAME k \<and> k \<notin> set RESERVED_PROPERTY_NAMES \<and>
    isScalar v \<and> (\<forall>n. v = JNum n \<longrightarrow> is_finite n)"
  by (auto simp: bad_property_def isScalar_def split: jsval.splits)

lemma validateEvent_valid:
  assumes "validateEvent subscription time dedup props = Inr e"
  shows "chargebee_valid e" "dedup = JStr (deduplication_id e)"
proof -
  have b: "bad_identifier subscription ''subscription_id'' 50 = None" "bad_identifier dedup ''deduplication_id'' 36 = None"
    "bad_properties props = None"
    using assms by (cases "bad_identifier subscription ''subscription_id'' 50";
        auto simp: validateEvent_def split: option.splits if_splits)+
  then have p: "entries props \<noteq> []" "\<forall>q \<in> set (entries props). bad_property q = None"
    by (auto simp: bad_properties_def foldr_opt_or_None split: if_splits)
  obtain t where t: "time = Some t" "length (int_str t) = 13"
    and e: "e = \<lparr>ev_subscription = text_of subscription, ev_timestamp = t,
      deduplication_id = text_of dedup, ev_properties = entries props\<rparr>"
    using assms b by (auto simp: validateEvent_def split: option.splits if_splits)
  have i: "\<exists>s. v = JStr s \<and> trim s \<noteq> [] \<and> length s \<le> n" if "bad_identifier v name n = None" for v name n
    using that by (auto simp: bad_identifier_def split: jsval.splits if_splits)
  from i [OF b(1)] i [OF b(2)] p t(2) show "chargebee_valid e"
    unfolding e chargebee_valid_def by (auto simp: bad_property_None)
  from i [OF b(2)] show "dedup = JStr (deduplication_id e)" unfolding e by auto
qed

section \<open>Labels\<close>

lemma put_fresh: "k \<notin> fst ` set kvs \<Longrightarrow> put kvs k v = kvs @ [(k, v)]"
  by (induction kvs k v rule: put.induct) auto

definition renamed :: "fields \<Rightarrow> fields" where
  "renamed kvs = filter (\<lambda>p. fst p \<noteq> ''__proto__'') (map (\<lambda>(k, v). (label_name k, v)) kvs)"

lemma renamed_simps [simp]: "renamed [] = []"
  "renamed ((k, v) # kvs) =
     (if label_name k = ''__proto__'' then renamed kvs else (label_name k, v) # renamed kvs)"
  by (simp_all add: renamed_def)

lemma rewrite_labels_result:
  "rewrite_labels path kvs out = Inr kvs' \<Longrightarrow>
    kvs' = out @ renamed kvs \<and> (distinct (map fst out) \<longrightarrow> distinct (map fst kvs'))"
proof (induction path kvs out rule: rewrite_labels.induct)
  case (2 path k v labels out)
  then have new: "label_name k \<notin> fst ` set out"
    and r: "rewrite_labels path labels (assign out (label_name k) v) = Inr kvs'"
    by (simp_all split: if_splits)
  have d: "distinct (map fst out) \<longrightarrow> distinct (map fst (assign out (label_name k) v))"
    by (simp add: assign_def distinct_put)
  have a: "assign out (label_name k) v @ renamed labels = out @ renamed ((k, v) # labels)"
    using new by (simp add: assign_def put_fresh)
  from "2.IH" [OF new r] d show ?case unfolding a by iprover
qed auto



end
