(* ===== verification/LagoResponse.thy ===== *)
theory LagoResponse
  imports LagoEvent
begin

text \<open>
  \<open>sinks/lago/typescript/src/response.ts\<close>: the class of an HTTP status, and what a \<open>422\<close> says
  about the events of a request.
\<close>

section \<open>Statuses\<close>

datatype status_class =
  StAccepted | StUnconfirmed | StInvalid | StCredential | StForbidden | StTooLarge | StTransient | StPermanent

definition isTransient :: "int \<Rightarrow> bool" where
  "isTransient status \<longleftrightarrow> status = 408 \<or> status = 429 \<or> (500 \<le> status \<and> status \<le> 599)"

definition classifyStatus :: "int \<Rightarrow> status_class" where
  "classifyStatus status =
     (if status = 200 then StAccepted
      else if 200 < status \<and> status < 300 then StUnconfirmed
      else if status = 422 then StInvalid
      else if status = 401 then StCredential
      else if status = 403 then StForbidden
      else if status = 413 then StTooLarge
      else if isTransient status then StTransient else StPermanent)"

section \<open>Validation errors\<close>

definition INDEX :: rx where
  "INDEX = Alt (Chr (CHR ''0'')) (Sq (Cls [(CHR ''1'', CHR ''9'')]) (Star Digit))"

definition DUPLICATE_FIELD :: string where "DUPLICATE_FIELD = ''transaction_id''"

definition DUPLICATE_CODE :: string where "DUPLICATE_CODE = ''value_already_exist''"

definition FIELDS :: "string list" where
  "FIELDS = [DUPLICATE_FIELD, ''external_subscription_id'', ''code'', ''timestamp'', ''properties'']"

definition CODES :: "string list" where
  "CODES = [DUPLICATE_CODE, ''value_is_mandatory'', ''invalid_format'']"

definition allowed :: "string list \<Rightarrow> string \<Rightarrow> string \<Rightarrow> string" where
  "allowed names name fallback = (if name \<in> set names then name else fallback)"

fun as_text :: "jsval \<Rightarrow> unit + string" where
  "as_text (JStr s) = Inr s"
| "as_text _ = Inl ()"

text \<open>The pairs of one event's errors, fields in name order; a failure is an untrusted body.\<close>

definition field_pairs :: "jsval \<Rightarrow> string \<Rightarrow> unit + (string \<times> string) list" where
  "field_pairs errors f =
     (case jget errors f of
        JArr codes \<Rightarrow> if codes = [] then Inl () else map_sum id (map (\<lambda>c. (f, c))) (traverse as_text codes)
      | _ \<Rightarrow> Inl ())"

definition errorPairs :: "jsval \<Rightarrow> (string \<times> string) list option" where
  "errorPairs errors =
     (if \<not> is_object errors then None
      else case traverse (field_pairs errors) (sort (keys errors)) of
        Inl _ \<Rightarrow> None
      | Inr ps \<Rightarrow> if concat ps = [] then None else Some (concat ps))"

record verdict =
  duplicates :: "nat list"
  refused_events :: "(nat \<times> string) list"

definition read_entry :: "nat \<Rightarrow> string \<times> jsval \<Rightarrow> unit + (nat + nat \<times> string)" where
  "read_entry n p =
     (if \<not> matches INDEX (fst p) \<or> n \<le> num_of (fst p) then Inl ()
      else let i = num_of (fst p) in
        case snd p of
          JStr _ \<Rightarrow> Inr (Inr (i, ''event:expression_evaluation_failed''))
        | errors \<Rightarrow>
            (case errorPairs errors of
               None \<Rightarrow> Inl ()
             | Some pairs \<Rightarrow>
                 (case find (\<lambda>(f, c). f \<noteq> DUPLICATE_FIELD \<or> c \<noteq> DUPLICATE_CODE) pairs of
                    None \<Rightarrow> Inr (Inl i)
                  | Some (f, c) \<Rightarrow> Inr (Inr (i,
                      allowed FIELDS f ''event'' @ '':'' @ allowed CODES c ''validation_error'')))))"

definition parseValidationErrors :: "jsval \<Rightarrow> nat \<Rightarrow> verdict option" where
  "parseValidationErrors body n =
     (let details = (if is_object body then jget body ''error_details'' else JUndef)
      in if \<not> is_object details \<or> entries details = [] then None
         else case traverse (read_entry n) (entries details) of
           Inl _ \<Rightarrow> None
         | Inr rs \<Rightarrow> Some
             \<lparr>duplicates = sort (List.map_filter (\<lambda>r. case r of Inl i \<Rightarrow> Some i | Inr _ \<Rightarrow> None) rs),
              refused_events = sort_key fst (List.map_filter (\<lambda>r. case r of Inl _ \<Rightarrow> None | Inr p \<Rightarrow> Some p) rs)\<rparr>)"

definition exceedsBatchLimit :: "jsval \<Rightarrow> bool" where
  "exceedsBatchLimit body =
     (let details = (if is_object body then jget body ''error_details'' else JUndef)
      in if \<not> is_object details then False
         else case jget details ''events'' of JArr es \<Rightarrow> JStr ''too_many_events'' \<in> set es | _ \<Rightarrow> False)"

section \<open>What a verdict is\<close>

text \<open>The details a verdict can give: no text of the response is among them.\<close>

definition known_details :: "string set" where
  "known_details = insert ''event:expression_evaluation_failed''
     {f @ '':'' @ c | f c. f \<in> set (''event'' # FIELDS) \<and> c \<in> set (''validation_error'' # CODES)}"

lemma allowed_known: "allowed names name fallback \<in> set (fallback # names)"
  by (simp add: allowed_def)

definition entry_index :: "nat + nat \<times> string \<Rightarrow> nat" where
  "entry_index r = (case r of Inl i \<Rightarrow> i | Inr (i, _) \<Rightarrow> i)"

lemma read_entry_index:
  assumes "read_entry n p = Inr r"
  shows "entry_index r = num_of (fst p)" "num_of (fst p) < n" "matches INDEX (fst p)"
    "\<And>q. r = Inr q \<Longrightarrow> snd q \<in> known_details"
proof -
  show "entry_index r = num_of (fst p)" "num_of (fst p) < n" "matches INDEX (fst p)"
    using assms by (auto simp: read_entry_def entry_index_def Let_def
        split: if_splits jsval.splits option.splits)
  show "snd q \<in> known_details" if "r = Inr q" for q
    using assms that allowed_known [of FIELDS _ "''event''"] allowed_known [of CODES _ "''validation_error''"]
    by (fastforce simp: read_entry_def known_details_def Let_def
        split: if_splits jsval.splits option.splits)
qed

lemma traverse_list_all2: "traverse f xs = Inr ys \<longleftrightarrow> list_all2 (\<lambda>x y. f x = Inr y) xs ys"
proof (induction xs arbitrary: ys)
  case (Cons x xs)
  show ?case
    by (cases "f x"; cases "traverse f xs") (auto simp: list_all2_Cons1 Cons.IH [symmetric])
qed auto

lemma matches_INDEX:
  assumes "matches INDEX s"
  shows "nat_str (num_of s) = s"
proof -
  have "s = ''0'' \<or> (\<exists>c t. s = c # t \<and> in_cls [(CHR ''1'', CHR ''9'')] c \<and> list_all is_digit t)"
    using assms by (auto simp: INDEX_def Digit_def matches_Alt matches_Chr matches_Sq matches_Cls
        matches_Star_Cls in_cls_digit cong: list.pred_cong)
  then show ?thesis
  proof
    assume "s = ''0''"
    then show ?thesis by (intro nat_str_num_of) simp_all
  next
    assume "\<exists>c t. s = c # t \<and> in_cls [(CHR ''1'', CHR ''9'')] c \<and> list_all is_digit t"
    then obtain c t where s: "s = c # t" "in_cls [(CHR ''1'', CHR ''9'')] c" "list_all is_digit t" by blast
    then have "is_digit c" "c \<noteq> CHR ''0''" by (auto simp: in_cls_def is_digit_def code_def)
    with s show ?thesis by (intro nat_str_num_of) simp_all
  qed
qed

lemma mset_indices:
  "mset (List.map_filter (\<lambda>r. case r of Inl i \<Rightarrow> Some i | Inr _ \<Rightarrow> None) rs) +
   mset (map fst (List.map_filter (\<lambda>r. case r of Inl _ \<Rightarrow> None | Inr p \<Rightarrow> Some p) rs)) =
   mset (map entry_index rs)"
  by (induction rs) (auto simp: map_filter_simps entry_index_def split: sum.splits)

lemma traverse_ok: "traverse f xs = Inr ys \<Longrightarrow> x \<in> set xs \<Longrightarrow> \<exists>y \<in> set ys. f x = Inr y"
  by (induction xs arbitrary: ys) (auto split: sum.splits)

lemma parse_verdict:
  assumes "parseValidationErrors body n = Some v" "wf_val body"
  shows "distinct (duplicates v @ map fst (refused_events v))"
    "\<forall>i \<in> set (duplicates v @ map fst (refused_events v)). i < n"
    "duplicates v @ map fst (refused_events v) \<noteq> []"
    "snd ` set (refused_events v) \<subseteq> known_details"
proof -
  define details where "details = (if is_object body then jget body ''error_details'' else JUndef)"
  obtain rs where t: "traverse (read_entry n) (entries details) = Inr rs" and ne: "entries details \<noteq> []"
    and v: "duplicates v = sort (List.map_filter (\<lambda>r. case r of Inl i \<Rightarrow> Some i | Inr _ \<Rightarrow> None) rs)"
      "refused_events v = sort_key fst (List.map_filter (\<lambda>r. case r of Inl _ \<Rightarrow> None | Inr p \<Rightarrow> Some p) rs)"
    using assms(1) unfolding parseValidationErrors_def details_def
    by (auto simp: Let_def split: if_splits sum.splits)
  have all2: "list_all2 (\<lambda>p r. read_entry n p = Inr r) (entries details) rs"
    using t by (simp add: traverse_list_all2)
  have idx: "map entry_index rs = map (\<lambda>p. num_of (fst p)) (entries details)"
    using all2 by (induction rule: list_all2_induct) (auto dest: read_entry_index(1))
  have "wf_val details" using assms(2) by (simp add: details_def wf_jget)
  then have "distinct (map fst (entries details))" by (cases details) auto
  moreover have "inj_on num_of (fst ` set (entries details))"
  proof (rule inj_onI)
    have "matches INDEX k" if "k \<in> fst ` set (entries details)" for k
    proof -
      from that obtain p where "p \<in> set (entries details)" "k = fst p" by blast
      with traverse_ok [OF t] read_entry_index(3) show ?thesis by blast
    qed
    then show "a = b" if "a \<in> fst ` set (entries details)" "b \<in> fst ` set (entries details)"
      "num_of a = num_of b" for a b using that matches_INDEX by metis
  qed
  ultimately have "distinct (map num_of (map fst (entries details)))"
    by (simp only: distinct_map [of num_of] set_map)
  then have "distinct (map entry_index rs)" unfolding idx by (simp add: comp_def)
  moreover have m: "mset (duplicates v @ map fst (refused_events v)) = mset (map entry_index rs)"
    using mset_indices [of rs] by (simp add: v)
  ultimately show "distinct (duplicates v @ map fst (refused_events v))"
    using mset_eq_imp_distinct_iff [OF m] by blast
  have "\<forall>i \<in> set (map entry_index rs). i < n"
  proof
    fix i
    assume "i \<in> set (map entry_index rs)"
    then obtain r where "r \<in> set rs" "i = entry_index r" by auto
    with traverse_member [OF t] read_entry_index(1,2) show "i < n" by metis
  qed
  then show "\<forall>i \<in> set (duplicates v @ map fst (refused_events v)). i < n"
    using mset_eq_setD [OF m] by simp
  show "duplicates v @ map fst (refused_events v) \<noteq> []"
  proof
    assume "duplicates v @ map fst (refused_events v) = []"
    with m have "rs = []" by simp
    with all2 ne show False by simp
  qed
  have "snd q \<in> known_details" if "Inr q \<in> set rs" for q
    using traverse_member [OF t that] read_entry_index(4) by blast
  then show "snd ` set (refused_events v) \<subseteq> known_details"
    by (auto simp: v List.map_filter_def split: sum.splits)
qed

text \<open>
  C37: A \<open>422\<close> body that is trusted names at least one event, each by a position inside the
  request, none twice and none both as held and as refused; and the reason given for a
  refused event is one of a fixed list, whatever the response says.
\<close>

theorem verdict_trusted:
  assumes "parseValidationErrors body n = Some v" "wf_val body"
  shows "distinct (duplicates v @ map fst (refused_events v)) \<and>
    (\<forall>i \<in> set (duplicates v @ map fst (refused_events v)). i < n) \<and>
    duplicates v @ map fst (refused_events v) \<noteq> [] \<and> snd ` set (refused_events v) \<subseteq> known_details"
  using parse_verdict [OF assms] by blast

definition sample_422 :: jsval where
  "sample_422 = JObj [(''error_details'', JObj
     [(''2'', JObj [(''code'', JArr [JStr ''value_is_mandatory''])]),
      (''0'', JObj [(''transaction_id'', JArr [JStr ''value_already_exist''])]),
      (''1'', JStr ''the expression failed'')])]"

theorem verdict_trusted_witness:
  "parseValidationErrors sample_422 3 = Some \<lparr>duplicates = [0], refused_events =
     [(1, ''event:expression_evaluation_failed''), (2, ''code:value_is_mandatory'')]\<rparr> \<and>
   ''code:value_is_mandatory'' \<in> known_details"
proof -
  have p: "parseValidationErrors sample_422 3 = Some \<lparr>duplicates = [0], refused_events =
     [(1, ''event:expression_evaluation_failed''), (2, ''code:value_is_mandatory'')]\<rparr>"
    by code_simp
  have "wf_val sample_422" by (simp add: sample_422_def)
  from verdict_trusted [OF p this] p show ?thesis by simp
qed

end
