(* ===== verification/Pipeline.thy ===== *)
theory Pipeline
  imports Sink "HOL-Library.Sublist"
begin

text \<open>
  \<open>adapters/core/typescript/src/pipeline.ts\<close>, as a state machine. Each synchronous piece of
  JavaScript, from one \<open>await\<close> to the next, is one function on the state; the events that
  start a piece are the constructors of \<open>event\<close>, and any interleaving of them that the
  program allows is a run.

  The sink's answer is an argument of the event that brings it. A callback is a function from
  the state and what it is told to the calls it makes in response, in order; what a
  callback throws is logged and dropped, and a promise it returns only delays the end of
  \<open>stop()\<close>. Timers fire whenever they are armed. A sink's \<open>deliver()\<close> that throws at once is
  taken as one whose promise rejects. The logger is not modelled: the client wraps it so that
  it cannot throw.
\<close>

section \<open>State\<close>

datatype disposition = Dropped | Unknown

datatype item_state = In_flight | Sent | Failed disposition

datatype reason =
    Invalid | Queue_full | Shutdown | Rejected | Sink_failure | Sink_closed | Inconclusive

record failure =
  failedRecord :: jsval
  fdisposition :: disposition
  freason :: reason
  retryable :: bool
  detail :: "string option"

text \<open>Only a record in flight moves, and it moves to a terminal state for good.\<close>

instantiation item_state :: order
begin

definition less_eq_item_state :: "item_state \<Rightarrow> item_state \<Rightarrow> bool" where
  "less_eq_item_state a b \<longleftrightarrow> a = In_flight \<or> a = b"

definition less_item_state :: "item_state \<Rightarrow> item_state \<Rightarrow> bool" where
  "less_item_state a b \<longleftrightarrow> a = In_flight \<and> b \<noteq> In_flight"

instance
  by standard (auto simp: less_eq_item_state_def less_item_state_def)

end

type_synonym item = "jsval \<times> item_state"

text \<open>
  \<open>#delivering\<close> is \<open>phase \<noteq> Idle\<close>: a batch is with the sink, or \<open>#deliver\<close> has finished and
  \<open>#run\<close> has not gone on yet.
\<close>

datatype phase = Idle | AwaitSink | AwaitRun

text \<open>\<open>stop()\<close>: not called, draining under an identifier, or past \<open>#abandonOutstanding\<close>.\<close>

datatype stop_phase = Running | Stopping nat | Abandoned

text \<open>
  The linger timer has a handle (\<open>#lingerTimer !== undefined\<close>) and may be armed; \<open>#stop\<close>
  clears it without forgetting the handle. A drain is known by a number: \<open>waiters\<close> are the
  idle promises not resolved yet, \<open>resolved\<close> those that are, \<open>draining\<close> the drains whose
  \<open>finally\<close> has not run. The last five fields record what happened and are read by no
  operation: the records submitted, the terminal state of each record that has one, the
  batches handed to the sink, and the calls of the two callbacks.
\<close>

record pipe =
  queue :: "jsval list"
  inFlight :: "item list"
  phase :: phase
  lingerHandle :: bool
  lingerArmed :: bool
  drainers :: nat
  draining :: "nat list"
  waiters :: "nat list"
  resolved :: "nat list"
  stopped :: bool
  stopping :: stop_phase
  aborted :: bool
  notifying :: bool
  sinkClosed :: bool
  submitted :: nat
  sent :: nat
  dropped :: nat
  unknown :: nat
  batches :: nat
  arrivals :: "jsval list"
  fates :: "(jsval \<times> item_state) list"
  handed :: "jsval list list"
  failures :: "failure list"
  deliveries :: "jsval list list"

text \<open>What a callback can call while it runs.\<close>

datatype call = CallSubmit jsval | CallReport jsval | CallFlush | CallStop

record options =
  maxQueueSize :: nat
  batchMaxSize :: nat
  ownsSink :: bool
  onFailure :: "(pipe \<Rightarrow> failure \<Rightarrow> call list) option"
  onDelivered :: "(pipe \<Rightarrow> jsval list \<Rightarrow> call list) option"

definition initial :: pipe where
  "initial = \<lparr>queue = [], inFlight = [], phase = Idle, lingerHandle = False, lingerArmed = False,
     drainers = 0, draining = [], waiters = [], resolved = [], stopped = False, stopping = Running,
     aborted = False, notifying = False, sinkClosed = False, submitted = 0, sent = 0, dropped = 0, unknown = 0,
     batches = 0, arrivals = [], fates = [], handed = [], failures = [], deliveries = []\<rparr>"

section \<open>Scheduling\<close>

definition depth :: "pipe \<Rightarrow> nat" where
  "depth st = length (queue st) + length (inFlight st)"

definition batchDue :: "options \<Rightarrow> pipe \<Rightarrow> bool" where
  "batchDue c st \<longleftrightarrow> batchMaxSize c \<le> length (queue st) \<or> 0 < drainers st \<or> stopped st"

text \<open>
  \<open>#deliver\<close> up to its \<open>await\<close>, of the first \<open>batchMaxSize\<close> records of the queue.
\<close>

definition deliver_batch :: "options \<Rightarrow> pipe \<Rightarrow> pipe" where
  "deliver_batch c st =
     (let batch = take (batchMaxSize c) (queue st)
      in st\<lparr>queue := drop (batchMaxSize c) (queue st), inFlight := map (\<lambda>r. (r, In_flight)) batch,
            phase := AwaitSink, handed := handed st @ [batch]\<rparr>)"

definition wake :: "pipe \<Rightarrow> pipe" where
  "wake st = st\<lparr>resolved := resolved st @ waiters st, waiters := []\<rparr>"

text \<open>
  \<open>#run\<close> up to its first \<open>await\<close>. \<open>batchMaxSize\<close> is at least 1, so that its first batch is
  empty only if the queue is.
\<close>

definition run :: "options \<Rightarrow> pipe \<Rightarrow> pipe" where
  "run c st =
     (if phase st \<noteq> Idle then st
      else let st = st\<lparr>lingerHandle := False, lingerArmed := False\<rparr>
           in if queue st = [] then wake st else deliver_batch c st)"

definition schedule :: "options \<Rightarrow> pipe \<Rightarrow> pipe" where
  "schedule c st =
     (if phase st \<noteq> Idle \<or> queue st = [] then st
      else if batchDue c st then run c st
      else if lingerHandle st then st
      else st\<lparr>lingerHandle := True, lingerArmed := True\<rparr>)"

text \<open>\<open>#run\<close> after \<open>#deliver\<close>: the next round of its loop, or its \<open>finally\<close>.\<close>

definition resume :: "options \<Rightarrow> pipe \<Rightarrow> pipe" where
  "resume c st =
     (if batchDue c st \<and> queue st \<noteq> [] then deliver_batch c st
      else let st = st\<lparr>phase := Idle\<rparr>
           in if queue st \<noteq> [] then schedule c st else wake st)"

section \<open>Draining and stopping\<close>

definition fresh :: "nat \<Rightarrow> pipe \<Rightarrow> bool" where
  "fresh i st \<longleftrightarrow> i \<notin> set (draining st) \<and> i \<notin> set (resolved st) \<and> i \<notin> set (waiters st)"

definition new_drain :: "pipe \<Rightarrow> nat" where
  "new_drain st = Suc (sum_list (draining st @ resolved st @ waiters st))"

definition drain :: "options \<Rightarrow> nat \<Rightarrow> pipe \<Rightarrow> pipe" where
  "drain c i st =
     (let st = schedule c (st\<lparr>drainers := drainers st + 1, draining := i # draining st\<rparr>)
      in if phase st = Idle \<and> queue st = [] then st\<lparr>resolved := resolved st @ [i]\<rparr>
         else st\<lparr>waiters := waiters st @ [i]\<rparr>)"

text \<open>The \<open>finally\<close> of \<open>#drain\<close>, once its idle promise or its timer has settled.\<close>

definition end_drain :: "nat \<Rightarrow> pipe \<Rightarrow> pipe" where
  "end_drain i st = st\<lparr>drainers := drainers st - 1, draining := remove1 i (draining st)\<rparr>"

definition flush :: "options \<Rightarrow> nat \<Rightarrow> pipe \<Rightarrow> pipe" where
  "flush c i st = (if stopping st = Running then drain c i st else st)"

definition stop :: "options \<Rightarrow> nat \<Rightarrow> pipe \<Rightarrow> pipe" where
  "stop c i st =
     (if stopping st = Running then drain c i (st\<lparr>stopping := Stopping i, stopped := True\<rparr>) else st)"

section \<open>Submitting and reporting\<close>

text \<open>
  \<open>submit\<close> and \<open>#notifyFailure\<close> call each other through the \<open>onFailure\<close> callback; while the
  callback runs, \<open>#notifying\<close> turns \<open>#notifyFailure\<close> off, so the inner call is the identity
  (\<open>submit_unfold\<close>).
\<close>

definition submit_with :: "(failure \<Rightarrow> pipe \<Rightarrow> pipe) \<Rightarrow> options \<Rightarrow> jsval \<Rightarrow> pipe \<Rightarrow> pipe" where
  "submit_with notify c r st =
     (let st = st\<lparr>submitted := submitted st + 1, arrivals := arrivals st @ [r]\<rparr>
      in if maxQueueSize c \<le> depth st
         then notify \<lparr>failedRecord = r, fdisposition = Dropped, freason = Queue_full,
                      retryable = True, detail = None\<rparr>
                (st\<lparr>dropped := dropped st + 1, fates := fates st @ [(r, Failed Dropped)]\<rparr>)
         else schedule c (st\<lparr>queue := queue st @ [r]\<rparr>))"

definition invalid_failure :: "jsval \<Rightarrow> failure" where
  "invalid_failure r = \<lparr>failedRecord = r, fdisposition = Dropped, freason = Invalid,
     retryable = False, detail = None\<rparr>"

fun do_call :: "(failure \<Rightarrow> pipe \<Rightarrow> pipe) \<Rightarrow> options \<Rightarrow> call \<Rightarrow> pipe \<Rightarrow> pipe" where
  "do_call notify c (CallSubmit r) st = submit_with notify c r st"
| "do_call notify c (CallReport r) st = notify (invalid_failure r) st"
| "do_call notify c CallFlush st = flush c (new_drain st) st"
| "do_call notify c CallStop st = stop c (new_drain st) st"

definition do_calls :: "(failure \<Rightarrow> pipe \<Rightarrow> pipe) \<Rightarrow> options \<Rightarrow> call list \<Rightarrow> pipe \<Rightarrow> pipe" where
  "do_calls notify c calls st = foldl (\<lambda>st x. do_call notify c x st) st calls"

definition notifyFailure :: "options \<Rightarrow> failure \<Rightarrow> pipe \<Rightarrow> pipe" where
  "notifyFailure c f st =
     (case onFailure c of
        None \<Rightarrow> st
      | Some callback \<Rightarrow>
          if notifying st then st
          else let st = st\<lparr>notifying := True, failures := failures st @ [f]\<rparr>
               in (do_calls (\<lambda>_ st. st) c (callback st f) st)\<lparr>notifying := False\<rparr>)"

definition submit :: "options \<Rightarrow> jsval \<Rightarrow> pipe \<Rightarrow> pipe" where
  "submit c = submit_with (notifyFailure c) c"

datatype submit_outcome = Queued | Rejected_invalid | Dropped_queue_full | Dropped_not_running

definition submit_result :: "options \<Rightarrow> pipe \<Rightarrow> submit_outcome" where
  "submit_result c st = (if maxQueueSize c \<le> depth st then Dropped_queue_full else Queued)"

definition reportInvalid :: "options \<Rightarrow> jsval \<Rightarrow> pipe \<Rightarrow> pipe" where
  "reportInvalid c r = notifyFailure c (invalid_failure r)"

text \<open>\<open>#fail\<close> and \<open>#markSent\<close> of the record at place \<open>k\<close> of the batch.\<close>

definition still :: "nat \<Rightarrow> pipe \<Rightarrow> bool" where
  "still k st \<longleftrightarrow> k < length (inFlight st) \<and> snd (inFlight st ! k) = In_flight"

definition settle :: "nat \<Rightarrow> item_state \<Rightarrow> pipe \<Rightarrow> pipe" where
  "settle k s st =
     st\<lparr>inFlight := (inFlight st)[k := (fst (inFlight st ! k), s)],
        fates := fates st @ [(fst (inFlight st ! k), s)]\<rparr>"

definition fail :: "options \<Rightarrow> disposition \<Rightarrow> reason \<Rightarrow> bool \<Rightarrow> string option \<Rightarrow> nat \<Rightarrow> pipe \<Rightarrow> pipe" where
  "fail c d why retry det k st =
     (if \<not> still k st then st
      else
        let r = fst (inFlight st ! k); st = settle k (Failed d) st;
            st = (case d of Dropped \<Rightarrow> st\<lparr>dropped := dropped st + 1\<rparr>
                  | Unknown \<Rightarrow> st\<lparr>unknown := unknown st + 1\<rparr>)
        in notifyFailure c \<lparr>failedRecord = r, fdisposition = d, freason = why, retryable = retry,
                            detail = det\<rparr> st)"

definition markSent :: "nat \<Rightarrow> pipe \<Rightarrow> pipe" where
  "markSent k st =
     (if \<not> still k st then st else let st = settle k Sent st in st\<lparr>sent := sent st + 1\<rparr>)"

definition notifyDelivered :: "options \<Rightarrow> pipe \<Rightarrow> pipe" where
  "notifyDelivered c st =
     (let done = map fst (filter (\<lambda>(r, s). s = Sent) (inFlight st))
      in case onDelivered c of
           None \<Rightarrow> st
         | Some callback \<Rightarrow>
             if done = [] then st
             else let st = st\<lparr>deliveries := deliveries st @ [done]\<rparr>
                  in do_calls (notifyFailure c) c (callback st done) st)"

section \<open>The end of a delivery\<close>

definition for_batch :: "(nat \<Rightarrow> pipe \<Rightarrow> pipe) \<Rightarrow> pipe \<Rightarrow> pipe" where
  "for_batch f st = foldl (\<lambda>st k. f k st) st [0 ..< length (inFlight st)]"

text \<open>The \<open>Map\<close> of rejected records keeps the last detail given for an identifier.\<close>

definition judge :: "options \<Rightarrow> (string \<times> string option) list \<Rightarrow> string list \<Rightarrow> nat \<Rightarrow> pipe \<Rightarrow> pipe" where
  "judge c rej unk k st =
     (let i = rid (fst (inFlight st ! k))
      in case map_of (rev rej) i of
           Some det \<Rightarrow> fail c Dropped Rejected False det k st
         | None \<Rightarrow>
             if i \<in> set unk then fail c Unknown Inconclusive True None k st else markSent k st)"

fun apply_result :: "options \<Rightarrow> batch_result \<Rightarrow> pipe \<Rightarrow> pipe" where
  "apply_result c (Accepted rej unk) st = notifyDelivered c (for_batch (judge c rej unk) st)"
| "apply_result c (RetryableFailure det) st =
     for_batch (fail c Dropped Sink_failure True det) st"
| "apply_result c (PermanentFailure det) st =
     for_batch (fail c Dropped Sink_failure False det) st"
| "apply_result c Closed_result st = for_batch (fail c Dropped Sink_closed True None) st"

definition some_in_flight :: "pipe \<Rightarrow> bool" where
  "some_in_flight st \<longleftrightarrow> list_ex (\<lambda>(r, s). s = In_flight) (inFlight st)"

text \<open>
  \<open>#deliver\<close> after its \<open>await\<close>. An answer that is an object counts as a batch if some record
  is still in flight; whatever the answer leaves in flight ends unknown.
\<close>

definition take_answer :: "options \<Rightarrow> answer \<Rightarrow> pipe \<Rightarrow> pipe" where
  "take_answer c a st =
     (case a of
        NotAnObject \<Rightarrow> st
      | Threw _ \<Rightarrow> st
      | _ \<Rightarrow>
          if some_in_flight st
          then let st = st\<lparr>batches := batches st + 1\<rparr>
               in (case a of Answered r \<Rightarrow> apply_result c r st | _ \<Rightarrow> st)
          else st)"

definition finish_deliver :: "options \<Rightarrow> answer \<Rightarrow> pipe \<Rightarrow> pipe" where
  "finish_deliver c a st =
     (for_batch (fail c Unknown Inconclusive True None) (take_answer c a st))
       \<lparr>inFlight := [], phase := AwaitRun\<rparr>"

section \<open>Shutdown\<close>

definition drop_queued :: "options \<Rightarrow> jsval \<Rightarrow> pipe \<Rightarrow> pipe" where
  "drop_queued c r st =
     notifyFailure c \<lparr>failedRecord = r, fdisposition = Dropped, freason = Shutdown,
                      retryable = True, detail = None\<rparr>
       (st\<lparr>dropped := dropped st + 1, fates := fates st @ [(r, Failed Dropped)]\<rparr>)"

definition abandonOutstanding :: "options \<Rightarrow> pipe \<Rightarrow> pipe" where
  "abandonOutstanding c st =
     for_batch (fail c Unknown Shutdown True None)
       (foldl (\<lambda>st r. drop_queued c r st) (st\<lparr>queue := []\<rparr>) (queue st))"

text \<open>The \<open>finally\<close> of \<open>#stop\<close>, up to its first \<open>await\<close>.\<close>

definition abandon :: "options \<Rightarrow> pipe \<Rightarrow> pipe" where
  "abandon c st =
     abandonOutstanding c (st\<lparr>lingerArmed := False, aborted := True, stopping := Abandoned\<rparr>)"

text \<open>The end of \<open>#stop\<close>: an owned sink is closed, once the callbacks had their time.\<close>

definition close_sink :: "options \<Rightarrow> pipe \<Rightarrow> pipe" where
  "close_sink c st = (if ownsSink c then st\<lparr>sinkClosed := True\<rparr> else st)"

section \<open>Runs\<close>

datatype event =
    Submit jsval
  | Report jsval
  | Flush nat
  | Stop nat
  | Linger
  | Answer answer
  | Resume
  | EndDrain nat
  | Abandon
  | CloseSink

text \<open>Which events can happen: a call at any time, a timer when armed, a continuation when due.\<close>

fun enabled :: "event \<Rightarrow> pipe \<Rightarrow> bool" where
  "enabled (Submit r) st = True"
| "enabled (Report r) st = True"
| "enabled (Flush i) st = fresh i st"
| "enabled (Stop i) st = fresh i st"
| "enabled Linger st = lingerArmed st"
| "enabled (Answer a) st = (phase st = AwaitSink)"
| "enabled Resume st = (phase st = AwaitRun)"
| "enabled (EndDrain i) st = (i \<in> set (draining st))"
| "enabled Abandon st =
     (case stopping st of Stopping i \<Rightarrow> i \<notin> set (draining st) | _ \<Rightarrow> False)"
| "enabled CloseSink st = (stopping st = Abandoned)"

fun perform :: "options \<Rightarrow> event \<Rightarrow> pipe \<Rightarrow> pipe" where
  "perform c (Submit r) st = submit c r st"
| "perform c (Report r) st = reportInvalid c r st"
| "perform c (Flush i) st = flush c i st"
| "perform c (Stop i) st = stop c i st"
| "perform c Linger st = run c (st\<lparr>lingerHandle := False, lingerArmed := False\<rparr>)"
| "perform c (Answer a) st = finish_deliver c a st"
| "perform c Resume st = resume c st"
| "perform c (EndDrain i) st = end_drain i st"
| "perform c Abandon st = abandon c st"
| "perform c CloseSink st = close_sink c st"

inductive step :: "options \<Rightarrow> pipe \<Rightarrow> event \<Rightarrow> pipe \<Rightarrow> bool" for c where
  step: "enabled e st \<Longrightarrow> step c st e (perform c e st)"

inductive reachable :: "options \<Rightarrow> pipe \<Rightarrow> bool" for c where
  start: "reachable c initial"
| move: "reachable c st \<Longrightarrow> step c st e st' \<Longrightarrow> reachable c st'"

inductive_cases stepE: "step c st e st'"

inductive_simps step_iff: "step c st e st'"

end
