(* ===== verification/Delivery.thy ===== *)
theory Delivery
  imports Pipeline
begin

text \<open>
  The invariants of the delivery pipeline over every reachable state: the ledger of records,
  the counters, the bounds, the order of delivery, and that a resting pipeline with work left
  has an armed timer.
\<close>

section \<open>The invariant\<close>

definition in_flight_records :: "pipe \<Rightarrow> jsval list" where
  "in_flight_records st = map fst (filter (\<lambda>i. snd i = In_flight) (inFlight st))"

text \<open>Every record submitted is settled, queued, in flight, or in the multiset \<open>L\<close>.\<close>

definition ledger :: "jsval multiset \<Rightarrow> pipe \<Rightarrow> bool" where
  "ledger L st \<longleftrightarrow>
     mset (arrivals st) =
       mset (map fst (fates st)) + mset (queue st) + mset (in_flight_records st) + L"

definition tally :: "item_state \<Rightarrow> pipe \<Rightarrow> nat" where
  "tally s st = length (filter (\<lambda>f. snd f = s) (fates st))"

definition counted :: "pipe \<Rightarrow> bool" where
  "counted st \<longleftrightarrow>
     submitted st = length (arrivals st) \<and> sent st = tally Sent st \<and>
     dropped st = tally (Failed Dropped) st \<and> unknown st = tally (Failed Unknown) st \<and>
     (\<forall>f \<in> set (fates st). snd f \<noteq> In_flight)"

definition bounded :: "options \<Rightarrow> pipe \<Rightarrow> bool" where
  "bounded c st \<longleftrightarrow>
     1 \<le> batchMaxSize c \<and> depth st \<le> maxQueueSize c \<and>
     (if phase st = AwaitSink then inFlight st \<noteq> [] \<and> length (inFlight st) \<le> batchMaxSize c
      else inFlight st = []) \<and>
     (\<forall>b \<in> set (handed st). b \<noteq> [] \<and> length b \<le> batchMaxSize c)"

definition ordered :: "pipe \<Rightarrow> bool" where
  "ordered st \<longleftrightarrow> subseq (concat (handed st) @ queue st) (arrivals st)"

definition timed :: "pipe \<Rightarrow> bool" where
  "timed st \<longleftrightarrow>
     drainers st = length (draining st) \<and> (lingerHandle st \<longrightarrow> lingerArmed st \<or> stopped st) \<and>
     (stopping st \<noteq> Running \<longrightarrow> stopped st) \<and>
     set (draining st) \<subseteq> set (resolved st) \<union> set (waiters st)"

definition core :: "jsval multiset \<Rightarrow> options \<Rightarrow> pipe \<Rightarrow> bool" where
  "core L c st \<longleftrightarrow> ledger L st \<and> counted st \<and> bounded c st \<and> ordered st \<and> timed st"

definition resting :: "options \<Rightarrow> pipe \<Rightarrow> bool" where
  "resting c st \<longleftrightarrow>
     (phase st = Idle \<longrightarrow>
        (if queue st = [] then waiters st = [] else lingerArmed st \<and> \<not> batchDue c st))"

definition sound :: "jsval multiset \<Rightarrow> options \<Rightarrow> pipe \<Rightarrow> bool" where
  "sound L c st \<longleftrightarrow> core L c st \<and> resting c st"

text \<open>
  How a piece of the program changes the state while a batch is with the sink: terminal
  states are only ever added, and the batch keeps its records, whose states only move up.
\<close>

definition item_le :: "item \<Rightarrow> item \<Rightarrow> bool" where
  "item_le i j \<longleftrightarrow> fst i = fst j \<and> snd i \<le> snd j"

definition evolves :: "pipe \<Rightarrow> pipe \<Rightarrow> bool" where
  "evolves st st' \<longleftrightarrow>
     (\<exists>xs. fates st' = fates st @ xs) \<and>
     (phase st = AwaitSink \<longrightarrow>
        phase st' = AwaitSink \<and> list_all2 item_le (inFlight st) (inFlight st') \<and>
        handed st' = handed st)"

lemmas sound_defs = sound_def core_def ledger_def counted_def bounded_def ordered_def timed_def
  resting_def in_flight_records_def tally_def depth_def

lemma evolves_refl [simp]: "evolves st st"
  by (simp add: evolves_def item_le_def list_all2_refl)

lemma evolves_trans:
  assumes "evolves a b" "evolves b c"
  shows "evolves a c"
proof -
  have "list_all2 item_le x z" if "list_all2 item_le x y" "list_all2 item_le y z" for x y z
    using that by (rule list_all2_trans [rotated]) (auto simp: item_le_def)
  with assms show ?thesis by (fastforce simp: evolves_def)
qed

section \<open>Scheduling\<close>

lemmas deliver_batch_eq = deliver_batch_def [unfolded Let_def]

lemma deliver_batch_core:
  assumes "core L c st" "phase st \<noteq> AwaitSink" "queue st \<noteq> []"
  shows "core L c (deliver_batch c st)"
proof -
  let ?n = "batchMaxSize c" and ?st = "deliver_batch c st"
  have none: "inFlight st = []" using assms by (auto simp: core_def bounded_def)
  have new: "in_flight_records ?st = take ?n (queue st)" "in_flight_records st = []"
    by (simp_all add: deliver_batch_eq in_flight_records_def none o_def)
  have split: "mset (queue st) = mset (take ?n (queue st)) + mset (drop ?n (queue st))"
    by (metis append_take_drop_id mset_append)
  have "ledger L ?st"
    using assms(1) new split
    by (simp add: core_def ledger_def deliver_batch_eq ac_simps)
  moreover have "counted ?st" "timed ?st" "ordered ?st"
    using assms(1) by (simp_all add: core_def counted_def tally_def timed_def ordered_def
        deliver_batch_eq)
  moreover have "bounded c ?st"
    using assms none by (auto simp: core_def bounded_def deliver_batch_eq depth_def)
  ultimately show ?thesis by (simp add: core_def)
qed

lemma deliver_batch_sound:
  assumes "core L c st" "phase st \<noteq> AwaitSink" "queue st \<noteq> []"
  shows "sound L c (deliver_batch c st)"
  using deliver_batch_core [OF assms] by (simp add: sound_def resting_def deliver_batch_eq)

lemma core_timer:
  "core L c st \<Longrightarrow> core L c (st\<lparr>lingerHandle := False, lingerArmed := False\<rparr>)"
  "core L c st \<Longrightarrow> core L c (st\<lparr>lingerHandle := True, lingerArmed := True\<rparr>)"
  by (simp_all add: sound_defs)

lemma core_wake: "core L c st \<Longrightarrow> core L c (wake st)"
  by (auto simp: sound_defs wake_def)

lemma run_sound:
  assumes "core L c st" "phase st = Idle"
  shows "sound L c (run c st)"
proof (cases "queue st = []")
  case True
  then show ?thesis
    using core_wake [OF core_timer(1) [OF assms(1)]] assms(2)
    by (simp add: run_def sound_def resting_def wake_def)
next
  case False
  then show ?thesis
    using deliver_batch_sound [OF core_timer(1) [OF assms(1)]] assms(2) by (simp add: run_def)
qed

lemma schedule_sound:
  assumes "core L c st" "phase st = Idle \<and> queue st = [] \<longrightarrow> waiters st = []"
  shows "sound L c (schedule c st)"
proof (cases "phase st = Idle \<and> queue st \<noteq> [] \<and> \<not> batchDue c st")
  case True
  then have "\<not> stopped st" by (simp add: batchDue_def)
  with True assms(1) core_timer(2) [OF assms(1)] show ?thesis
    by (auto simp: schedule_def sound_def resting_def batchDue_def core_def timed_def)
next
  case False
  with assms run_sound [OF assms(1)] show ?thesis
    by (auto simp: schedule_def sound_def resting_def)
qed

lemma schedule_evolves: "evolves st (schedule c st)"
  by (auto simp: schedule_def run_def wake_def deliver_batch_eq evolves_def Let_def item_le_def
      list_all2_refl)

lemma core_weak: "sound L c st \<Longrightarrow> core L c st"
  by (simp add: sound_def)

lemma resting_idle: "sound L c st \<Longrightarrow> phase st = Idle \<and> queue st = [] \<longrightarrow> waiters st = []"
  by (simp add: sound_def resting_def)

lemma schedule_drainers [simp]:
  "drainers (schedule c st) = drainers st" "draining (schedule c st) = draining st"
  "stopped (schedule c st) = stopped st" "stopping (schedule c st) = stopping st"
  by (auto simp: schedule_def run_def wake_def deliver_batch_eq Let_def)

text \<open>The state of a drain that is registered but not yet waiting.\<close>

lemma drain_sound:
  assumes "sound L c st" "i \<notin> set (draining st)"
  shows "sound L c (drain c i st)"
proof -
  let ?st = "st\<lparr>drainers := drainers st + 1, draining := i # draining st, resolved := i # resolved st\<rparr>"
  have "core L c ?st" using assms by (auto simp: sound_defs)
  then have s: "sound L c (schedule c ?st)"
    using resting_idle [OF assms(1)] by (intro schedule_sound) auto
  have "schedule c ?st = (schedule c (st\<lparr>drainers := drainers st + 1, draining := i # draining st\<rparr>))
      \<lparr>resolved := i # resolved (schedule c (st\<lparr>drainers := drainers st + 1, draining := i # draining st\<rparr>))\<rparr>"
    by (auto simp: schedule_def run_def wake_def deliver_batch_eq batchDue_def Let_def)
  then obtain st2 where st2: "schedule c (st\<lparr>drainers := drainers st + 1, draining := i # draining st\<rparr>) = st2"
    and s2: "sound L c (st2\<lparr>resolved := i # resolved st2\<rparr>)"
    using s by metis
  have "0 < drainers st2" using st2 by auto
  then have idle: "phase st2 = Idle \<Longrightarrow> queue st2 = []"
    using s2 by (auto simp: sound_def resting_def batchDue_def split: if_splits)
  show ?thesis
  proof (cases "phase st2 = Idle \<and> queue st2 = []")
    case True
    then have "sound L c (st2\<lparr>resolved := resolved st2 @ [i]\<rparr>)"
      using s2 by (auto simp: sound_defs batchDue_def)
    with True show ?thesis unfolding drain_def Let_def st2 by simp
  next
    case False
    with idle have "sound L c (st2\<lparr>waiters := waiters st2 @ [i]\<rparr>)"
      using s2 by (auto simp: sound_defs batchDue_def)
    with False show ?thesis unfolding drain_def Let_def st2 by auto
  qed
qed

lemma stop_sound:
  assumes "sound L c st" "i \<notin> set (draining st)"
  shows "sound L c (stop c i st)"
proof (cases "stopping st = Running")
  case True
  let ?st = "st\<lparr>stopping := Stopping i, stopped := True\<rparr>"
  show ?thesis
  proof (cases "phase st = Idle \<and> queue st \<noteq> []")
    case False
    then have "sound L c ?st" using assms by (auto simp: sound_defs batchDue_def)
    from drain_sound [OF this, of i] assms True show ?thesis by (simp add: stop_def)
  next
    case busy: True
    let ?d = "st\<lparr>stopping := Stopping i, stopped := True, drainers := drainers st + 1,
        draining := i # draining st\<rparr>"
    have q: "queue ?d \<noteq> []" "phase ?d \<noteq> AwaitSink" "phase ?d = Idle" "batchDue c ?d"
      using busy by (auto simp: batchDue_def)
    have b: "1 \<le> batchMaxSize c" using assms(1) by (simp add: sound_defs)
    have "core L c (?d\<lparr>resolved := i # resolved st, lingerHandle := False, lingerArmed := False\<rparr>)"
      using assms by (auto simp: sound_defs)
    from deliver_batch_sound [OF this] busy
    have "sound L c (deliver_batch c (?d\<lparr>resolved := i # resolved st, lingerHandle := False, lingerArmed := False\<rparr>))"
      by simp
    then have "sound L c ((deliver_batch c (?d\<lparr>lingerHandle := False, lingerArmed := False\<rparr>))
        \<lparr>waiters := waiters st @ [i]\<rparr>)"
      by (auto simp: sound_defs deliver_batch_eq)
    moreover have "stop c i st = (deliver_batch c (?d\<lparr>lingerHandle := False, lingerArmed := False\<rparr>))
        \<lparr>waiters := waiters st @ [i]\<rparr>"
      using q busy True by (simp add: stop_def drain_def schedule_def run_def Let_def deliver_batch_eq)
    ultimately show ?thesis by simp
  qed
qed (use assms in \<open>simp add: stop_def\<close>)

lemma drain_evolves: "evolves st (drain c i st)"
proof -
  have "evolves (st\<lparr>drainers := drainers st + 1, draining := i # draining st\<rparr>)
      (schedule c (st\<lparr>drainers := drainers st + 1, draining := i # draining st\<rparr>))"
    by (rule schedule_evolves)
  then show ?thesis by (auto simp: drain_def Let_def evolves_def)
qed

lemma stop_evolves: "evolves st (stop c i st)"
proof -
  have "evolves (st\<lparr>stopping := Stopping i, stopped := True\<rparr>)
      (drain c i (st\<lparr>stopping := Stopping i, stopped := True\<rparr>))"
    by (rule drain_evolves)
  then have "evolves st (drain c i (st\<lparr>stopping := Stopping i, stopped := True\<rparr>))"
    by (simp add: evolves_def)
  then show ?thesis by (simp add: stop_def)
qed

section \<open>Submitting and reporting\<close>

lemma submit_with_sound:
  assumes notify: "\<And>f st. sound L c st \<Longrightarrow> sound L c (notify f st)"
    and "sound L c st"
  shows "sound L c (submit_with notify c r st)"
proof -
  let ?st = "st\<lparr>submitted := submitted st + 1, arrivals := arrivals st @ [r]\<rparr>"
  show ?thesis
  proof (cases "maxQueueSize c \<le> depth ?st")
    case True
    have "sound L c (?st\<lparr>dropped := dropped ?st + 1, fates := fates ?st @ [(r, Failed Dropped)]\<rparr>)"
      using assms(2) by (auto simp: sound_defs batchDue_def intro: subseq_rev_drop_many)
    with notify True show ?thesis by (simp add: submit_with_def)
  next
    case False
    then have "core L c (?st\<lparr>queue := queue ?st @ [r]\<rparr>)"
      using assms(2) by (auto simp: sound_defs subseq_append' simp flip: append_assoc)
    from schedule_sound [OF this] False show ?thesis by (simp add: submit_with_def)
  qed
qed

lemma submit_with_evolves:
  assumes "\<And>f st. evolves st (notify f st)"
  shows "evolves st (submit_with notify c r st)"
proof -
  let ?st = "st\<lparr>submitted := submitted st + 1, arrivals := arrivals st @ [r]\<rparr>"
  have "evolves st (?st\<lparr>dropped := dropped ?st + 1, fates := fates ?st @ [(r, Failed Dropped)]\<rparr>)"
    "evolves st (?st\<lparr>queue := queue ?st @ [r]\<rparr>)"
    by (auto simp: evolves_def item_le_def list_all2_refl)
  then show ?thesis
    unfolding submit_with_def Let_def
    by (auto intro: evolves_trans assms schedule_evolves)
qed

lemma fresh_new_drain: "fresh (new_drain st) st"
proof -
  have "i \<noteq> new_drain st" if "i \<in> set (draining st @ resolved st @ waiters st)" for i
    using member_le_sum_list [OF that] by (simp add: new_drain_def)
  then show ?thesis by (fastforce simp: fresh_def)
qed

lemma do_call_sound:
  assumes "\<And>f st. sound L c st \<Longrightarrow> sound L c (notify f st)" "sound L c st"
  shows "sound L c (do_call notify c x st)"
  using assms(2) fresh_new_drain [of st]
  by (cases x) (auto simp: fresh_def flush_def assms(1)
      intro: submit_with_sound [OF assms(1)] drain_sound stop_sound)

lemma do_call_evolves:
  assumes "\<And>f st. evolves st (notify f st)"
  shows "evolves st (do_call notify c x st)"
  by (cases x) (auto simp: flush_def assms
      intro: submit_with_evolves [OF assms] drain_evolves stop_evolves)

lemma do_calls_sound:
  assumes "\<And>f st. sound L c st \<Longrightarrow> sound L c (notify f st)" "sound L c st"
  shows "sound L c (do_calls notify c xs st)"
  using assms(2) unfolding do_calls_def
proof (induction xs arbitrary: st)
  case (Cons x xs)
  from Cons.IH [OF do_call_sound [OF assms(1) Cons.prems]] show ?case by simp
qed simp

lemma do_calls_evolves:
  assumes "\<And>f st. evolves st (notify f st)"
  shows "evolves st (do_calls notify c xs st)"
  unfolding do_calls_def
proof (induction xs arbitrary: st)
  case (Cons x xs)
  from evolves_trans [OF do_call_evolves [OF assms] Cons.IH] show ?case by simp
qed simp

lemma sound_notifying: "sound L c (st\<lparr>notifying := b\<rparr>) = sound L c st"
  by (simp add: sound_defs batchDue_def)

lemma sound_failures: "sound L c (st\<lparr>failures := fs\<rparr>) = sound L c st"
  by (simp add: sound_defs batchDue_def)

lemma notifyFailure_sound:
  assumes "sound L c st"
  shows "sound L c (notifyFailure c f st)"
proof -
  have "sound L c (do_calls (\<lambda>_ st. st) c rs (st\<lparr>notifying := True, failures := fs\<rparr>))" for rs fs
  proof (rule do_calls_sound)
    have "sound L c ((st\<lparr>notifying := True\<rparr>)\<lparr>failures := fs\<rparr>)"
      using assms by (simp only: sound_notifying sound_failures)
    then show "sound L c (st\<lparr>notifying := True, failures := fs\<rparr>)" by simp
  qed
  with assms show ?thesis
    by (auto simp: notifyFailure_def Let_def sound_notifying split: option.splits)
qed

lemma notifyFailure_evolves: "evolves st (notifyFailure c f st)"
proof -
  have "evolves st (do_calls (\<lambda>_ st. st) c rs (st\<lparr>notifying := True, failures := fs\<rparr>))" for rs fs
    by (rule evolves_trans [OF _ do_calls_evolves])
      (auto simp: evolves_def item_le_def list_all2_refl)
  then have "evolves st ((do_calls (\<lambda>_ st. st) c rs (st\<lparr>notifying := True, failures := fs\<rparr>))
      \<lparr>notifying := False\<rparr>)" for rs fs
    by (simp add: evolves_def)
  then show ?thesis
    by (auto simp: notifyFailure_def Let_def split: option.splits)
qed

section \<open>Settling a record\<close>

lemma still_split:
  assumes "still k st"
  obtains us r vs where "inFlight st = us @ (r, In_flight) # vs" "k = length us"
    "fst (inFlight st ! k) = r"
proof -
  have "k < length (inFlight st)" "inFlight st ! k = (fst (inFlight st ! k), In_flight)"
    using assms by (simp_all add: still_def prod_eq_iff)
  then have "inFlight st = take k (inFlight st) @ (fst (inFlight st ! k), In_flight) # drop (Suc k) (inFlight st)"
    using id_take_nth_drop [of k "inFlight st"] by simp
  from that [OF this] \<open>k < length (inFlight st)\<close> show thesis by simp
qed

lemma sound_flying: "sound L c st \<Longrightarrow> still k st \<Longrightarrow> phase st = AwaitSink"
  by (cases "phase st = AwaitSink") (auto simp: sound_defs still_def)

text \<open>The counter that goes with a terminal state.\<close>

definition count :: "item_state \<Rightarrow> pipe \<Rightarrow> pipe" where
  "count s st =
     (case s of Sent \<Rightarrow> st\<lparr>sent := sent st + 1\<rparr>
      | Failed Dropped \<Rightarrow> st\<lparr>dropped := dropped st + 1\<rparr>
      | Failed Unknown \<Rightarrow> st\<lparr>unknown := unknown st + 1\<rparr>
      | In_flight \<Rightarrow> st)"

lemma settle_sound:
  assumes "sound L c st" "still k st" "s \<noteq> In_flight"
  shows "sound L c (count s (settle k s st))"
proof -
  obtain us r vs where i: "inFlight st = us @ (r, In_flight) # vs" "k = length us"
    using assms(2) by (rule still_split)
  have p: "phase st = AwaitSink" using sound_flying [OF assms(1,2)] .
  show ?thesis
    using assms(1,3) i p
    by (cases s rule: item_state.exhaust; cases "case s of Failed d \<Rightarrow> d | _ \<Rightarrow> Dropped")
      (auto simp: sound_defs settle_def count_def batchDue_def)
qed

lemma settle_evolves:
  assumes "still k st"
  shows "evolves st (count s (settle k s st))"
proof -
  obtain us r vs where i: "inFlight st = us @ (r, In_flight) # vs" "k = length us"
    using assms by (rule still_split)
  have "list_all2 item_le xs xs" for xs by (simp add: item_le_def list_all2_refl)
  with i show ?thesis
    by (auto simp: evolves_def settle_def count_def item_le_def less_eq_item_state_def
        list_all2_appendI split: item_state.splits disposition.splits)
qed

lemma fail_eq:
  "fail c d why retry det k st =
     (if \<not> still k st then st
      else notifyFailure c \<lparr>failedRecord = fst (inFlight st ! k), fdisposition = d, freason = why,
             retryable = retry, detail = det\<rparr> (count (Failed d) (settle k (Failed d) st)))"
  by (auto simp: fail_def Let_def count_def split: disposition.splits)

lemma markSent_eq: "markSent k st = (if \<not> still k st then st else count Sent (settle k Sent st))"
  by (simp add: markSent_def count_def Let_def)

lemma fail_sound: "sound L c st \<Longrightarrow> sound L c (fail c d why retry det k st)"
  by (auto simp: fail_eq intro!: notifyFailure_sound settle_sound)

lemma fail_evolves: "evolves st (fail c d why retry det k st)"
  by (auto simp: fail_eq intro: evolves_trans settle_evolves notifyFailure_evolves)

lemma markSent_sound: "sound L c st \<Longrightarrow> sound L c (markSent k st)"
  by (auto simp: markSent_eq intro!: settle_sound)

lemma markSent_evolves: "evolves st (markSent k st)"
  by (auto simp: markSent_eq intro: settle_evolves)

text \<open>What is settled stays settled, and \<open>fail\<close> and \<open>judge\<close> settle the record they are given.\<close>

lemma evolves_still:
  assumes "evolves st st'" "phase st = AwaitSink" "\<not> still k st"
  shows "\<not> still k st'"
  using assms by (auto simp: evolves_def still_def item_le_def less_eq_item_state_def
      list_all2_conv_all_nth)

lemma settle_still: "s \<noteq> In_flight \<Longrightarrow> \<not> still k (count s (settle k s st))"
  by (auto simp: still_def settle_def count_def not_less
      split: item_state.splits disposition.splits)

lemma settle_phase [simp]: "phase (count s (settle k s st)) = phase st"
  by (auto simp: settle_def count_def split: item_state.splits disposition.splits)

lemma fail_settles: "phase st = AwaitSink \<Longrightarrow> \<not> still k (fail c d why retry det k st)"
  using evolves_still [OF notifyFailure_evolves, of "count (Failed d) (settle k (Failed d) st)" k c]
    settle_still [of "Failed d" k st]
  by (simp add: fail_eq)

lemma judge_sound: "sound L c st \<Longrightarrow> sound L c (judge c rej unk k st)"
  by (auto simp: judge_def Let_def fail_sound markSent_sound split: option.splits)

lemma judge_evolves: "evolves st (judge c rej unk k st)"
  by (auto simp: judge_def Let_def fail_evolves markSent_evolves split: option.splits)

section \<open>Loops over the batch\<close>

lemma for_batch_sound:
  assumes "\<And>k st. sound L c st \<Longrightarrow> sound L c (f k st)" "sound L c st"
  shows "sound L c (for_batch f st)"
proof -
  have "sound L c (foldl (\<lambda>st k. f k st) st ks)" if "sound L c st" for ks st
    using that by (induction ks arbitrary: st) (simp_all add: assms(1))
  with assms(2) show ?thesis by (simp add: for_batch_def)
qed

lemma fold_evolves:
  assumes "\<And>k st. evolves st (f k st)"
  shows "evolves st (foldl (\<lambda>st k. f k st) st ks)"
proof (induction ks arbitrary: st)
  case (Cons k ks)
  from evolves_trans [OF assms Cons.IH] show ?case by simp
qed simp

lemma for_batch_evolves: "(\<And>k st. evolves st (f k st)) \<Longrightarrow> evolves st (for_batch f st)"
  unfolding for_batch_def by (rule fold_evolves)

lemma evolves_phase: "evolves st st' \<Longrightarrow> phase st = AwaitSink \<Longrightarrow> phase st' = AwaitSink"
  by (simp add: evolves_def)

lemma evolves_length: "evolves st st' \<Longrightarrow> phase st = AwaitSink \<Longrightarrow> length (inFlight st') = length (inFlight st)"
  by (auto simp: evolves_def dest: list_all2_lengthD)

lemma for_batch_settles:
  assumes settles: "\<And>k st. phase st = AwaitSink \<Longrightarrow> \<not> still k (f k st)"
    and evolves: "\<And>k st. evolves st (f k st)"
    and "phase st = AwaitSink"
  shows "in_flight_records (for_batch f st) = []"
proof -
  have all: "\<forall>k \<in> set ks. \<not> still k (foldl (\<lambda>st k. f k st) st ks)" if "phase st = AwaitSink" for ks st
    using that
  proof (induction ks arbitrary: st)
    case (Cons k ks)
    have p: "phase (f k st) = AwaitSink" by (rule evolves_phase [OF evolves Cons.prems])
    moreover have "\<not> still k (foldl (\<lambda>st k. f k st) (f k st) ks)"
      by (rule evolves_still [OF fold_evolves [OF evolves] p settles [OF Cons.prems]])
    ultimately show ?case using Cons.IH [OF p] by simp
  qed simp
  have len: "length (inFlight (for_batch f st)) = length (inFlight st)"
    by (rule evolves_length [OF for_batch_evolves [OF evolves] assms(3)])
  have "snd i \<noteq> In_flight" if "i \<in> set (inFlight (for_batch f st))" for i
  proof -
    from that obtain k where "k < length (inFlight (for_batch f st))" "i = inFlight (for_batch f st) ! k"
      by (auto simp: in_set_conv_nth)
    with all [OF assms(3), of "[0..<length (inFlight st)]"] len show ?thesis
      by (auto simp: still_def for_batch_def)
  qed
  then show ?thesis by (simp add: in_flight_records_def filter_empty_conv)
qed

section \<open>The end of a delivery\<close>

lemma notifyDelivered_sound:
  assumes "sound L c st"
  shows "sound L c (notifyDelivered c st)"
proof -
  have "sound L c (st\<lparr>deliveries := ds\<rparr>)" for ds
    using assms by (auto simp: sound_defs batchDue_def)
  from do_calls_sound [OF notifyFailure_sound this] assms show ?thesis
    by (auto simp: notifyDelivered_def Let_def split: option.splits)
qed

lemma notifyDelivered_evolves: "evolves st (notifyDelivered c st)"
proof -
  have "evolves st (st\<lparr>deliveries := ds\<rparr>)" for ds
    by (simp add: evolves_def item_le_def list_all2_refl)
  from evolves_trans [OF this do_calls_evolves [OF notifyFailure_evolves]] show ?thesis
    by (auto simp: notifyDelivered_def Let_def split: option.splits)
qed

lemma apply_result_sound: "sound L c st \<Longrightarrow> sound L c (apply_result c r st)"
  by (cases r) (auto intro!: notifyDelivered_sound for_batch_sound fail_sound judge_sound)

lemma apply_result_evolves: "evolves st (apply_result c r st)"
  by (cases r) (auto intro!: for_batch_evolves fail_evolves judge_evolves
      evolves_trans [OF for_batch_evolves notifyDelivered_evolves])

lemma take_answer_sound:
  assumes "sound L c st"
  shows "sound L c (take_answer c a st)"
proof -
  have "sound L c (st\<lparr>batches := n\<rparr>)" for n
    using assms by (auto simp: sound_defs batchDue_def)
  then show ?thesis
    using assms by (cases a) (auto simp: take_answer_def Let_def intro: apply_result_sound)
qed

lemma take_answer_evolves: "evolves st (take_answer c a st)"
proof -
  have "evolves st (st\<lparr>batches := n\<rparr>)" for n
    by (simp add: evolves_def item_le_def list_all2_refl)
  from this evolves_trans [OF this apply_result_evolves] show ?thesis
    by (cases a) (auto simp: take_answer_def Let_def)
qed

lemma finish_deliver_sound:
  assumes "sound L c st" "phase st = AwaitSink"
  shows "sound L c (finish_deliver c a st)"
proof -
  let ?st = "for_batch (fail c Unknown Inconclusive True None) (take_answer c a st)"
  have p: "phase (take_answer c a st) = AwaitSink"
    by (rule evolves_phase [OF take_answer_evolves assms(2)])
  have "in_flight_records ?st = []"
    by (rule for_batch_settles [OF fail_settles fail_evolves p])
  moreover have "sound L c ?st"
    by (intro for_batch_sound fail_sound take_answer_sound assms)
  ultimately show ?thesis
    by (auto simp: finish_deliver_def sound_defs)
qed

section \<open>Draining, stopping and the other events\<close>

lemma end_drain_sound:
  assumes "sound L c st" "i \<in> set (draining st)"
  shows "sound L c (end_drain i st)"
proof -
  have "set (remove1 i (draining st)) \<subseteq> set (draining st)" by (rule set_remove1_subset)
  with assms have "core L c (end_drain i st)"
    by (auto simp: sound_defs end_drain_def length_remove1)
  moreover have "resting c (end_drain i st)"
    using assms by (auto simp: sound_def resting_def end_drain_def batchDue_def split: if_splits)
  ultimately show ?thesis by (simp add: sound_def)
qed

lemma resume_sound:
  assumes "sound L c st" "phase st = AwaitRun"
  shows "sound L c (resume c st)"
proof -
  have core: "core L c st" "core L c (st\<lparr>phase := Idle\<rparr>)"
    using assms by (auto simp: sound_defs)
  show ?thesis
  proof (cases "batchDue c st \<and> queue st \<noteq> []")
    case True
    with deliver_batch_sound [OF core(1)] assms(2) show ?thesis by (simp add: resume_def)
  next
    case no_batch: False
    show ?thesis
    proof (cases "queue st = []")
      case True
      with core_wake [OF core(2)] show ?thesis
        by (simp add: resume_def sound_def resting_def wake_def)
    next
      case False
      with schedule_sound [OF core(2)] no_batch show ?thesis by (simp add: resume_def Let_def)
    qed
  qed
qed

lemma drop_queued_sound:
  assumes "sound (add_mset r L) c st"
  shows "sound L c (drop_queued c r st)"
proof -
  have "sound L c (st\<lparr>dropped := dropped st + 1, fates := fates st @ [(r, Failed Dropped)]\<rparr>)"
    using assms by (auto simp: sound_defs batchDue_def)
  then show ?thesis unfolding drop_queued_def by (rule notifyFailure_sound)
qed

lemma drop_all_sound:
  "sound (mset rs + L) c st \<Longrightarrow> sound L c (foldl (\<lambda>st r. drop_queued c r st) st rs)"
proof (induction rs arbitrary: st)
  case (Cons r rs)
  then show ?case using drop_queued_sound [of r "mset rs + L" c st] by simp
qed simp

lemma abandonOutstanding_sound:
  assumes "sound L c st" "stopped st"
  shows "sound L c (abandonOutstanding c st)"
proof -
  have "subseq (concat (handed st)) (arrivals st)"
    using assms(1) subseq_order.trans [OF subseq_rev_drop_many [OF subseq_order.order_refl]]
    by (auto simp: sound_defs)
  then have "sound (mset (queue st) + L) c (st\<lparr>queue := []\<rparr>)"
    using assms by (auto simp: sound_defs batchDue_def split: if_splits)
  then show ?thesis
    unfolding abandonOutstanding_def
    by (intro for_batch_sound fail_sound drop_all_sound)
qed

lemma abandon_sound:
  assumes "sound L c st" "stopped st"
  shows "sound L c (abandon c st)"
proof -
  have "sound L c (st\<lparr>lingerArmed := False, aborted := True, stopping := Abandoned\<rparr>)"
    using assms by (auto simp: sound_defs batchDue_def split: if_splits)
  from abandonOutstanding_sound [OF this] assms(2) show ?thesis by (simp add: abandon_def)
qed

lemma submit_sound: "sound L c st \<Longrightarrow> sound L c (submit c r st)"
  unfolding submit_def by (rule submit_with_sound [OF notifyFailure_sound])

lemma linger_sound:
  assumes "sound L c st" "lingerArmed st"
  shows "sound L c (run c (st\<lparr>lingerHandle := False, lingerArmed := False\<rparr>))"
proof (cases "phase st = Idle")
  case True
  with run_sound [OF core_timer(1) [OF core_weak [OF assms(1)]]] show ?thesis by simp
next
  case False
  with assms show ?thesis by (auto simp: run_def sound_defs batchDue_def)
qed

lemma close_sink_sound: "sound L c st \<Longrightarrow> sound L c (close_sink c st)"
  by (auto simp: close_sink_def sound_defs batchDue_def)

lemma step_sound:
  assumes "sound L c st" "step c st e st'"
  shows "sound L c st'"
proof -
  have stop: "stopped st" if "stopping st \<noteq> Running" using assms(1) that by (simp add: sound_defs)
  from assms(2) have "enabled e st" "st' = perform c e st" by (auto elim: stepE)
  then show ?thesis
    using assms(1) stop
    by (cases e) (auto simp: reportInvalid_def flush_def fresh_def intro: submit_sound notifyFailure_sound
        drain_sound stop_sound linger_sound finish_deliver_sound resume_sound end_drain_sound
        abandon_sound close_sink_sound split: stop_phase.splits)
qed

lemma initial_sound: "1 \<le> batchMaxSize c \<Longrightarrow> sound {#} c initial"
  by (simp add: sound_defs initial_def)

lemma reachable_sound:
  assumes "reachable c st" "1 \<le> batchMaxSize c"
  shows "sound {#} c st"
  using assms by (induction rule: reachable.induct) (auto intro: initial_sound step_sound)

end
