(* ===== verification/Outcomes.thy ===== *)
theory Outcomes
  imports Delivery
begin

text \<open>
  What the pipeline promises about the records it was given, over every reachable state and
  every step: conservation, finality, order, bounds, what an answer does to a batch, what a
  shutdown leaves behind, and that work left always has something to move it on.
\<close>

section \<open>Executable runs\<close>

fun exec :: "options \<Rightarrow> event list \<Rightarrow> pipe \<Rightarrow> pipe option" where
  "exec c [] st = Some st"
| "exec c (e # es) st = (if enabled e st then exec c es (perform c e st) else None)"

lemma exec_reachable: "exec c es st = Some st' \<Longrightarrow> reachable c st \<Longrightarrow> reachable c st'"
  by (induction es arbitrary: st) (auto split: if_splits intro: reachable.move step.step)

lemma exec_the: "exec c es initial \<noteq> None \<Longrightarrow> reachable c (the (exec c es initial))"
  by (cases "exec c es initial") (auto intro: exec_reachable [OF _ reachable.start])

definition sample_options :: options where
  "sample_options = \<lparr>maxQueueSize = 3, batchMaxSize = 2, ownsSink = True, onFailure = None,
     onDelivered = None\<rparr>"

definition sample :: "string \<Rightarrow> jsval" where
  "sample i = JObj [(''record_id'', JStr i)]"

definition sample_run :: "event list \<Rightarrow> pipe" where
  "sample_run es = the (exec sample_options es initial)"

lemma sample_reachable: "exec sample_options es initial \<noteq> None \<Longrightarrow> reachable sample_options (sample_run es)"
  unfolding sample_run_def by (rule exec_the)

lemma sample_batch: "1 \<le> batchMaxSize sample_options"
  by (simp add: sample_options_def)

section \<open>Conservation\<close>

lemma accounted:
  assumes "reachable c st" "1 \<le> batchMaxSize c"
  shows "mset (arrivals st) =
      mset (map fst (fates st)) + mset (queue st) + mset (in_flight_records st) \<and>
    submitted st = sent st + dropped st + unknown st + length (queue st) + length (in_flight_records st)"
proof -
  have s: "ledger {#} st" "counted st"
    using reachable_sound [OF assms] by (auto simp: sound_def core_def)
  have tally_sum: "length fs = length (filter (\<lambda>f. snd f = Sent) fs) +
      length (filter (\<lambda>f. snd f = Failed Dropped) fs) + length (filter (\<lambda>f. snd f = Failed Unknown) fs)"
    if "\<forall>f \<in> set fs. snd f \<noteq> In_flight" for fs :: "(jsval \<times> item_state) list"
    using that
  proof (induction fs)
    case (Cons f fs)
    moreover have "snd f = Sent \<or> snd f = Failed Dropped \<or> snd f = Failed Unknown"
      using Cons.prems by (cases "snd f") (auto intro: disposition.exhaust)
    ultimately show ?case by auto
  qed simp
  have m: "mset (arrivals st) =
      mset (map fst (fates st)) + mset (queue st) + mset (in_flight_records st)"
    using s by (simp add: ledger_def)
  then have "length (arrivals st) =
      length (fates st) + length (queue st) + length (in_flight_records st)"
    by (metis length_map size_mset size_union)
  with m s(2) tally_sum [of "fates st"] show ?thesis
    by (simp add: counted_def tally_def)
qed

text \<open>
  C2: Every record submitted is in exactly one place: it has reached its one terminal state,
  or it is queued, or it is in flight; and the counters say how many there are of each.
\<close>

theorem every_record_accounted:
  assumes "reachable c st" "1 \<le> batchMaxSize c"
  shows "mset (arrivals st) =
      mset (map fst (fates st)) + mset (queue st) + mset (in_flight_records st) \<and>
    submitted st = sent st + dropped st + unknown st + length (queue st) + length (in_flight_records st)"
  by (rule accounted [OF assms])

theorem every_record_accounted_witness:
  "let st = sample_run [Submit (sample ''a''), Submit (sample ''b''), Submit (sample ''c'')]
   in submitted st = sent st + dropped st + unknown st + length (queue st) + length (in_flight_records st)"
proof -
  have "reachable sample_options
      (sample_run [Submit (sample ''a''), Submit (sample ''b''), Submit (sample ''c'')])"
    by (rule sample_reachable) code_simp
  from every_record_accounted [OF this sample_batch] show ?thesis by (simp add: Let_def)
qed

section \<open>Finality\<close>

lemma settled_prefix: "evolves st st' \<Longrightarrow> prefix (fates st) (fates st')"
  by (auto simp: evolves_def)

lemma drop_queued_evolves: "evolves st (drop_queued c r st)"
proof -
  have "evolves st (st\<lparr>dropped := n, fates := fates st @ fs\<rparr>)" for n fs
    by (simp add: evolves_def item_le_def list_all2_refl)
  from evolves_trans [OF this notifyFailure_evolves] show ?thesis by (simp add: drop_queued_def)
qed

lemma abandonOutstanding_evolves: "evolves st (abandonOutstanding c st)"
proof -
  have "evolves st (st\<lparr>queue := []\<rparr>)" by (simp add: evolves_def item_le_def list_all2_refl)
  moreover have "evolves st (foldl (\<lambda>st r. drop_queued c r st) st rs)" for st rs
  proof (induction rs arbitrary: st)
    case (Cons r rs)
    from evolves_trans [OF drop_queued_evolves Cons.IH] show ?case by simp
  qed simp
  ultimately show ?thesis
    unfolding abandonOutstanding_def
    by (blast intro: evolves_trans for_batch_evolves fail_evolves)
qed

lemma evolves_update:
  "evolves (st\<lparr>lingerArmed := a, aborted := b, stopping := p\<rparr>) st' \<Longrightarrow> evolves st st'"
  "evolves (st\<lparr>lingerHandle := h, lingerArmed := a\<rparr>) st' \<Longrightarrow> evolves st st'"
  "evolves (st\<lparr>drainers := n, draining := ds\<rparr>) st' \<Longrightarrow> evolves st st'"
  "evolves (st\<lparr>stopping := p, stopped := a\<rparr>) st' \<Longrightarrow> evolves st st'"
  by (auto simp: evolves_def)

lemma submit_evolves: "evolves st (submit c r st)"
  unfolding submit_def by (rule submit_with_evolves [OF notifyFailure_evolves])

lemma run_evolves: "evolves st (run c st)"
  by (auto simp: run_def wake_def deliver_batch_eq evolves_def item_le_def list_all2_refl Let_def)

lemma finish_deliver_prefix: "prefix (fates st) (fates (finish_deliver c a st))"
  using settled_prefix [OF evolves_trans [OF take_answer_evolves
      for_batch_evolves [OF fail_evolves [of _ c Unknown Inconclusive True None]]]]
  by (simp add: finish_deliver_def)

lemma end_drain_evolves: "evolves st (end_drain i st)"
  by (simp add: end_drain_def evolves_def item_le_def list_all2_refl)

lemma close_sink_evolves: "evolves st (close_sink c st)"
  by (simp add: close_sink_def evolves_def item_le_def list_all2_refl)

text \<open>Every event but the sink's answer and the next round of the loop keeps the batch.\<close>

lemma step_evolves:
  assumes "step c st e st'" "\<And>a. e \<noteq> Answer a" "e \<noteq> Resume"
  shows "evolves st st'"
proof -
  from assms(1) have "st' = perform c e st" by (auto elim: stepE)
  then show ?thesis
    using assms(2,3)
    by (cases e) (auto simp: reportInvalid_def flush_def abandon_def
        intro: submit_evolves notifyFailure_evolves drain_evolves stop_evolves
        evolves_update(1) [OF abandonOutstanding_evolves] evolves_update(2) [OF run_evolves]
        end_drain_evolves close_sink_evolves)
qed

lemma resume_prefix: "fates (resume c st) = fates st"
  by (auto simp: resume_def schedule_def run_def wake_def deliver_batch_eq Let_def)

text \<open>
  A terminal state is final: no step changes or removes one, it can only add more. In
  particular a record reported unknown is never relabelled, whatever the sink answers later.
\<close>

theorem fates_final:
  assumes "step c st e st'"
  shows "prefix (fates st) (fates st')"
proof (cases "(\<exists>a. e = Answer a) \<or> e = Resume")
  case True
  with assms show ?thesis by (auto elim!: stepE simp: finish_deliver_prefix resume_prefix)
next
  case False
  with step_evolves [OF assms] settled_prefix show ?thesis by blast
qed

theorem fates_final_witness:
  "prefix (fates initial) (fates (perform sample_options (Submit (sample ''a'')) initial))"
  by (rule fates_final [OF step.step]) simp

section \<open>The counters a host reads\<close>

record delivery_stats =
  submitted_stat :: nat
  sent_stat :: nat
  dropped_stat :: nat
  unknown_stat :: nat
  batches_stat :: nat
  queueDepth :: nat
  queueCapacity :: nat

definition stats :: "options \<Rightarrow> pipe \<Rightarrow> delivery_stats" where
  "stats c st = \<lparr>submitted_stat = submitted st, sent_stat = sent st, dropped_stat = dropped st,
     unknown_stat = unknown st, batches_stat = batches st, queueDepth = depth st, queueCapacity = maxQueueSize c\<rparr>"

text \<open>
  The counters cover what was submitted, exactly when no batch is with the sink: its records count
  as queued until all of them are settled. The depth never exceeds the capacity.
\<close>

theorem stats_cover_submitted:
  assumes "reachable c st" "1 \<le> batchMaxSize c"
  shows "let s = stats c st in
    submitted_stat s \<le> sent_stat s + dropped_stat s + unknown_stat s + queueDepth s \<and>
    (inFlight st = [] \<longrightarrow> submitted_stat s = sent_stat s + dropped_stat s + unknown_stat s + queueDepth s) \<and>
    queueDepth s \<le> queueCapacity s"
proof -
  have "length (in_flight_records st) \<le> length (inFlight st)" by (simp add: in_flight_records_def)
  then show ?thesis
    using accounted [OF assms] reachable_sound [OF assms]
    by (auto simp: stats_def depth_def in_flight_records_def sound_def core_def bounded_def)
qed

section \<open>What the sink is promised\<close>

text \<open>
  C5: The sink is handed the records in the order they were submitted, each at most once, in
  batches that are never empty and never larger than \<open>batchMaxSize\<close>; and never more than
  \<open>maxQueueSize\<close> records are queued or in flight.
\<close>

theorem sink_promises:
  assumes "reachable c st" "1 \<le> batchMaxSize c"
  shows "list_all (\<lambda>b. b \<noteq> [] \<and> length b \<le> batchMaxSize c) (handed st) \<and>
    subseq (concat (handed st) @ queue st) (arrivals st) \<and>
    length (queue st) + length (inFlight st) \<le> maxQueueSize c"
  using reachable_sound [OF assms]
  by (simp add: sound_def core_def bounded_def ordered_def list_all_iff depth_def)

theorem sink_promises_witness:
  "let st = sample_run [Submit (sample ''a''), Submit (sample ''b''), Submit (sample ''c'')]
   in handed st = [[sample ''a'', sample ''b'']] \<and>
      subseq (concat (handed st) @ queue st) (arrivals st)"
proof -
  let ?es = "[Submit (sample ''a''), Submit (sample ''b''), Submit (sample ''c'')]"
  have "reachable sample_options (sample_run ?es)"
    by (rule sample_reachable) code_simp
  from sink_promises [OF this sample_batch]
  have "subseq (concat (handed (sample_run ?es)) @ queue (sample_run ?es)) (arrivals (sample_run ?es))"
    by simp
  moreover have "handed (sample_run ?es) = [[sample ''a'', sample ''b'']]" by code_simp
  ultimately show ?thesis by (simp add: Let_def)
qed

text \<open>While a batch is with the sink no step hands over another one.\<close>

theorem one_batch_at_a_time:
  assumes "step c st e st'" "phase st = AwaitSink"
  shows "handed st' = handed st"
proof (cases "\<exists>a. e = Answer a")
  case True
  then obtain a where "st' = finish_deliver c a st" using assms(1) by (auto elim: stepE)
  moreover have "evolves st (for_batch (fail c Unknown Inconclusive True None) (take_answer c a st))"
    by (rule evolves_trans [OF take_answer_evolves for_batch_evolves [OF fail_evolves]])
  ultimately show ?thesis using assms(2) by (simp add: finish_deliver_def evolves_def)
next
  case False
  moreover have "e \<noteq> Resume" using assms by (auto elim!: stepE)
  ultimately show ?thesis
    using step_evolves [OF assms(1)] assms(2) by (auto simp: evolves_def)
qed

theorem one_batch_at_a_time_witness:
  "let st = sample_run [Submit (sample ''a''), Submit (sample ''b'')]
   in handed (perform sample_options (Submit (sample ''c'')) st) = handed st"
  unfolding Let_def
  by (rule one_batch_at_a_time [OF step.step], simp, code_simp)

text \<open>
  C6: No record is stranded: whenever records are queued or in flight, the linger timer is
  armed, or the sink owes an answer, or the delivery loop is about to go on.
\<close>

theorem work_moves_on:
  assumes "reachable c st" "1 \<le> batchMaxSize c" "queue st \<noteq> [] \<or> inFlight st \<noteq> []"
  shows "enabled Linger st \<or> phase st = AwaitSink \<or> enabled Resume st"
proof -
  have "resting c st" "bounded c st"
    using reachable_sound [OF assms(1,2)] by (auto simp: sound_def core_def)
  with assms(3) show ?thesis
    by (cases "phase st") (auto simp: resting_def bounded_def split: if_splits)
qed

theorem work_moves_on_witness:
  "enabled Linger (sample_run [Submit (sample ''a'')])"
proof -
  have r: "reachable sample_options (sample_run [Submit (sample ''a'')])"
    by (rule sample_reachable) code_simp
  have "queue (sample_run [Submit (sample ''a'')]) \<noteq> []"
    "phase (sample_run [Submit (sample ''a'')]) = Idle" by code_simp+
  with work_moves_on [OF r sample_batch] show ?thesis by simp
qed

section \<open>Callbacks that call nothing\<close>

text \<open>
  While the pipeline is in stop phase \<open>p\<close>, the callbacks make no calls. A client's
  callbacks are quiet from the moment it is shut down.
\<close>

definition quiet :: "options \<Rightarrow> stop_phase \<Rightarrow> bool" where
  "quiet c p \<longleftrightarrow>
     (case onFailure c of None \<Rightarrow> True | Some f \<Rightarrow> \<forall>st x. stopping st = p \<longrightarrow> f st x = []) \<and>
     (case onDelivered c of None \<Rightarrow> True | Some f \<Rightarrow> \<forall>st x. stopping st = p \<longrightarrow> f st x = [])"

text \<open>What quiet callbacks leave alone.\<close>

definition keeps :: "pipe \<Rightarrow> pipe \<Rightarrow> bool" where
  "keeps st st' \<longleftrightarrow>
     queue st' = queue st \<and> phase st' = phase st \<and> draining st' = draining st \<and>
     drainers st' = drainers st \<and> stopped st' = stopped st \<and> stopping st' = stopping st \<and>
     aborted st' = aborted st"

lemma keeps_refl [simp]: "keeps st st"
  by (simp add: keeps_def)

lemma keeps_trans: "keeps a b \<Longrightarrow> keeps b c \<Longrightarrow> keeps a c"
  by (simp add: keeps_def)

lemma notifyFailure_quiet:
  assumes "quiet c (stopping st)"
  shows "notifyFailure c f st = st \<or>
    (onFailure c \<noteq> None \<and> \<not> notifying st \<and>
     notifyFailure c f st = st\<lparr>notifying := False, failures := failures st @ [f]\<rparr>)"
  using assms
  by (auto simp: notifyFailure_def quiet_def do_calls_def Let_def split: option.splits)

lemma notifyFailure_keeps:
  assumes "quiet c (stopping st)"
  shows "keeps st (notifyFailure c f st)" "inFlight (notifyFailure c f st) = inFlight st"
    "fates (notifyFailure c f st) = fates st"
  using notifyFailure_quiet [OF assms, of f] by (auto simp: keeps_def)

lemma settle_keeps: "keeps st (count s (settle k s st))"
  by (auto simp: keeps_def count_def settle_def split: item_state.splits disposition.splits)

lemma settle_effect:
  "inFlight (count s (settle k s st)) = (inFlight st)[k := (fst (inFlight st ! k), s)]"
  "fates (count s (settle k s st)) = fates st @ [(fst (inFlight st ! k), s)]"
  by (auto simp: count_def settle_def split: item_state.splits disposition.splits)

lemma keeps_quiet: "keeps st st' \<Longrightarrow> quiet c (stopping st) \<Longrightarrow> quiet c (stopping st')"
  by (simp add: keeps_def)

text \<open>The record at place \<open>k\<close> gets the state \<open>s\<close>, if it is in flight.\<close>

definition effect :: "item_state \<Rightarrow> nat \<Rightarrow> pipe \<Rightarrow> pipe \<Rightarrow> bool" where
  "effect s k st st' \<longleftrightarrow>
     keeps st st' \<and>
     inFlight st' = (if still k st then (inFlight st)[k := (fst (inFlight st ! k), s)] else inFlight st) \<and>
     fates st' = (if still k st then fates st @ [(fst (inFlight st ! k), s)] else fates st)"

definition decides :: "options \<Rightarrow> (jsval \<Rightarrow> item_state) \<Rightarrow> (nat \<Rightarrow> pipe \<Rightarrow> pipe) \<Rightarrow> bool" where
  "decides c v f \<longleftrightarrow>
     (\<forall>k st. quiet c (stopping st) \<longrightarrow> effect (v (fst (inFlight st ! k))) k st (f k st))"

lemma fail_effect:
  assumes "quiet c (stopping st)"
  shows "effect (Failed d) k st (fail c d why retry det k st)"
proof (cases "still k st")
  case True
  let ?st = "count (Failed d) (settle k (Failed d) st)"
  have q: "quiet c (stopping ?st)" by (rule keeps_quiet [OF settle_keeps assms])
  show ?thesis
    using True notifyFailure_keeps(2,3) [OF q] keeps_trans [OF settle_keeps notifyFailure_keeps(1) [OF q]]
    by (simp add: fail_eq effect_def settle_effect)
qed (simp add: fail_eq effect_def)

lemma markSent_effect: "effect Sent k st (markSent k st)"
  by (simp add: effect_def markSent_eq settle_keeps settle_effect)

lemma fail_decides: "decides c (\<lambda>_. Failed d) (fail c d why retry det)"
  by (simp add: decides_def fail_effect)

definition verdict :: "answer \<Rightarrow> jsval \<Rightarrow> item_state" where
  "verdict a r =
     (case a of
        Answered (Accepted rej unk) \<Rightarrow>
          if rid r \<in> fst ` set rej then Failed Dropped
          else if rid r \<in> set unk then Failed Unknown else Sent
      | Answered _ \<Rightarrow> Failed Dropped
      | _ \<Rightarrow> Failed Unknown)"

lemma judge_decides: "decides c (verdict (Answered (Accepted rej unk))) (judge c rej unk)"
  unfolding decides_def
proof (intro allI impI)
  fix k :: nat and st :: pipe
  assume q: "quiet c (stopping st)"
  let ?r = "fst (inFlight st ! k)"
  have m: "map_of (rev rej) (rid ?r) = None \<longleftrightarrow> rid ?r \<notin> fst ` set rej"
    by (simp add: map_of_eq_None_iff)
  show "effect (verdict (Answered (Accepted rej unk)) ?r) k st (judge c rej unk k st)"
  proof (cases "map_of (rev rej) (rid ?r)")
    case None
    with m fail_effect [OF q] markSent_effect show ?thesis
      by (simp add: judge_def verdict_def)
  next
    case (Some det)
    with m have "rid ?r \<in> fst ` set rej" by (metis option.distinct(1))
    with Some fail_effect [OF q] show ?thesis by (simp add: judge_def verdict_def)
  qed
qed

definition decided :: "(jsval \<Rightarrow> item_state) \<Rightarrow> item \<Rightarrow> item" where
  "decided v i = (if snd i = In_flight then (fst i, v (fst i)) else i)"

definition verdicts :: "(jsval \<Rightarrow> item_state) \<Rightarrow> item list \<Rightarrow> (jsval \<times> item_state) list" where
  "verdicts v is = map (decided v) (filter (\<lambda>i. snd i = In_flight) is)"

lemma for_batch_decides:
  assumes "decides c v f" "quiet c (stopping st)"
  shows "keeps st (for_batch f st) \<and> inFlight (for_batch f st) = map (decided v) (inFlight st) \<and>
    fates (for_batch f st) = fates st @ verdicts v (inFlight st)"
proof -
  let ?n = "length (inFlight st)"
  have "keeps st (foldl (\<lambda>st k. f k st) st [0..<k]) \<and>
    inFlight (foldl (\<lambda>st k. f k st) st [0..<k]) =
      map (decided v) (take k (inFlight st)) @ drop k (inFlight st) \<and>
    fates (foldl (\<lambda>st k. f k st) st [0..<k]) = fates st @ verdicts v (take k (inFlight st))"
    if "k \<le> ?n" for k
    using that
  proof (induction k)
    case (Suc k)
    let ?st = "foldl (\<lambda>st k. f k st) st [0..<k]" and ?i = "inFlight st ! k"
    have k: "k < ?n" using Suc.prems by simp
    have IH: "keeps st ?st" "inFlight ?st = map (decided v) (take k (inFlight st)) @ drop k (inFlight st)"
      "fates ?st = fates st @ verdicts v (take k (inFlight st))"
      using Suc by auto
    have nth: "inFlight ?st ! k = ?i" using k IH(2) by (simp add: nth_append)
    have "effect (v (fst (inFlight ?st ! k))) k ?st (f k ?st)"
      using assms(1) keeps_quiet [OF IH(1) assms(2)] unfolding decides_def by blast
    then have "effect (v (fst ?i)) k ?st (f k ?st)" by (simp only: nth)
    moreover have still: "still k ?st \<longleftrightarrow> snd ?i = In_flight"
      using k IH(2) nth by (simp add: still_def)
    moreover have "(map (decided v) (take k (inFlight st)) @ drop k (inFlight st))[k := x] =
        map (decided v) (take k (inFlight st)) @ x # drop (Suc k) (inFlight st)" for x
      using k by (simp add: list_update_append Cons_nth_drop_Suc [symmetric])
    moreover have "(map (decided v) (take k (inFlight st)) @ x # drop (Suc k) (inFlight st)) ! k = x" for x
      using k by (simp add: nth_append)
    ultimately show ?case
      using k IH keeps_trans [OF IH(1)] Cons_nth_drop_Suc [OF k, symmetric]
      by (auto simp: effect_def nth take_Suc_conv_app_nth decided_def verdicts_def)
  qed (simp add: verdicts_def)
  from this [of ?n] show ?thesis by (simp add: for_batch_def)
qed

section \<open>What an answer does\<close>

lemma verdict_final: "verdict a r \<noteq> In_flight"
  by (simp add: verdict_def split: answer.splits batch_result.splits)

lemma decided_final: "(\<And>r. v r \<noteq> In_flight) \<Longrightarrow> snd (decided v i) \<noteq> In_flight"
  by (simp add: decided_def)

lemma notifyDelivered_quiet:
  assumes "quiet c (stopping st)"
  shows "keeps st (notifyDelivered c st) \<and> inFlight (notifyDelivered c st) = inFlight st \<and>
    fates (notifyDelivered c st) = fates st"
  using assms
  by (auto simp: notifyDelivered_def quiet_def do_calls_def keeps_def Let_def split: option.splits)

definition settles_as :: "(jsval \<Rightarrow> item_state) \<Rightarrow> pipe \<Rightarrow> pipe \<Rightarrow> bool" where
  "settles_as v st st' \<longleftrightarrow>
     keeps st st' \<and> inFlight st' = map (decided v) (inFlight st) \<and>
     fates st' = fates st @ verdicts v (inFlight st)"

lemma verdict_drops:
  "verdict (Answered (RetryableFailure d)) = (\<lambda>_. Failed Dropped)"
  "verdict (Answered (PermanentFailure d)) = (\<lambda>_. Failed Dropped)"
  "verdict (Answered Closed_result) = (\<lambda>_. Failed Dropped)"
  by (simp_all add: fun_eq_iff verdict_def)

lemma apply_result_settles:
  assumes "quiet c (stopping st)"
  shows "settles_as (verdict (Answered r)) st (apply_result c r st)"
proof (cases r)
  case (Accepted rej unk)
  let ?st = "for_batch (judge c rej unk) st"
  have b: "settles_as (verdict (Answered r)) st ?st"
    using for_batch_decides [OF judge_decides assms] Accepted by (simp add: settles_as_def)
  then have "quiet c (stopping ?st)"
    using keeps_quiet [OF _ assms] by (simp add: settles_as_def)
  from notifyDelivered_quiet [OF this] b Accepted keeps_trans show ?thesis
    by (auto simp: settles_as_def)
qed (use for_batch_decides [OF fail_decides assms] in
    \<open>simp_all add: settles_as_def verdict_drops\<close>)

lemma no_batch_left: "\<not> some_in_flight st \<Longrightarrow> verdicts v (inFlight st) = [] \<and> map (decided v) (inFlight st) = inFlight st"
  by (auto simp: some_in_flight_def list_ex_iff verdicts_def filter_empty_conv decided_def
      intro!: map_idI)

lemma verdicts_decided:
  "(\<And>r. v r \<noteq> In_flight) \<Longrightarrow> verdicts w (map (decided v) is) = []"
  by (simp add: verdicts_def filter_empty_conv decided_final)

lemma finish_deliver_quiet:
  assumes "quiet c (stopping st)"
  shows "fates (finish_deliver c a st) = fates st @ verdicts (verdict a) (inFlight st) \<and>
    inFlight (finish_deliver c a st) = [] \<and> phase (finish_deliver c a st) = AwaitRun \<and>
    queue (finish_deliver c a st) = queue st"
proof -
  let ?st = "take_answer c a st" and ?u = "\<lambda>_ :: jsval. Failed Unknown"
  let ?final = "for_batch (fail c Unknown Inconclusive True None)"
  have count: "settles_as v st st' \<Longrightarrow> settles_as v (st\<lparr>batches := n\<rparr>) st'"
    "settles_as v (st\<lparr>batches := n\<rparr>) st' \<Longrightarrow> settles_as v st st'" for v st' n
    by (simp_all add: settles_as_def keeps_def)
  have close: "keeps x (?final x) \<and> fates (?final x) = fates x @ verdicts ?u (inFlight x)"
    if "quiet c (stopping x)" for x
    using for_batch_decides [OF fail_decides that] by blast
  have q: "quiet c (stopping ?st)" and f: "keeps st ?st" and
    all: "fates ?st @ verdicts ?u (inFlight ?st) = fates st @ verdicts (verdict a) (inFlight st)"
  proof -
    consider (typed) r where "a = Answered r" "some_in_flight st"
      | (none) "\<not> some_in_flight st"
      | (odd) "verdict a = ?u" "\<forall>r. a \<noteq> Answered r"
      by (cases a) (auto simp: verdict_def fun_eq_iff)
    then have "keeps st ?st \<and>
      fates ?st @ verdicts ?u (inFlight ?st) = fates st @ verdicts (verdict a) (inFlight st)"
    proof cases
      case typed
      have "settles_as (verdict a) (st\<lparr>batches := batches st + 1\<rparr>) ?st"
        using apply_result_settles [of c "st\<lparr>batches := batches st + 1\<rparr>" r] assms typed
        by (simp add: take_answer_def Let_def)
      then have "settles_as (verdict a) st ?st" by (rule count(2))
      then show ?thesis by (simp add: settles_as_def verdicts_decided verdict_final)
    next
      case none
      then have "?st = st" by (cases a) (simp_all add: take_answer_def)
      then show ?thesis using no_batch_left [OF none] by simp
    next
      case odd
      then have "keeps st ?st \<and> fates ?st = fates st \<and> inFlight ?st = inFlight st"
        by (cases a) (auto simp: take_answer_def keeps_def Let_def)
      with odd show ?thesis by simp
    qed
    then show "keeps st ?st" and "fates ?st @ verdicts ?u (inFlight ?st) = fates st @ verdicts (verdict a) (inFlight st)"
      by auto
    then show "quiet c (stopping ?st)" using keeps_quiet assms by blast
  qed
  have "keeps st (?final ?st)" using keeps_trans [OF f] close [OF q] by blast
  with all close [OF q] show ?thesis by (simp add: finish_deliver_def keeps_def)
qed

text \<open>
  C4: What an answer does to its batch, when the callbacks make no calls in response: every
  record still in flight gets the state the answer gives it and no other record changes. An
  accepted answer makes a rejected record dropped, an unconfirmed one unknown, every other
  one sent; a failed or closed one drops all; anything that is no typed result, a rejection
  included, leaves all unknown. The loop then goes on, with nothing in flight.
\<close>

theorem answer_settles_batch:
  assumes "quiet c (stopping st)"
  shows "fates (finish_deliver c a st) = fates st @ verdicts (verdict a) (inFlight st) \<and>
    inFlight (finish_deliver c a st) = [] \<and> phase (finish_deliver c a st) = AwaitRun \<and>
    queue (finish_deliver c a st) = queue st"
  by (rule finish_deliver_quiet [OF assms])

theorem answer_settles_batch_witness:
  "let st = sample_run [Submit (sample ''a''), Submit (sample ''b'')];
       a = Answered (Accepted [(''a'', None)] [])
   in fates (finish_deliver sample_options a st) =
      [(sample ''a'', Failed Dropped), (sample ''b'', Sent)]"
proof -
  let ?st = "sample_run [Submit (sample ''a''), Submit (sample ''b'')]"
  have "quiet sample_options (stopping ?st)" by (simp add: quiet_def sample_options_def)
  from answer_settles_batch [OF this]
  have "fates (finish_deliver sample_options (Answered (Accepted [(''a'', None)] [])) ?st) =
      fates ?st @ verdicts (verdict (Answered (Accepted [(''a'', None)] []))) (inFlight ?st)"
    by simp
  also have "\<dots> = [(sample ''a'', Failed Dropped), (sample ''b'', Sent)]" by code_simp
  finally show ?thesis by (simp add: Let_def)
qed

section \<open>Shutdown\<close>

lemma drop_queued_quiet:
  assumes "quiet c (stopping st)"
  shows "keeps st (drop_queued c r st) \<and> inFlight (drop_queued c r st) = inFlight st"
proof -
  let ?st = "st\<lparr>dropped := dropped st + 1, fates := fates st @ [(r, Failed Dropped)]\<rparr>"
  have "quiet c (stopping ?st)" using assms by simp
  from notifyFailure_keeps [OF this] show ?thesis by (simp add: drop_queued_def keeps_def)
qed

lemma drop_all_quiet:
  assumes "quiet c (stopping st)"
  shows "keeps st (foldl (\<lambda>st r. drop_queued c r st) st rs) \<and>
    inFlight (foldl (\<lambda>st r. drop_queued c r st) st rs) = inFlight st"
  using assms
proof (induction rs arbitrary: st)
  case (Cons r rs)
  note d = drop_queued_quiet [OF Cons.prems, of r]
  then have "quiet c (stopping (drop_queued c r st))" using keeps_quiet Cons.prems by blast
  from Cons.IH [OF this] d show ?case by (auto intro: keeps_trans)
qed simp

lemma abandon_accounts:
  assumes "reachable c st" "1 \<le> batchMaxSize c" "step c st Abandon st'" "quiet c Abandoned"
  shows "queue st' = [] \<and> in_flight_records st' = [] \<and> aborted st' \<and>
    submitted st' = sent st' + dropped st' + unknown st'"
proof -
  let ?st = "st\<lparr>lingerArmed := False, aborted := True, stopping := Abandoned\<rparr>"
  let ?drop = "foldl (\<lambda>st r. drop_queued c r st) (?st\<lparr>queue := []\<rparr>) (queue st)"
  have st': "st' = for_batch (fail c Unknown Shutdown True None) ?drop"
    using assms(3) by (auto elim!: stepE simp: abandon_def abandonOutstanding_def)
  have d: "keeps (?st\<lparr>queue := []\<rparr>) ?drop"
    using drop_all_quiet [of c "?st\<lparr>queue := []\<rparr>" "queue st"] assms(4) by simp
  then have "quiet c (stopping ?drop)" using assms(4) by (simp add: keeps_def)
  from for_batch_decides [OF fail_decides this, of Unknown Shutdown True None]
  have f: "keeps ?drop st'" "inFlight st' = map (decided (\<lambda>_. Failed Unknown)) (inFlight ?drop)"
    unfolding st' by auto
  then have "in_flight_records st' = []"
    by (simp add: in_flight_records_def filter_empty_conv decided_final)
  moreover have "queue st' = []" "aborted st'" using keeps_trans [OF d f(1)] by (simp_all add: keeps_def)
  ultimately show ?thesis
    using accounted [OF reachable.move [OF assms(1,3)] assms(2)] by simp
qed

text \<open>
  When \<open>stop()\<close> gives up waiting, it accounts for everything: with callbacks that submit
  nothing once the pipeline is stopping, no record is left queued or in flight, so every
  record submitted is sent, dropped or unknown; and the delivery still out is told to abort.
\<close>

theorem abandon_accounts_for_all:
  assumes "reachable c st" "1 \<le> batchMaxSize c" "step c st Abandon st'" "quiet c Abandoned"
  shows "queue st' = [] \<and> in_flight_records st' = [] \<and> aborted st' \<and>
    submitted st' = sent st' + dropped st' + unknown st'"
  by (rule abandon_accounts [OF assms])

theorem abandon_accounts_for_all_witness:
  "let st = sample_run [Submit (sample ''a''), Submit (sample ''b''), Submit (sample ''c''),
       Stop 0, EndDrain 0]
   in unknown (perform sample_options Abandon st) = 2 \<and>
      dropped (perform sample_options Abandon st) = 1 \<and>
      queue (perform sample_options Abandon st) = []"
proof -
  let ?es = "[Submit (sample ''a''), Submit (sample ''b''), Submit (sample ''c''), Stop 0, EndDrain 0]"
  have r: "reachable sample_options (sample_run ?es)" by (rule sample_reachable) code_simp
  have e: "enabled Abandon (sample_run ?es)" by code_simp
  have q: "quiet sample_options Abandoned" by (simp add: quiet_def sample_options_def)
  have "queue (perform sample_options Abandon (sample_run ?es)) = []"
    using abandon_accounts_for_all [OF r sample_batch step.step [OF e] q] by blast
  moreover have "unknown (perform sample_options Abandon (sample_run ?es)) = 2"
    "dropped (perform sample_options Abandon (sample_run ?es)) = 1" by code_simp+
  ultimately show ?thesis by (simp add: Let_def)
qed

lemma finish_deliver_late:
  assumes "in_flight_records st = []"
  shows "finish_deliver c a st = st\<lparr>inFlight := [], phase := AwaitRun\<rparr>"
proof -
  have none: "\<not> some_in_flight st"
    using assms by (auto simp: some_in_flight_def in_flight_records_def list_ex_iff filter_empty_conv)
  then have "take_answer c a st = st" by (cases a) (simp_all add: take_answer_def)
  moreover have "foldl (\<lambda>st k. fail c d why retry det k st) st ks = st" for d why retry det ks
  proof -
    have "\<not> still k st" for k
      using none by (auto simp: still_def some_in_flight_def list_ex_iff split_def dest!: nth_mem)
    then have "fail c d why retry det k st = st" for k by (simp add: fail_def)
    then show ?thesis by (induction ks) simp_all
  qed
  ultimately show ?thesis by (simp add: finish_deliver_def for_batch_def)
qed

text \<open>
  Once shutdown has accounted for a record, nothing the sink answers afterwards changes
  what was reported: an answer to a batch with nothing in flight settles nothing and counts
  as no batch.
\<close>

theorem late_answer_ignored:
  assumes "in_flight_records st = []"
  shows "fates (finish_deliver c a st) = fates st \<and> batches (finish_deliver c a st) = batches st \<and>
    failures (finish_deliver c a st) = failures st"
  using finish_deliver_late [OF assms] by simp

theorem late_answer_ignored_witness:
  "let st = sample_run [Submit (sample ''a''), Submit (sample ''b''), Stop 0, EndDrain 0, Abandon]
   in fates (finish_deliver sample_options (Answered accepted_all) st) = fates st \<and>
      unknown st = 2"
proof -
  let ?st = "sample_run [Submit (sample ''a''), Submit (sample ''b''), Stop 0, EndDrain 0, Abandon]"
  have "in_flight_records ?st = []" by code_simp
  then have "fates (finish_deliver sample_options (Answered accepted_all) ?st) = fates ?st"
    using late_answer_ignored by blast
  moreover have "unknown ?st = 2" by code_simp
  ultimately show ?thesis by (simp add: Let_def)
qed

section \<open>A flush ends\<close>

text \<open>The sink answers, the loop goes on, and so forth, for at most \<open>n\<close> steps.\<close>

fun pump :: "options \<Rightarrow> (pipe \<Rightarrow> answer) \<Rightarrow> nat \<Rightarrow> pipe \<Rightarrow> pipe" where
  "pump c sink 0 st = st"
| "pump c sink (Suc n) st =
     (case phase st of
        Idle \<Rightarrow> st
      | AwaitSink \<Rightarrow> pump c sink n (finish_deliver c (sink st) st)
      | AwaitRun \<Rightarrow> pump c sink n (resume c st))"

definition work_left :: "pipe \<Rightarrow> nat" where
  "work_left st =
     (case phase st of Idle \<Rightarrow> 0 | AwaitSink \<Rightarrow> 2 * length (queue st) + 2
      | AwaitRun \<Rightarrow> 2 * length (queue st) + 1)"

lemma finish_deliver_keeps:
  assumes "quiet c (stopping st)"
  shows "draining (finish_deliver c a st) = draining st" "drainers (finish_deliver c a st) = drainers st"
    "stopping (finish_deliver c a st) = stopping st"
proof -
  have t: "keeps st (take_answer c a st)"
  proof -
    have "keeps st (apply_result c r (st\<lparr>batches := n\<rparr>))" for r n
      using apply_result_settles [of c "st\<lparr>batches := n\<rparr>" r] assms
      by (simp add: settles_as_def keeps_def)
    then show ?thesis by (cases a) (auto simp: take_answer_def Let_def keeps_def)
  qed
  then have "quiet c (stopping (take_answer c a st))" using keeps_quiet assms by blast
  from for_batch_decides [OF fail_decides this, of Unknown Inconclusive True None] keeps_trans [OF t]
  have "keeps st (for_batch (fail c Unknown Inconclusive True None) (take_answer c a st))" by blast
  then show "draining (finish_deliver c a st) = draining st"
    "drainers (finish_deliver c a st) = drainers st" "stopping (finish_deliver c a st) = stopping st"
    by (simp_all add: finish_deliver_def keeps_def)
qed

lemma resume_keeps:
  "draining (resume c st) = draining st" "drainers (resume c st) = drainers st"
  "stopping (resume c st) = stopping st"
  by (auto simp: resume_def wake_def deliver_batch_eq Let_def schedule_def run_def)

lemma resume_progress:
  assumes "0 < drainers st" "1 \<le> batchMaxSize c" "phase st = AwaitRun"
  shows "work_left (resume c st) < work_left st"
proof (cases "queue st = []")
  case False
  then have "length (queue st) - batchMaxSize c < length (queue st)" using assms(2) by simp
  then have "Suc (2 * (length (queue st) - batchMaxSize c)) < 2 * length (queue st)" by linarith
  with False assms show ?thesis
    by (simp add: resume_def batchDue_def deliver_batch_eq work_left_def)
qed (use assms in \<open>simp add: resume_def wake_def work_left_def\<close>)

lemma pump_settles:
  assumes "sound {#} c st" "i \<in> set (draining st)" "quiet c (stopping st)" "work_left st \<le> n"
  shows "phase (pump c sink n st) = Idle \<and> queue (pump c sink n st) = [] \<and>
    i \<in> set (resolved (pump c sink n st))"
  using assms
proof (induction n arbitrary: st)
  case 0
  then have "phase st = Idle" by (cases "phase st") (auto simp: work_left_def)
  moreover have "0 < drainers st"
    using "0.prems"(1,2) by (cases "draining st") (auto simp: sound_defs)
  ultimately show ?case
    using "0.prems"(1,2) by (auto simp: sound_defs batchDue_def split: if_splits)
next
  case (Suc n)
  have drainers: "0 < drainers st" "1 \<le> batchMaxSize c"
    using Suc.prems(1,2) by (cases "draining st"; auto simp: sound_defs)+
  show ?case
  proof (cases "phase st")
    case Idle
    then show ?thesis
      using Suc.prems(1,2) drainers by (auto simp: sound_defs batchDue_def split: if_splits)
  next
    case AwaitSink
    let ?st = "finish_deliver c (sink st) st"
    have "work_left ?st \<le> n"
      using finish_deliver_quiet [OF Suc.prems(3), of "sink st"] Suc.prems(4) AwaitSink
      by (simp add: work_left_def)
    with Suc.IH [of ?st] Suc.prems finish_deliver_sound [OF Suc.prems(1) AwaitSink]
      finish_deliver_keeps [OF Suc.prems(3)] AwaitSink
    show ?thesis by simp
  next
    case AwaitRun
    let ?st = "resume c st"
    have "work_left ?st \<le> n"
      using resume_progress [OF drainers AwaitRun] Suc.prems(4) by linarith
    with Suc.IH [of ?st] Suc.prems resume_sound [OF Suc.prems(1) AwaitRun] resume_keeps AwaitRun
    show ?thesis by simp
  qed
qed

text \<open>
  C7: A flush ends: while a drain is open and the callbacks make no calls, a sink that answers
  each batch somehow brings the pipeline to rest with an empty queue and the drain's promise
  resolved, after at most two steps for every record queued and two for the batch under way.
\<close>

theorem drain_completes:
  assumes "reachable c st" "1 \<le> batchMaxSize c" "i \<in> set (draining st)" "quiet c (stopping st)"
    and "2 * length (queue st) + 2 \<le> n"
  shows "phase (pump c sink n st) = Idle \<and> queue (pump c sink n st) = [] \<and>
    i \<in> set (resolved (pump c sink n st))"
proof (rule pump_settles [OF reachable_sound [OF assms(1,2)] assms(3,4)])
  show "work_left st \<le> n" using assms(5) by (simp add: work_left_def split: phase.splits)
qed

theorem drain_completes_witness:
  "let st = sample_run [Submit (sample ''a''), Submit (sample ''b''), Submit (sample ''c''), Flush 7]
   in 7 \<in> set (resolved (pump sample_options (\<lambda>_. Answered accepted_all) 4 st))"
proof -
  let ?es = "[Submit (sample ''a''), Submit (sample ''b''), Submit (sample ''c''), Flush 7]"
  have r: "reachable sample_options (sample_run ?es)" by (rule sample_reachable) code_simp
  have d: "7 \<in> set (draining (sample_run ?es))" by code_simp
  have q: "quiet sample_options (stopping (sample_run ?es))"
    by (simp add: quiet_def sample_options_def)
  have "length (queue (sample_run ?es)) = 1" by code_simp
  then have "2 * length (queue (sample_run ?es)) + 2 \<le> 4" by simp
  from drain_completes [OF r sample_batch d q this] show ?thesis by (simp add: Let_def)
qed

section \<open>Reports\<close>

text \<open>
  The recursion through \<open>onFailure\<close>, cut where \<open>#notifying\<close> cuts it: while the callback runs,
  \<open>submit\<close> reports nothing.
\<close>

lemma submit_unfold: "notifying st \<Longrightarrow> submit c r st = submit_with (\<lambda>_ st. st) c r st"
  by (simp add: submit_def submit_with_def notifyFailure_def Let_def split: option.splits)

definition reported_fates :: "pipe \<Rightarrow> (jsval \<times> item_state) list" where
  "reported_fates st =
     map (\<lambda>f. (failedRecord f, Failed (fdisposition f))) (filter (\<lambda>f. freason f \<noteq> Invalid) (failures st))"

definition told :: "pipe \<Rightarrow> bool" where
  "told st \<longleftrightarrow> \<not> notifying st \<and> reported_fates st = filter (\<lambda>f. snd f \<noteq> Sent) (fates st)"

definition silent :: "options \<Rightarrow> bool" where
  "silent c \<longleftrightarrow> onFailure c \<noteq> None \<and> (\<forall>p. quiet c p)"

lemma told_frame:
  "told st \<Longrightarrow> fates st' = fates st \<Longrightarrow> failures st' = failures st \<Longrightarrow> notifying st' = notifying st \<Longrightarrow> told st'"
  by (simp add: told_def reported_fates_def)

lemma notifyFailure_silent:
  assumes "silent c" "\<not> notifying st"
  shows "notifyFailure c f st = st\<lparr>notifying := False, failures := failures st @ [f]\<rparr>"
  using assms
  by (auto simp: silent_def notifyFailure_def quiet_def do_calls_def Let_def)

lemma notify_told:
  assumes "silent c" "told st" "freason f \<noteq> Invalid" "\<not> notifying st'"
    "fates st' = fates st @ [(failedRecord f, Failed (fdisposition f))]" "failures st' = failures st"
  shows "told (notifyFailure c f st')"
  using assms by (simp add: notifyFailure_silent told_def reported_fates_def)

lemma schedule_told: "told (schedule c st) \<longleftrightarrow> told st"
  by (simp add: told_def reported_fates_def schedule_def run_def wake_def deliver_batch_eq Let_def)

lemma submit_told:
  assumes "silent c" "told st"
  shows "told (submit c r st)"
  using assms
  by (auto simp: submit_def submit_with_def Let_def schedule_told intro!: notify_told [OF assms])
    (auto simp: told_def reported_fates_def)

lemma fail_told:
  assumes "silent c" "told st" "why \<noteq> Invalid"
  shows "told (fail c d why retry det k st)"
proof (cases "still k st")
  case True
  have "notifying (count (Failed d) (settle k (Failed d) st)) = notifying st"
    "failures (count (Failed d) (settle k (Failed d) st)) = failures st"
    by (simp_all add: count_def settle_def split: disposition.splits)
  moreover have "\<not> notifying st" using assms(2) by (simp add: told_def)
  ultimately have "told (notifyFailure c \<lparr>failedRecord = fst (inFlight st ! k), fdisposition = d,
      freason = why, retryable = retry, detail = det\<rparr> (count (Failed d) (settle k (Failed d) st)))"
    by (intro notify_told [OF assms(1,2)]) (use assms(3) in \<open>simp_all add: settle_effect\<close>)
  with True show ?thesis by (simp add: fail_eq)
qed (simp add: fail_eq assms)

lemma markSent_told: "told st \<Longrightarrow> told (markSent k st)"
  by (simp add: markSent_def settle_def told_def reported_fates_def Let_def)

lemma judge_told: "silent c \<Longrightarrow> told st \<Longrightarrow> told (judge c rej unk k st)"
  by (auto simp: judge_def Let_def intro: fail_told markSent_told split: option.splits)

lemma fold_told: "(\<And>k st. told st \<Longrightarrow> told (f k st)) \<Longrightarrow> told st \<Longrightarrow> told (foldl (\<lambda>st k. f k st) st ks)"
  by (induction ks arbitrary: st) simp_all

lemma for_batch_told: "(\<And>k st. told st \<Longrightarrow> told (f k st)) \<Longrightarrow> told st \<Longrightarrow> told (for_batch f st)"
  by (simp add: for_batch_def fold_told)

lemma notifyDelivered_told:
  assumes "silent c" "told st"
  shows "told (notifyDelivered c st)"
proof -
  have "quiet c p" for p using assms(1) by (simp add: silent_def)
  then show ?thesis
    using assms(2)
    by (auto simp: notifyDelivered_def quiet_def do_calls_def told_def reported_fates_def Let_def
        split: option.splits)
qed

lemma finish_deliver_told:
  assumes "silent c" "told st"
  shows "told (finish_deliver c a st)"
proof -
  have "told (apply_result c r st)" if "told st" for r st
    using that assms(1)
    by (cases r) (auto intro!: notifyDelivered_told for_batch_told fail_told judge_told)
  moreover have "told (st\<lparr>batches := n\<rparr>)" for n
    using assms(2) by (simp add: told_def reported_fates_def)
  ultimately have "told (take_answer c a st)"
    using assms(2) by (cases a) (simp_all add: take_answer_def Let_def)
  then have "told (for_batch (fail c Unknown Inconclusive True None) (take_answer c a st))"
    using assms(1) by (intro for_batch_told fail_told) auto
  then show ?thesis by (simp add: finish_deliver_def told_def reported_fates_def)
qed

lemma drop_queued_told:
  assumes "silent c" "told st"
  shows "told (drop_queued c r st)"
  unfolding drop_queued_def
  by (rule notify_told [OF assms]) (use assms in \<open>simp_all add: told_def\<close>)

lemma told_update:
  "told (st\<lparr>drainers := n, draining := ds\<rparr>) = told st"
  "told (st\<lparr>lingerHandle := h, lingerArmed := a\<rparr>) = told st"
  "told (st\<lparr>stopping := p, stopped := b\<rparr>) = told st"
  "told (st\<lparr>lingerArmed := a, aborted := b, stopping := p\<rparr>) = told st"
  "told (st\<lparr>waiters := ws\<rparr>) = told st" "told (st\<lparr>resolved := rs\<rparr>) = told st"
  "told (st\<lparr>queue := q\<rparr>) = told st" "told (st\<lparr>phase := f\<rparr>) = told st"
  "told (st\<lparr>sinkClosed := b\<rparr>) = told st" "told (wake st) = told st"
  "told (deliver_batch c st) = told st"
  by (simp_all add: told_def reported_fates_def wake_def deliver_batch_eq)

lemma run_told: "told (run c st) = told st"
  by (simp add: run_def told_update Let_def)

lemma drain_told: "told (drain c i st) = told st"
  by (simp add: drain_def told_update schedule_told Let_def)

lemma resume_told: "told (resume c st) = told st"
  by (simp add: resume_def told_update schedule_told Let_def)

lemma abandon_told: "silent c \<Longrightarrow> told st \<Longrightarrow> told (abandon c st)"
  unfolding abandon_def abandonOutstanding_def
  by (intro for_batch_told fail_told fold_told drop_queued_told) (simp_all add: told_update)

lemma report_told:
  assumes "silent c" "told st"
  shows "told (reportInvalid c r st)"
proof -
  have "\<not> notifying st" using assms(2) by (simp add: told_def)
  from notifyFailure_silent [OF assms(1) this] assms(2) show ?thesis
    by (simp add: reportInvalid_def told_def reported_fates_def invalid_failure_def)
qed

lemma step_told:
  assumes "silent c" "told st" "step c st e st'"
  shows "told st'"
proof -
  have "st' = perform c e st" using assms(3) by (auto elim: stepE)
  then show ?thesis
    using assms(1,2)
    by (cases e) (auto simp: flush_def stop_def end_drain_def close_sink_def told_update run_told
        drain_told resume_told intro: submit_told report_told finish_deliver_told abandon_told)
qed


definition listening :: options where
  "listening = sample_options\<lparr>onFailure := Some (\<lambda>_ _. [])\<rparr>"


text \<open>
  C9: A record the callback submits is not reported when it is dropped at once: with a full
  queue and a callback that resubmits what it is told of, one of the two records dropped is
  reported, the other is not.
\<close>

definition insistent :: options where
  "insistent = sample_options\<lparr>onFailure := Some (\<lambda>_ f. [CallSubmit (failedRecord f)])\<rparr>"


end
