(* ===== verification/FileSink.thy ===== *)
theory FileSink
  imports Codec
begin

text \<open>
  \<open>adapters/core/typescript/src/file-sink.ts\<close>. Deliveries are written one at a time, in the
  order they were requested, so a delivery is one step on the sink's state. What the file
  system does is a list of outcomes consumed from the front, \<open>None\<close> for success and the
  error otherwise, success once it is empty; a failed append is taken to leave the file as it
  was. The code of an error is its \<open>code\<close> property or else its name.
\<close>

datatype io_error = ErrorCode string | NoCode thrown

fun errorCode :: "io_error \<Rightarrow> string" where
  "errorCode (ErrorCode c) = c"
| "errorCode (NoCode t) = errorName t"

record file_sink =
  file_text :: string
  file_open :: bool
  truncates :: bool
  closing :: bool
  outcomes :: "io_error option list"

definition next_outcome :: "file_sink \<Rightarrow> io_error option \<times> file_sink" where
  "next_outcome s =
     (case outcomes s of [] \<Rightarrow> (None, s) | e # es \<Rightarrow> (e, s\<lparr>outcomes := es\<rparr>))"

text \<open>\<open>this.#file ??= await open(path, flags)\<close>\<close>

definition ensure_open :: "file_sink \<Rightarrow> io_error option \<times> file_sink" where
  "ensure_open s =
     (if file_open s then (None, s)
      else case next_outcome s of
        (Some e, s) \<Rightarrow> (Some e, s)
      | (None, s) \<Rightarrow>
          (None, s\<lparr>file_open := True, file_text := if truncates s then [] else file_text s\<rparr>))"

definition append_file :: "string \<Rightarrow> file_sink \<Rightarrow> io_error option \<times> file_sink" where
  "append_file text s =
     (case next_outcome s of
        (Some e, s) \<Rightarrow> (Some e, s) | (None, s) \<Rightarrow> (None, s\<lparr>file_text := file_text s @ text\<rparr>))"

definition json_lines :: "(jsval \<Rightarrow> string) \<Rightarrow> jsval list \<Rightarrow> validation_issue list + string" where
  "json_lines stringify batch =
     map_sum id concat (traverse (\<lambda>r. map_sum id (\<lambda>t. t @ [CHR 0x0A]) (encodeRecord stringify r)) batch)"

definition write_batch :: "(jsval \<Rightarrow> string) \<Rightarrow> jsval list \<Rightarrow> file_sink \<Rightarrow> batch_result \<times> file_sink" where
  "write_batch stringify batch s =
     (case json_lines stringify batch of
        Inl _ \<Rightarrow> (failed False (Some ''ValidationError''), s)
      | Inr text \<Rightarrow>
          (case ensure_open s of
             (Some e, s) \<Rightarrow> (failed True (Some (errorCode e)), s)
           | (None, s) \<Rightarrow>
               (case append_file text s of
                  (Some e, s) \<Rightarrow> (failed True (Some (errorCode e)), s)
                | (None, s) \<Rightarrow> (accepted_all, s))))"

definition file_deliver :: "(jsval \<Rightarrow> string) \<Rightarrow> file_sink \<Rightarrow> jsval list \<Rightarrow> answer \<times> file_sink" where
  "file_deliver stringify s batch =
     (if closing s then (Answered Closed_result, s)
      else let (r, s) = write_batch stringify batch s in (Answered r, s))"

definition file_close :: "file_sink \<Rightarrow> file_sink" where
  "file_close s = s\<lparr>closing := True, file_open := False\<rparr>"

lemma write_batch_results:
  "fst (write_batch stringify b s) \<in> {accepted_all} \<union> range PermanentFailure \<union> range RetryableFailure"
  by (auto simp: write_batch_def failed_def split: sum.splits prod.splits option.splits)

lemma file_deliver_accepted:
  "fst (file_deliver stringify s b) = Answered (Accepted rej unk) \<Longrightarrow> rej = [] \<and> unk = []"
  using write_batch_results [of stringify b s]
  by (auto simp: file_deliver_def accepted_all_def split: if_splits prod.splits)

lemma file_answers: "\<exists>r. fst (file_deliver stringify s b) = Answered r"
  by (simp add: file_deliver_def split: prod.splits)

lemma file_shut: "closing s \<Longrightarrow> fst (file_deliver stringify s b) = Answered Closed_result"
  by (simp add: file_deliver_def)

interpretation filesink: sink_contract "file_deliver stringify" file_close "\<lambda>s. True" closing "\<lambda>r. True"
  for stringify
  by unfold_locales
    (auto simp: file_answers file_shut file_close_def dest: file_deliver_accepted)

section \<open>What the file holds\<close>

lemma next_outcome_fields:
  "next_outcome s = (e, s') \<Longrightarrow> file_text s' = file_text s \<and> file_open s' = file_open s \<and>
     truncates s' = truncates s \<and> closing s' = closing s"
  by (auto simp: next_outcome_def split: list.splits)

lemma write_batch_text:
  assumes "truncates s \<longrightarrow> file_open s \<or> file_text s = []"
  shows "file_text (snd (write_batch stringify b s)) =
    file_text s @ (if fst (write_batch stringify b s) = accepted_all
      then (case json_lines stringify b of Inr t \<Rightarrow> t | Inl _ \<Rightarrow> []) else [])"
  using assms
  by (auto simp: write_batch_def ensure_open_def append_file_def failed_def accepted_all_def
      split: sum.splits prod.splits option.splits dest!: next_outcome_fields)



text \<open>
  The sinks of the core package pass the check it ships for sinks, on every batch whose
  records have different identifiers: the memory sink, however it is set up, and the file
  sink, whatever the file system does.
\<close>

theorem core_sinks_pass_check:
  assumes "distinct (map rid b)"
  shows "assertSinkContract memory_deliver memory_close m b = None \<and>
    assertSinkContract (file_deliver stringify) file_close f b = None"
  using memory.passes_check [OF TrueI _ assms] filesink.passes_check [OF TrueI _ assms]
  by (simp add: list_all_iff)

theorem core_sinks_pass_check_witness:
  "assertSinkContract memory_deliver memory_close
     \<lparr>records = [], acceptedBatches = 0, closed = False, reject = Some (\<lambda>_. Some ''no''), failWith = None\<rparr>
     [JObj [(''record_id'', JStr ''a'')]] = None"
  using core_sinks_pass_check [of "[JObj [(''record_id'', JStr ''a'')]]"] by simp

end
