(* ===== verification/Client.thy ===== *)
theory Client
  imports Outcomes FileSink
begin

text \<open>
  \<open>adapters/core/typescript/src/client.ts\<close>: the checks of the constructor, \<open>record()\<close>,
  \<open>flush()\<close> and \<open>shutdown()\<close> over the pipeline. The client's \<open>#shutdown\<close> is set exactly when
  the pipeline's \<open>stop()\<close> has been called. The two clocks are arguments.
\<close>

section \<open>Construction\<close>

definition MAX_BATCH_SIZE :: rat where
  "MAX_BATCH_SIZE = 500"

definition MAX_TIMER_MS :: rat where
  "MAX_TIMER_MS = 2147483647"

definition defaulted :: "jsval \<Rightarrow> jsval \<Rightarrow> jsval" where
  "defaulted v d = (if v = JUndef then d else v)"

definition amount :: "jsval \<Rightarrow> rat option" where
  "amount v = (case v of JNum (Fin x) \<Rightarrow> Some x | _ \<Rightarrow> None)"

definition whole :: "jsval \<Rightarrow> rat option" where
  "whole v = (case v of JNum n \<Rightarrow> if is_integer n then amount v else None | _ \<Rightarrow> None)"

text \<open>What the constructor is given: whether the sink has both methods, and the options.\<close>

record client_options =
  sinkOk :: bool
  emitterOpt :: jsval
  maxQueueOpt :: jsval
  batchMaxOpt :: jsval
  lingerOpt :: jsval
  ownsOpt :: jsval

record client_config =
  cfgQueue :: nat
  cfgBatch :: nat
  cfgLinger :: rat
  cfgOwns :: bool
  cfgEmitter :: jsval

definition emitter_issues :: "jsval \<Rightarrow> int \<Rightarrow> validation_issue list" where
  "emitter_issues em now =
     filter (\<lambda>i. issue_path i = ''/emitter'' \<or> starts_with ''/emitter/'' (issue_path i))
       (validate (Some (JObj [(''emitter'', em)])) (Some now))"

definition truthy :: "jsval \<Rightarrow> bool" where
  "truthy v \<longleftrightarrow> (case v of JUndef \<Rightarrow> False | JNull \<Rightarrow> False | JBool b \<Rightarrow> b | JStr s \<Rightarrow> s \<noteq> []
     | JNum (Fin x) \<Rightarrow> x \<noteq> 0 | JNum NaN \<Rightarrow> False | _ \<Rightarrow> True)"

definition new_client :: "client_options \<Rightarrow> int \<Rightarrow> audr_error + client_config" where
  "new_client opts now =
     (let q = whole (defaulted (maxQueueOpt opts) (JNum (Fin 1000)));
          b = whole (defaulted (batchMaxOpt opts) (JNum (Fin 50)));
          l = amount (defaulted (lingerOpt opts) (JNum (Fin 5000)))
      in if \<not> sinkOk opts
         then Inl (ConfigurationError ''sink must implement deliver() and close()'')
         else case q of None \<Rightarrow> Inl (ConfigurationError ''maxQueueSize must be an integer >= 1'')
         | Some q \<Rightarrow>
           if q < 1 then Inl (ConfigurationError ''maxQueueSize must be an integer >= 1'')
           else case b of
             None \<Rightarrow> Inl (ConfigurationError ''batchMaxSize must be an integer from 1 to 500'')
           | Some b \<Rightarrow>
             if b < 1 \<or> MAX_BATCH_SIZE < b
             then Inl (ConfigurationError ''batchMaxSize must be an integer from 1 to 500'')
             else case l of
               None \<Rightarrow> Inl (ConfigurationError ''lingerMs must be a number from 0 to 2147483647'')
             | Some l \<Rightarrow>
               if l < 0 \<or> MAX_TIMER_MS < l
               then Inl (ConfigurationError ''lingerMs must be a number from 0 to 2147483647'')
               else
                 let found = (if emitterOpt opts = JUndef then [] else emitter_issues (emitterOpt opts) now)
                 in if found \<noteq> []
                    then Inl (ConfigurationError (''emitter is invalid: '' @ issue_summary found))
                    else Inr \<lparr>cfgQueue = nat \<lfloor>q\<rfloor>, cfgBatch = nat \<lfloor>b\<rfloor>, cfgLinger = l,
                              cfgOwns = truthy (defaulted (ownsOpt opts) (JBool True)),
                              cfgEmitter = emitterOpt opts\<rparr>)"

section \<open>Recording\<close>

definition stamp :: "jsval \<Rightarrow> jsval \<Rightarrow> jsval" where
  "stamp em r =
     (if em = JUndef \<or> \<not> is_object r \<or> jget r ''emitter'' \<noteq> JUndef then r
      else JObj (put (entries r) ''emitter'' em))"

text \<open>\<open>#now\<close>: no clock, a clock that throws, or the value it returns; else the system's.\<close>

datatype reading = NoClock | ClockThrows | ClockReads jsval

definition client_now :: "reading \<Rightarrow> int \<Rightarrow> int" where
  "client_now r system = (case r of ClockReads (JDate (Some t)) \<Rightarrow> t | _ \<Rightarrow> system)"

text \<open>What \<open>record()\<close> makes of a value before it touches the pipeline.\<close>

datatype judged = Uncloneable | Broken "validation_issue list" jsval bool | Valid jsval

definition judge_record :: "jsval \<Rightarrow> jsval \<Rightarrow> int \<Rightarrow> judged" where
  "judge_record em r now =
     (case structuredClone (stamp em r) of
        Inl _ \<Rightarrow> Uncloneable
      | Inr copy \<Rightarrow>
          (let (issues, d) = inspect (Some copy) (Some now)
           in if issues = [] then Valid d else Broken issues d (is_object copy)))"

definition record_value :: "options \<Rightarrow> jsval \<Rightarrow> jsval \<Rightarrow> reading \<Rightarrow> int \<Rightarrow> pipe \<Rightarrow>
    (submit_outcome \<times> validation_issue list) \<times> pipe" where
  "record_value c em r clock system st =
     (if stopping st \<noteq> Running then ((Dropped_not_running, []), st)
      else case judge_record em r (client_now clock system) of
        Uncloneable \<Rightarrow> ((Rejected_invalid, [issue INVALID_TYPE ''/'']), st)
      | Valid d \<Rightarrow> ((submit_result c st, []), submit c d st)
      | Broken issues d obj \<Rightarrow>
          ((Rejected_invalid, issues), if obj then reportInvalid c d st else st))"

text \<open>The calls a callback makes on the client, and the calls on the pipeline they become.\<close>

datatype client_call = RecordCall jsval reading int | FlushCall | ShutdownCall

fun pipeline_calls :: "jsval \<Rightarrow> bool \<Rightarrow> client_call list \<Rightarrow> call list" where
  "pipeline_calls em down [] = []"
| "pipeline_calls em down (RecordCall r clock system # cs) =
     (if down then []
      else case judge_record em r (client_now clock system) of
        Valid d \<Rightarrow> [CallSubmit d]
      | Broken _ d True \<Rightarrow> [CallReport d]
      | _ \<Rightarrow> []) @ pipeline_calls em down cs"
| "pipeline_calls em down (FlushCall # cs) =
     (if down then [] else [CallFlush]) @ pipeline_calls em down cs"
| "pipeline_calls em down (ShutdownCall # cs) =
     (if down then [] else [CallStop]) @ pipeline_calls em True cs"

definition client_pipe :: "client_config \<Rightarrow> (pipe \<Rightarrow> failure \<Rightarrow> client_call list) option \<Rightarrow>
    (pipe \<Rightarrow> jsval list \<Rightarrow> client_call list) option \<Rightarrow> options" where
  "client_pipe cfg onf ond =
     \<lparr>maxQueueSize = cfgQueue cfg, batchMaxSize = cfgBatch cfg, ownsSink = cfgOwns cfg,
      onFailure = map_option (\<lambda>f st x. pipeline_calls (cfgEmitter cfg) (stopping st \<noteq> Running) (f st x)) onf,
      onDelivered = map_option (\<lambda>f st x. pipeline_calls (cfgEmitter cfg) (stopping st \<noteq> Running) (f st x)) ond\<rparr>"

section \<open>Flushing and shutting down\<close>

definition bad_timeout :: "jsval \<Rightarrow> bool" where
  "bad_timeout v \<longleftrightarrow> (case v of JNum (Fin x) \<Rightarrow> x < 0 | JNum PosInf \<Rightarrow> False | _ \<Rightarrow> True)"

definition client_flush :: "options \<Rightarrow> jsval \<Rightarrow> nat \<Rightarrow> pipe \<Rightarrow> audr_error + pipe" where
  "client_flush c timeout i st =
     (if bad_timeout (defaulted timeout (JNum (Fin 30000)))
      then Inl (ConfigurationError ''timeoutMs must be a number >= 0'') else Inr (flush c i st))"

definition client_shutdown :: "options \<Rightarrow> jsval \<Rightarrow> nat \<Rightarrow> pipe \<Rightarrow> audr_error + pipe" where
  "client_shutdown c timeout i st =
     (if bad_timeout (defaulted timeout (JNum (Fin 30000)))
      then Inl (ConfigurationError ''timeoutMs must be a number >= 0'') else Inr (stop c i st))"

text \<open>
  A client's runs: values are recorded, and everything else the pipeline does happens to it;
  nothing is submitted to its pipeline but through \<open>record()\<close>.
\<close>

fun client_event :: "event \<Rightarrow> bool" where
  "client_event (Submit _) = False"
| "client_event (Report _) = False"
| "client_event _ = True"

inductive client_run :: "options \<Rightarrow> jsval \<Rightarrow> pipe \<Rightarrow> bool" for c em where
  new: "client_run c em initial"
| recorded: "client_run c em st \<Longrightarrow> client_run c em (snd (record_value c em r clock system st))"
| moved: "client_run c em st \<Longrightarrow> client_event e \<Longrightarrow> step c st e st' \<Longrightarrow> client_run c em st'"

lemma client_run_reachable: "client_run c em st \<Longrightarrow> reachable c st"
proof (induction rule: client_run.induct)
  case (recorded st r clock system)
  have "reachable c (submit c d st)" "reachable c (reportInvalid c d st)" for d
    using reachable.move [OF recorded.IH step.step [of "Submit d"]]
      reachable.move [OF recorded.IH step.step [of "Report d"]] by simp_all
  with recorded.IH show ?case by (auto simp: record_value_def split: judged.splits)
qed (auto intro: reachable.intros)

section \<open>What the sink of a client receives\<close>

definition admitted :: "(jsval \<Rightarrow> bool) \<Rightarrow> (stop_phase \<Rightarrow> bool) \<Rightarrow> pipe \<Rightarrow> bool" where
  "admitted P Q st \<longleftrightarrow> (\<forall>r \<in> set (arrivals st). P r) \<and> Q (stopping st)"

lemma stopping_kept [simp]:
  "stopping (deliver_batch c st) = stopping st" "stopping (wake st) = stopping st"
  "stopping (run c st) = stopping st" "stopping (schedule c st) = stopping st"
  "stopping (resume c st) = stopping st" "stopping (drain c i st) = stopping st"
  "stopping (flush c i st) = stopping st" "stopping (end_drain i st) = stopping st"
  "stopping (close_sink c st) = stopping st" "stopping (settle k s st) = stopping st"
  "stopping (stop c i st) = (if stopping st = Running then Stopping i else stopping st)"
  by (simp_all add: deliver_batch_eq wake_def run_def schedule_def resume_def drain_def flush_def
      stop_def end_drain_def close_sink_def settle_def Let_def)

lemma arrivals_kept [simp]:
  "arrivals (deliver_batch c st) = arrivals st" "arrivals (wake st) = arrivals st"
  "arrivals (run c st) = arrivals st" "arrivals (schedule c st) = arrivals st"
  "arrivals (resume c st) = arrivals st" "arrivals (drain c i st) = arrivals st"
  "arrivals (flush c i st) = arrivals st" "arrivals (stop c i st) = arrivals st"
  "arrivals (end_drain i st) = arrivals st" "arrivals (close_sink c st) = arrivals st"
  "arrivals (settle k s st) = arrivals st"
  by (simp_all add: deliver_batch_eq wake_def run_def schedule_def resume_def drain_def flush_def
      stop_def end_drain_def close_sink_def settle_def Let_def)

lemma admitted_kept [simp]:
  "admitted P Q (run c st) = admitted P Q st" "admitted P Q (resume c st) = admitted P Q st"
  "admitted P Q (drain c i st) = admitted P Q st" "admitted P Q (flush c i st) = admitted P Q st"
  "admitted P Q (end_drain i st) = admitted P Q st"
  "admitted P Q (close_sink c st) = admitted P Q st" "admitted P Q (st\<lparr>queue := q\<rparr>) = admitted P Q st"
  "admitted P Q (st\<lparr>lingerHandle := h, lingerArmed := a\<rparr>) = admitted P Q st"
  by (simp_all add: admitted_def)

text \<open>
  A pipeline whose callbacks submit only what satisfies \<open>P\<close>: then everything that arrives
  does, as long as \<open>P\<close> holds of what is submitted from outside; and the stop phase satisfies
  \<open>Q\<close> until the pipeline is abandoned.
\<close>

locale arrival_gate =
  fixes c :: options and P :: "jsval \<Rightarrow> bool" and Q :: "stop_phase \<Rightarrow> bool"
  assumes failure_calls: "onFailure c = Some f \<Longrightarrow> CallSubmit r \<in> set (f st x) \<Longrightarrow> P r"
    and delivered_calls: "onDelivered c = Some g \<Longrightarrow> CallSubmit r \<in> set (g st y) \<Longrightarrow> P r"
    and stop_allowed: "Q (Stopping i)"
begin

lemma stop_admitted: "admitted P Q st \<Longrightarrow> admitted P Q (stop c i st)"
  by (simp add: admitted_def stop_allowed)

lemma submit_with_admitted:
  assumes "\<And>f st. admitted P Q st \<Longrightarrow> admitted P Q (notify f st)" "P r" "admitted P Q st"
  shows "admitted P Q (submit_with notify c r st)"
  using assms(2,3) unfolding submit_with_def Let_def
  by (auto intro!: assms(1)) (auto simp: admitted_def)

lemma do_calls_admitted:
  assumes notify: "\<And>f st. admitted P Q st \<Longrightarrow> admitted P Q (notify f st)"
    and "\<And>r. CallSubmit r \<in> set xs \<Longrightarrow> P r" "admitted P Q st"
  shows "admitted P Q (do_calls notify c xs st)"
  using assms(2,3) unfolding do_calls_def
proof (induction xs arbitrary: st)
  case (Cons x xs)
  then have "admitted P Q (do_call notify c x st)"
    by (cases x) (auto intro: submit_with_admitted stop_admitted notify)
  with Cons show ?case by simp
qed simp

lemma notifyFailure_admitted:
  assumes "admitted P Q st"
  shows "admitted P Q (notifyFailure c f st)"
proof (cases "onFailure c")
  case (Some callback)
  let ?st = "st\<lparr>notifying := True, failures := failures st @ [f]\<rparr>"
  have "admitted P Q (do_calls (\<lambda>_ st. st) c (callback ?st f) ?st)"
    by (rule do_calls_admitted) (use assms failure_calls [OF Some] in \<open>auto simp: admitted_def\<close>)
  with assms show ?thesis by (simp add: notifyFailure_def Some Let_def) (simp add: admitted_def)
qed (simp add: notifyFailure_def assms)

lemma submit_admitted: "P r \<Longrightarrow> admitted P Q st \<Longrightarrow> admitted P Q (submit c r st)"
  unfolding submit_def by (rule submit_with_admitted [OF notifyFailure_admitted])

lemma fail_admitted:
  assumes "admitted P Q st"
  shows "admitted P Q (fail c d why retry det k st)"
proof -
  have "admitted P Q (count (Failed d) (settle k (Failed d) st))"
    using assms by (simp add: admitted_def count_def split: disposition.splits)
  then show ?thesis using assms by (simp add: fail_eq notifyFailure_admitted)
qed

lemma judge_admitted: "admitted P Q st \<Longrightarrow> admitted P Q (judge c rej unk k st)"
  by (auto simp: judge_def Let_def fail_admitted markSent_def split: option.splits)
    (simp add: admitted_def)

lemma fold_admitted:
  "(\<And>x st. admitted P Q st \<Longrightarrow> admitted P Q (f x st)) \<Longrightarrow> admitted P Q st \<Longrightarrow>
    admitted P Q (foldl (\<lambda>st x. f x st) st xs)"
  by (induction xs arbitrary: st) simp_all

lemma for_batch_admitted:
  "(\<And>k st. admitted P Q st \<Longrightarrow> admitted P Q (f k st)) \<Longrightarrow> admitted P Q st \<Longrightarrow> admitted P Q (for_batch f st)"
  unfolding for_batch_def by (rule fold_admitted)

lemma notifyDelivered_admitted:
  assumes "admitted P Q st"
  shows "admitted P Q (notifyDelivered c st)"
proof -
  have "admitted P Q (st\<lparr>deliveries := ds\<rparr>)" for ds using assms by (simp add: admitted_def)
  then show ?thesis
    unfolding notifyDelivered_def Let_def using assms
    by (auto split: option.splits intro!: do_calls_admitted notifyFailure_admitted
        dest: delivered_calls)
qed

lemma finish_deliver_admitted:
  assumes "admitted P Q st"
  shows "admitted P Q (finish_deliver c a st)"
proof -
  have "admitted P Q (st\<lparr>batches := n\<rparr>)" for n using assms by (simp add: admitted_def)
  moreover have "admitted P Q (apply_result c r st)" if "admitted P Q st" for r st
    using that by (cases r)
      (auto intro: notifyDelivered_admitted for_batch_admitted fail_admitted judge_admitted)
  ultimately have "admitted P Q (take_answer c a st)"
    using assms by (cases a) (simp_all add: take_answer_def Let_def)
  then have "admitted P Q (for_batch (fail c Unknown Inconclusive True None) (take_answer c a st))"
    by (intro for_batch_admitted fail_admitted)
  then show ?thesis by (simp add: finish_deliver_def admitted_def)
qed

lemma abandon_admitted:
  assumes "admitted P Q st" "Q Abandoned"
  shows "admitted P Q (abandon c st)"
proof -
  have "admitted P Q (drop_queued c r st)" if "admitted P Q st" for r st
    unfolding drop_queued_def
    by (rule notifyFailure_admitted) (use that in \<open>simp add: admitted_def\<close>)
  then show ?thesis
    unfolding abandon_def abandonOutstanding_def
    by (intro for_batch_admitted fail_admitted fold_admitted) (use assms in \<open>simp_all add: admitted_def\<close>)
qed

lemma step_admitted:
  assumes "step c st e st'" "admitted P Q st" "\<And>r. e = Submit r \<Longrightarrow> P r"
    "e = Abandon \<Longrightarrow> Q Abandoned"
  shows "admitted P Q st'"
proof -
  have "st' = perform c e st" using assms(1) by (auto elim: stepE)
  then show ?thesis
    using assms(2,3,4)
    by (cases e) (auto simp: reportInvalid_def intro: stop_admitted submit_admitted notifyFailure_admitted
        finish_deliver_admitted abandon_admitted)
qed

end

section \<open>Properties\<close>

definition deliverable :: "jsval \<Rightarrow> bool" where
  "deliverable d \<longleftrightarrow> (\<exists>now. conforms d (Some now))"

lemma judge_valid:
  "judge_record em r now = Valid d \<longleftrightarrow>
    (\<exists>copy. structuredClone (stamp em r) = Inr copy \<and> d = asJson None copy \<and> conforms d (Some now))"
proof -
  have "fst (inspect (Some v) (Some now)) = [] \<longleftrightarrow> conforms (asJson None v) (Some now)" for v
    using validate_conforms [of v "Some now"] by (simp add: validate_def)
  moreover have "snd (inspect (Some v) (Some now)) = asJson None v" for v
    by (simp add: inspect_def Let_def split_def)
  ultimately show ?thesis
    by (auto simp: judge_record_def Let_def split_def split: sum.splits if_splits)
qed

lemma pipeline_calls_submit:
  "CallSubmit d \<in> set (pipeline_calls em down cs) \<Longrightarrow> deliverable d"
proof (induction em down cs rule: pipeline_calls.induct)
  case (2 em down r clock system cs)
  then show ?case
    by (auto simp: judge_valid deliverable_def split: judged.splits bool.splits if_splits)
qed (auto split: if_splits)

interpretation gate: arrival_gate "client_pipe cfg onf ond" deliverable "\<lambda>_. True" for cfg onf ond
  by unfold_locales (auto simp: client_pipe_def intro: pipeline_calls_submit)

interpretation open_pipe: arrival_gate c "\<lambda>_. True" "\<lambda>p. p \<noteq> Abandoned" for c
  by unfold_locales auto

lemma client_admits:
  assumes "client_run (client_pipe cfg onf ond) em st"
  shows "admitted deliverable (\<lambda>_. True) st"
  using assms
proof (induction rule: client_run.induct)
  case (recorded st r clock system)
  have "deliverable d" if "judge_record em r now = Valid d" for now d
    using that by (auto simp: judge_valid deliverable_def)
  with recorded.IH show ?case
    by (auto simp: record_value_def reportInvalid_def intro: gate.submit_admitted
        gate.notifyFailure_admitted split: judged.splits)
next
  case (moved st e st')
  then show ?case by (auto intro: gate.step_admitted)
qed (simp add: admitted_def initial_def)

lemma new_client_bounds:
  assumes "new_client opts now = Inr cfg"
  shows "1 \<le> cfgQueue cfg \<and> 1 \<le> cfgBatch cfg \<and> cfgBatch cfg \<le> 500 \<and> 0 \<le> cfgLinger cfg \<and>
    cfgLinger cfg \<le> MAX_TIMER_MS \<and>
    (cfgEmitter cfg = JUndef \<or> emitter_issues (cfgEmitter cfg) now = [])"
proof -
  have "1 \<le> nat \<lfloor>q\<rfloor> \<longleftrightarrow> 1 \<le> q" for q :: rat
  proof -
    have "1 \<le> nat z \<longleftrightarrow> 1 \<le> z" for z :: int by arith
    then show ?thesis by simp
  qed
  moreover have "nat \<lfloor>b\<rfloor> \<le> 500" if "b \<le> 500" for b :: rat
  proof -
    from that have "\<lfloor>b\<rfloor> \<le> 500" by linarith
    then show ?thesis by arith
  qed
  ultimately show ?thesis
    using assms by (auto simp: new_client_def Let_def MAX_BATCH_SIZE_def not_less
        split: if_splits option.splits)
qed

text \<open>
  The constructor either refuses its arguments or builds a pipeline within the documented
  bounds: a queue of at least one record, batches of 1 to 500, a linger time a timer honours,
  and an emitter, if any, that the schema accepts.
\<close>

theorem constructor_bounds:
  assumes "new_client opts now = Inr cfg"
  shows "1 \<le> cfgQueue cfg \<and> 1 \<le> cfgBatch cfg \<and> cfgBatch cfg \<le> 500 \<and> 0 \<le> cfgLinger cfg \<and>
    cfgLinger cfg \<le> MAX_TIMER_MS \<and>
    (cfgEmitter cfg = JUndef \<or> emitter_issues (cfgEmitter cfg) now = [])"
  by (rule new_client_bounds [OF assms])

definition plain_options :: client_options where
  "plain_options = \<lparr>sinkOk = True, emitterOpt = JUndef, maxQueueOpt = JNum (Fin 4),
     batchMaxOpt = JNum (Fin 2), lingerOpt = JUndef, ownsOpt = JUndef\<rparr>"

definition plain_config :: client_config where
  "plain_config = \<lparr>cfgQueue = 4, cfgBatch = 2, cfgLinger = 5000, cfgOwns = True,
     cfgEmitter = JUndef\<rparr>"

lemma new_plain_client: "new_client plain_options now = Inr plain_config"
  by (simp add: new_client_def plain_options_def plain_config_def defaulted_def whole_def amount_def
      truthy_def MAX_BATCH_SIZE_def MAX_TIMER_MS_def Let_def)

theorem constructor_bounds_witness:
  "1 \<le> cfgQueue plain_config \<and> cfgBatch plain_config \<le> 500"
  using constructor_bounds [OF new_plain_client] by blast

lemma client_handed_valid:
  assumes "new_client opts now = Inr cfg"
    and "client_run (client_pipe cfg onf ond) (cfgEmitter cfg) st"
    and "b \<in> set (handed st)" "r \<in> set b"
  shows "\<exists>now. conforms r (Some now)"
proof -
  let ?c = "client_pipe cfg onf ond"
  have "1 \<le> batchMaxSize ?c" using new_client_bounds [OF assms(1)] by (simp add: client_pipe_def)
  then have "ordered st"
    using reachable_sound [OF client_run_reachable [OF assms(2)]] by (simp add: sound_def core_def)
  then have "set (concat (handed st) @ queue st) \<subseteq> set (arrivals st)"
    unfolding ordered_def by (blast elim: list_emb_set)
  with assms(3,4) have "r \<in> set (arrivals st)" by auto
  with client_admits [OF assms(2)] show ?thesis by (auto simp: admitted_def deliverable_def)
qed


lemma sample_record_judged: "judge_record JUndef sample_record 0 = Valid sample_record"
proof -
  have "structuredClone (stamp JUndef sample_record) = Inr sample_record"
    by (simp add: stamp_def sample_record_def named_def)
  moreover have "asJson None sample_record = sample_record"
    by (simp add: sample_record_def present_def)
  moreover have "conforms sample_record (Some 0)"
    using sample_record_valid validate_conforms calculation(2) by metis
  ultimately show ?thesis by (simp add: judge_valid)
qed


section \<open>What record() answers\<close>

lemma deliver_batch_depth: "depth (deliver_batch c st) =
    length (queue st) - batchMaxSize c + min (length (queue st)) (batchMaxSize c)"
  by (simp add: depth_def deliver_batch_eq)

lemma schedule_depth:
  assumes "phase st = Idle \<longrightarrow> inFlight st = []"
  shows "depth (schedule c st) = depth st"
  using assms
  by (auto simp: schedule_def run_def Let_def deliver_batch_depth) (auto simp: depth_def wake_def)

lemma submit_queued:
  assumes "depth st < maxQueueSize c" "phase st = Idle \<longrightarrow> inFlight st = []"
  shows "depth (submit c r st) = Suc (depth st)" "arrivals (submit c r st) = arrivals st @ [r]"
    "failures (submit c r st) = failures st"
proof -
  let ?st = "st\<lparr>submitted := submitted st + 1, arrivals := arrivals st @ [r], queue := queue st @ [r]\<rparr>"
  have s: "submit c r st = schedule c ?st"
    using assms(1) by (simp add: submit_def submit_with_def depth_def)
  have "depth (schedule c ?st) = depth ?st" by (rule schedule_depth) (use assms(2) in simp)
  then show "depth (submit c r st) = Suc (depth st)" unfolding s by (simp add: depth_def)
  show "arrivals (submit c r st) = arrivals st @ [r]" unfolding s by simp
  show "failures (submit c r st) = failures st"
    unfolding s by (simp add: schedule_def run_def wake_def deliver_batch_eq Let_def)
qed



section \<open>After shutdown\<close>

definition closed_out :: "pipe \<Rightarrow> bool" where
  "closed_out st \<longleftrightarrow> (stopping st = Abandoned \<longrightarrow> queue st = [] \<and> in_flight_records st = [])"

lemma client_quiet: "p \<noteq> Running \<Longrightarrow> quiet (client_pipe cfg onf ond) p"
proof -
  have "pipeline_calls em True cs = []" for em cs
    by (induction em True cs rule: pipeline_calls.induct) simp_all
  then show "p \<noteq> Running \<Longrightarrow> quiet (client_pipe cfg onf ond) p"
    by (auto simp: quiet_def client_pipe_def split: option.splits)
qed

text \<open>Once abandoned, every step a client can take leaves the ledger as it is.\<close>

lemma abandoned_step:
  assumes "step c st e st'" "client_event e" "stopping st = Abandoned"
    and "queue st = []" "in_flight_records st = []"
  shows "queue st' = [] \<and> in_flight_records st' = [] \<and> handed st' = handed st \<and> fates st' = fates st \<and>
    failures st' = failures st \<and> arrivals st' = arrivals st"
proof -
  have st': "st' = perform c e st" and e: "enabled e st" using assms(1) by (auto elim: stepE)
  show ?thesis
  proof (cases e)
    case (Answer a)
    then show ?thesis using assms st' finish_deliver_late [OF assms(5), of c a]
      by (simp add: in_flight_records_def)
  qed (use assms st' e in \<open>auto simp: flush_def stop_def run_def resume_def end_drain_def
      close_sink_def wake_def in_flight_records_def Let_def\<close>)
qed

lemma step_not_abandoned:
  assumes "step c st e st'" "stopping st \<noteq> Abandoned" "e \<noteq> Abandon"
  shows "stopping st' \<noteq> Abandoned"
  using open_pipe.step_admitted [OF assms(1)] assms(2,3) by (simp add: admitted_def)

lemma client_closes_out:
  assumes "client_run c em st" "1 \<le> batchMaxSize c" "quiet c Abandoned"
  shows "closed_out st"
  using assms
proof (induction rule: client_run.induct)
  case (recorded st r clock system)
  show ?case
  proof (cases "stopping st = Running")
    case True
    then have "stopping (submit c d st) \<noteq> Abandoned" "stopping (reportInvalid c d st) \<noteq> Abandoned" for d
      using step_not_abandoned [OF step.step [of "Submit d"]]
        step_not_abandoned [OF step.step [of "Report d"]] by auto
    with True show ?thesis by (auto simp: record_value_def closed_out_def split: judged.splits)
  qed (use recorded in \<open>simp add: record_value_def\<close>)
next
  case (moved st e st')
  then have run: "reachable c st" by (simp add: client_run_reachable)
  show ?case
  proof (cases "e = Abandon")
    case True
    with abandon_accounts [OF run moved.prems(1)] moved show ?thesis by (simp add: closed_out_def)
  next
    case False
    with step_not_abandoned [OF moved.hyps(3)] abandoned_step [OF moved.hyps(3,2)] moved
    show ?thesis by (auto simp: closed_out_def)
  qed
qed (simp add: closed_out_def initial_def)

text \<open>
  C14: After \<open>shutdown()\<close> has given up waiting, the client is at rest for good: nothing is queued
  or in flight, every record it took is counted as sent, dropped or unknown, and no later
  event, a late answer of the sink included, hands over a batch, changes a terminal state,
  or reports a failure. This holds whatever the callbacks record, because \<open>record()\<close> refuses.
\<close>

theorem shutdown_is_final:
  assumes "new_client opts now = Inr cfg" "c = client_pipe cfg onf ond" "client_run c em st"
    and "stopping st = Abandoned"
  shows "queue st = [] \<and> in_flight_records st = [] \<and>
    submitted st = sent st + dropped st + unknown st \<and>
    (\<forall>e st'. client_event e \<and> step c st e st' \<longrightarrow>
      handed st' = handed st \<and> fates st' = fates st \<and> failures st' = failures st)"
proof -
  have b: "1 \<le> batchMaxSize c"
    using new_client_bounds [OF assms(1)] by (simp add: client_pipe_def assms(2))
  have "queue st = [] \<and> in_flight_records st = []"
    using client_closes_out [OF assms(3) b] client_quiet [of Abandoned] assms(2,4)
    by (simp add: closed_out_def)
  with accounted [OF client_run_reachable [OF assms(3)] b] abandoned_step [OF _ _ assms(4)]
  show ?thesis by auto
qed

theorem shutdown_is_final_witness:
  "let c = client_pipe plain_config None None;
       st = perform c Abandon (perform c (EndDrain 0) (perform c (Stop 0)
         (snd (record_value c JUndef sample_record NoClock 0 initial))))
   in unknown st = 1 \<and> submitted st = sent st + dropped st + unknown st"
proof -
  let ?c = "client_pipe plain_config None None"
  let ?a = "snd (record_value ?c JUndef sample_record NoClock 0 initial)"
  let ?d = "perform ?c (EndDrain 0) (perform ?c (Stop 0) ?a)"
  have a: "?a = submit ?c sample_record initial"
    by (simp add: record_value_def client_now_def sample_record_judged initial_def)
  have e: "enabled (Stop 0) (submit ?c sample_record initial)"
    "enabled (EndDrain 0) (perform ?c (Stop 0) (submit ?c sample_record initial))"
    "enabled Abandon (perform ?c (EndDrain 0) (perform ?c (Stop 0) (submit ?c sample_record initial)))"
    by code_simp+
  have "client_run ?c JUndef ?a" by (rule client_run.recorded [OF client_run.new])
  from client_run.moved [OF this _ step.step, of "Stop 0"]
  have "client_run ?c JUndef (perform ?c (Stop 0) ?a)" using e(1) by (simp only: a client_event.simps)
  from client_run.moved [OF this _ step.step, of "EndDrain 0"]
  have "client_run ?c JUndef ?d" using e(2) by (simp only: a client_event.simps)
  from client_run.moved [OF this _ step.step, of Abandon]
  have run: "client_run ?c JUndef (perform ?c Abandon ?d)"
    using e(3) by (simp only: a client_event.simps)
  have "stopping (perform ?c Abandon ?d) = Abandoned" "unknown (perform ?c Abandon ?d) = 1"
    unfolding a by code_simp+
  with shutdown_is_final [OF new_plain_client refl run] show ?thesis by (simp add: Let_def)
qed

end
