(* ===== verification/Retry.thy ===== *)
theory Retry
  imports Client
begin

text \<open>
  The retry policies of the sinks, \<open>sinks/lago/typescript/src/retry.ts\<close> and
  \<open>sinks/chargebee/typescript/src/retry.ts\<close>: their constructors and \<open>delayMs\<close> are the same.
  Numbers are exact rationals up to the largest double, beyond which a power or a product is
  infinite; rounding is not modelled. \<open>Math.random()\<close> is an argument, and so is \<open>Date.parse\<close>.
\<close>

section \<open>Arithmetic\<close>

definition max_double :: rat where
  "max_double = (2 ^ 53 - 1) * 2 ^ 971"

definition capped :: "rat \<Rightarrow> jsnum" where
  "capped x = (if max_double < x then PosInf else if x < - max_double then NegInf else Fin x)"

text \<open>The operations the policy uses, on the non-negative numbers it uses them on.\<close>

fun js_times :: "jsnum \<Rightarrow> jsnum \<Rightarrow> jsnum" where
  "js_times (Fin a) (Fin b) = capped (a * b)"
| "js_times (Fin a) PosInf = (if a = 0 then NaN else if 0 < a then PosInf else NegInf)"
| "js_times PosInf (Fin b) = (if b = 0 then NaN else if 0 < b then PosInf else NegInf)"
| "js_times PosInf PosInf = PosInf"
| "js_times _ _ = NaN"

definition js_power :: "rat \<Rightarrow> nat \<Rightarrow> jsnum" where
  "js_power a n = capped (a ^ n)"

fun js_min :: "jsnum \<Rightarrow> jsnum \<Rightarrow> jsnum" where
  "js_min NaN _ = NaN"
| "js_min _ NaN = NaN"
| "js_min a b = (if num_less b a then b else a)"

fun js_max :: "jsnum \<Rightarrow> jsnum \<Rightarrow> jsnum" where
  "js_max NaN _ = NaN"
| "js_max _ NaN = NaN"
| "js_max a b = (if num_less a b then b else a)"

section \<open>The policy\<close>

definition MAX_DELAY_MS :: rat where
  "MAX_DELAY_MS = 2147483647"

record retry_options =
  maxAttemptsOpt :: jsval
  initialBackoffOpt :: jsval
  maxBackoffOpt :: jsval
  multiplierOpt :: jsval

record retry_policy =
  maxAttempts :: nat
  initialBackoffMs :: rat
  maxBackoffMs :: rat
  multiplier :: rat

definition finite_from :: "string \<Rightarrow> rat \<Rightarrow> string \<Rightarrow> jsval \<Rightarrow> audr_error + rat" where
  "finite_from name minimum shown v =
     (case amount v of
        None \<Rightarrow> Inl (ConfigurationError (name @ '' must be a finite number''))
      | Some x \<Rightarrow>
          if x < minimum then Inl (ConfigurationError (name @ '' must be at least '' @ shown)) else Inr x)"

definition new_policy :: "retry_options \<Rightarrow> audr_error + retry_policy" where
  "new_policy opts =
     (case whole (coalesce (maxAttemptsOpt opts) (JNum (Fin 3))) of
        None \<Rightarrow> Inl (ConfigurationError ''maxAttempts must be an integer'')
      | Some n \<Rightarrow>
          if n < 1 then Inl (ConfigurationError ''maxAttempts must be at least 1'')
          else case finite_from ''initialBackoffMs'' 0 ''0'' (coalesce (initialBackoffOpt opts) (JNum (Fin 500))) of
            Inl e \<Rightarrow> Inl e
          | Inr first \<Rightarrow>
              (case finite_from ''maxBackoffMs'' 0 ''0'' (coalesce (maxBackoffOpt opts) (JNum (Fin 30000))) of
                 Inl e \<Rightarrow> Inl e
               | Inr cap \<Rightarrow>
                   (case finite_from ''multiplier'' 1 ''1'' (coalesce (multiplierOpt opts) (JNum (Fin 2))) of
                      Inl e \<Rightarrow> Inl e
                    | Inr growth \<Rightarrow>
                        if MAX_DELAY_MS < cap
                        then Inl (ConfigurationError ''maxBackoffMs must be at most 2147483647'')
                        else Inr \<lparr>maxAttempts = nat \<lfloor>n\<rfloor>, initialBackoffMs = first,
                                  maxBackoffMs = cap, multiplier = growth\<rparr>)))"

text \<open>\<open>delayMs\<close> at attempt \<open>n\<close>, with the hint of the server, if it gave one.\<close>

definition delayMs :: "retry_policy \<Rightarrow> rat \<Rightarrow> nat \<Rightarrow> rat option \<Rightarrow> jsnum" where
  "delayMs p random n hint =
     (let ceiling = js_min (Fin (maxBackoffMs p))
            (js_times (Fin (initialBackoffMs p)) (js_power (multiplier p) (n - 1)));
          jittered = js_times (Fin random) ceiling
      in case hint of
           None \<Rightarrow> jittered
         | Some h \<Rightarrow> js_min (Fin (maxBackoffMs p)) (js_max jittered (Fin h)))"

section \<open>Hints\<close>

text \<open>The groups of characters a hint is written with; \<open>spaces\<close> are what \<open>trim\<close> removes.\<close>

definition upper_letter :: rx where "upper_letter = Cls [(CHR ''A'', CHR ''Z'')]"

definition lower_letter :: rx where "lower_letter = Cls [(CHR ''a'', CHR ''z'')]"

definition IMF_FIXDATE :: rx where
  "IMF_FIXDATE = Cat
     [upper_letter, Rep 2 lower_letter, Str '', '', Rep 2 Digit, Str '' '', upper_letter,
      Rep 2 lower_letter, Str '' '', Rep 4 Digit, Str '' '', Rep 2 Digit, Str '':'', Rep 2 Digit,
      Str '':'', Rep 2 Digit, Str '' GMT'']"

definition DELAY_SECONDS :: rx where
  "DELAY_SECONDS = Plus Digit"

definition parseDelaySecondsMs :: "string option \<Rightarrow> rat option" where
  "parseDelaySecondsMs value =
     (case value of
        None \<Rightarrow> None
      | Some s \<Rightarrow> if matches DELAY_SECONDS (trim s) then Some (of_nat (num_of (trim s)) * 1000) else None)"

definition parseRetryAfterMs :: "(string \<Rightarrow> int option) \<Rightarrow> int \<Rightarrow> string option \<Rightarrow> rat option" where
  "parseRetryAfterMs date_parse now value =
     (case value of
        None \<Rightarrow> None
      | Some s \<Rightarrow>
          let t = trim s in
          if matches DELAY_SECONDS t then parseDelaySecondsMs (Some t)
          else if \<not> matches IMF_FIXDATE t then None
          else map_option (\<lambda>due. of_int (max 0 (due - now))) (date_parse t))"

definition retryHintMs :: "(string \<Rightarrow> int option) \<Rightarrow> int \<Rightarrow> int \<Rightarrow> string option \<Rightarrow> string option \<Rightarrow>
    rat option" where
  "retryHintMs date_parse now status retry_after rate_reset =
     (case (parseRetryAfterMs date_parse now retry_after,
            if status = 429 then parseDelaySecondsMs rate_reset else None) of
        (Some a, Some b) \<Rightarrow> Some (max a b)
      | (a, None) \<Rightarrow> a
      | (None, b) \<Rightarrow> b)"

section \<open>Bounds\<close>

lemma finite_from_least: "finite_from name minimum shown v = Inr x \<Longrightarrow> minimum \<le> x"
  by (auto simp: finite_from_def split: option.splits if_splits)

lemma new_policy_bounds:
  assumes "new_policy opts = Inr p"
  shows "1 \<le> maxAttempts p" "0 \<le> initialBackoffMs p" "0 \<le> maxBackoffMs p"
    "maxBackoffMs p \<le> MAX_DELAY_MS" "1 \<le> multiplier p"
proof -
  have f: "finite_from ''initialBackoffMs'' 0 ''0'' (coalesce (initialBackoffOpt opts) (JNum (Fin 500))) =
        Inr (initialBackoffMs p)"
      "finite_from ''maxBackoffMs'' 0 ''0'' (coalesce (maxBackoffOpt opts) (JNum (Fin 30000))) =
        Inr (maxBackoffMs p)"
      "finite_from ''multiplier'' 1 ''1'' (coalesce (multiplierOpt opts) (JNum (Fin 2))) =
        Inr (multiplier p)"
    and cap: "\<not> MAX_DELAY_MS < maxBackoffMs p"
    using assms unfolding new_policy_def
    by (clarsimp split: option.split_asm if_split_asm sum.split_asm)+
  have "\<exists>n :: rat. \<not> n < 1 \<and> maxAttempts p = nat \<lfloor>n\<rfloor>"
    using assms unfolding new_policy_def
    by (clarsimp split: option.split_asm if_split_asm sum.split_asm) (rule exI, rule conjI, assumption, rule refl)
  then obtain n :: rat where n: "\<not> n < 1" "maxAttempts p = nat \<lfloor>n\<rfloor>" by (elim exE conjE)
  have "1 \<le> \<lfloor>n\<rfloor>" using n(1) by simp
  then show "1 \<le> maxAttempts p" unfolding n(2) by arith
  show "0 \<le> initialBackoffMs p" "0 \<le> maxBackoffMs p" "1 \<le> multiplier p"
    by (rule finite_from_least, rule f)+
  show "maxBackoffMs p \<le> MAX_DELAY_MS" using cap by simp
qed

lemma MAX_DELAY_finite: "x \<le> MAX_DELAY_MS \<Longrightarrow> x \<le> max_double"
proof -
  have "(2 ^ 53 - 1) * 1 \<le> ((2 ^ 53 - 1) * 2 ^ 971 :: rat)"
    by (intro mult_left_mono one_le_power) simp_all
  moreover have "MAX_DELAY_MS \<le> (2 ^ 53 - 1) * 1" by (simp add: MAX_DELAY_MS_def)
  ultimately show "x \<le> MAX_DELAY_MS \<Longrightarrow> x \<le> max_double" unfolding max_double_def by linarith
qed

lemma ceiling_bounds:
  assumes "0 < i \<or> m ^ n \<le> max_double" "0 \<le> i" "1 \<le> m" "0 \<le> cap" "cap \<le> MAX_DELAY_MS"
  shows "\<exists>x. js_min (Fin cap) (js_times (Fin i) (js_power m n)) = Fin x \<and> 0 \<le> x \<and> x \<le> cap"
proof (cases "max_double < m ^ n")
  case True
  with assms(1) show ?thesis using assms(4) by (auto simp: js_power_def capped_def)
next
  case False
  have "0 \<le> i * m ^ n" using assms(2,3) by simp
  moreover have "- max_double \<le> 0" by (simp add: max_double_def)
  moreover have "- max_double \<le> m ^ n" using \<open>- max_double \<le> 0\<close> assms(3)
    by (meson order_trans one_le_power zero_le_one)
  ultimately show ?thesis using False assms(4,5)
    by (auto simp: js_power_def capped_def not_less)
qed

text \<open>
  Every delay of a policy that waits at all before its first retry is a number of
  milliseconds between zero and \<open>maxBackoffMs\<close>, which a timer honours, and is never shorter
  than a hint of the server that lies within that bound.
\<close>

theorem delay_bounded:
  assumes "new_policy opts = Inr p" "0 < initialBackoffMs p" "0 \<le> random" "random < 1"
    and "\<forall>h. hint = Some h \<longrightarrow> 0 \<le> h"
  shows "\<exists>d. delayMs p random n hint = Fin d \<and> 0 \<le> d \<and> d \<le> maxBackoffMs p \<and>
    d \<le> MAX_DELAY_MS \<and> (\<forall>h. hint = Some h \<longrightarrow> min h (maxBackoffMs p) \<le> d)"
proof -
  note b = new_policy_bounds [OF assms(1)]
  obtain x where x: "js_min (Fin (maxBackoffMs p))
      (js_times (Fin (initialBackoffMs p)) (js_power (multiplier p) (n - 1))) = Fin x"
    "0 \<le> x" "x \<le> maxBackoffMs p"
    using ceiling_bounds [OF _ b(2,5,3,4), of "n - 1"] assms(2) by blast
  have j: "0 \<le> random * x" "random * x \<le> x"
    using assms(3,4) x(2) by (simp_all add: mult_left_le_one_le)
  moreover have "x \<le> max_double" using x(3) b(4) MAX_DELAY_finite order_trans by blast
  moreover have "- max_double \<le> 0" by (simp add: max_double_def)
  ultimately have "js_times (Fin random) (Fin x) = Fin (random * x)"
    by (simp add: capped_def)
  with x j assms(5) b(3,4) show ?thesis
    by (cases hint) (auto simp: delayMs_def min_def)
qed

text \<open>
  A policy that starts from a backoff of zero has no number for its delay once the growth
  factor overflows: zero times infinity is \<open>NaN\<close>, with or without a hint, which a timer takes
  for no delay at all.
\<close>

theorem zero_backoff_overflows:
  assumes "new_policy opts = Inr p" "initialBackoffMs p = 0" "max_double < multiplier p ^ (n - 1)"
  shows "delayMs p random n hint = NaN"
  using assms(2,3) by (cases hint) (simp_all add: delayMs_def js_power_def capped_def)

definition zero_options :: retry_options where
  "zero_options = \<lparr>maxAttemptsOpt = JNum (Fin 2000), initialBackoffOpt = JNum (Fin 0),
     maxBackoffOpt = JUndef, multiplierOpt = JUndef\<rparr>"

definition usual_options :: retry_options where
  "usual_options = \<lparr>maxAttemptsOpt = JUndef, initialBackoffOpt = JUndef, maxBackoffOpt = JUndef,
     multiplierOpt = JNull\<rparr>"

lemmas policy_eval = new_policy_def finite_from_def amount_def whole_def coalesce_def nullish_def
  MAX_DELAY_MS_def

lemma zero_policy: "new_policy zero_options =
    Inr \<lparr>maxAttempts = 2000, initialBackoffMs = 0, maxBackoffMs = 30000, multiplier = 2\<rparr>"
  by (simp add: policy_eval zero_options_def)

lemma usual_policy: "new_policy usual_options =
    Inr \<lparr>maxAttempts = 3, initialBackoffMs = 500, maxBackoffMs = 30000, multiplier = 2\<rparr>"
  by (simp add: policy_eval usual_options_def)

theorem delay_bounded_witness:
  "\<exists>d. delayMs \<lparr>maxAttempts = 3, initialBackoffMs = 500, maxBackoffMs = 30000, multiplier = 2\<rparr>
      (1 / 2) 2 (Some 60000) = Fin d \<and> d = 30000"
proof -
  from delay_bounded [OF usual_policy, of "1 / 2" "Some 60000" 2]
  obtain d where "delayMs \<lparr>maxAttempts = 3, initialBackoffMs = 500, maxBackoffMs = 30000, multiplier = 2\<rparr>
      (1 / 2) 2 (Some 60000) = Fin d" "d \<le> 30000" "30000 \<le> d" by auto
  then show ?thesis by (auto intro: antisym)
qed

theorem zero_backoff_overflows_witness:
  "delayMs \<lparr>maxAttempts = 2000, initialBackoffMs = 0, maxBackoffMs = 30000, multiplier = 2\<rparr>
     (1 / 2) 1999 None = NaN"
  by (rule zero_backoff_overflows [OF zero_policy]) (simp_all add: max_double_def)

end
