(* ===== verification/Transport.thy ===== *)
theory Transport
  imports Retry
begin

text \<open>
  \<open>sinks/lago/typescript/src/transport.ts\<close> and \<open>sinks/chargebee/typescript/src/transport.ts\<close>.
  What the outside does during one attempt is a \<open>moment\<close>: whether the sink is closed or the
  caller's signal aborted at each point where the code looks, what the destination answers,
  the clock and the jitter. Attempts take the moments one after the other. A request that
  passes its deadline shows as a network error.
\<close>

text \<open>A network error: the \<open>code\<close> of its cause and its name, or the
  type of a thrown value that is no error.\<close>

datatype net_error = NetError jsval string | NotAnError string

datatype reply =
    NetworkError net_error
  | Replied int "jsval option" "string option" "string option"

text \<open>The flags say closed and aborted.\<close>

record moment =
  at_post :: "bool \<times> bool"
  reply :: reply
  on_error :: "bool \<times> bool"
  on_pause :: "bool \<times> bool"
  time_ms :: int
  jitter :: rat

record 'e wire =
  attempts :: nat
  posts :: "'e list list"
  waits :: "jsnum list"

text \<open>The check of the request deadline the constructors make.\<close>

definition new_transport :: "jsval \<Rightarrow> audr_error + rat" where
  "new_transport timeout =
     (case amount (coalesce timeout (JNum (Fin 10000))) of
        None \<Rightarrow> Inl (ConfigurationError ''timeoutMs must be a finite number greater than 0'')
      | Some ms \<Rightarrow>
          if ms \<le> 0 then Inl (ConfigurationError ''timeoutMs must be a finite number greater than 0'')
          else if MAX_DELAY_MS < ms
          then Inl (ConfigurationError ''timeoutMs must be at most 2147483647'')
          else Inr ms)"

text \<open>
  \<open>post\<close>: nothing is sent once the sink is closed or the caller has aborted; otherwise the
  request is on its way, and an error counts as closed or aborted if it is by then.
\<close>

datatype posted =
    ClosedError
  | AbortedError
  | Broke net_error
  | Got int "jsval option" "string option" "string option"

definition stopped_by :: "bool \<times> bool \<Rightarrow> posted option" where
  "stopped_by f = (if fst f then Some ClosedError else if snd f then Some AbortedError else None)"

definition post :: "moment \<Rightarrow> 'e list \<Rightarrow> 'e wire \<Rightarrow> posted \<times> 'e wire" where
  "post m events w0 =
     (let w = w0\<lparr>attempts := attempts w0 + 1\<rparr> in case stopped_by (at_post m) of
        Some s \<Rightarrow> (s, w)
      | None \<Rightarrow>
          (case reply m of
             Replied status body retry_after rate_reset \<Rightarrow> Got status body retry_after rate_reset
           | NetworkError e \<Rightarrow> (case stopped_by (on_error m) of Some s \<Rightarrow> s | None \<Rightarrow> Broke e),
           w\<lparr>posts := posts w @ [events]\<rparr>))"

lemma post_posts:
  "posts (snd (post m events w)) = posts w \<or> posts (snd (post m events w)) = posts w @ [events]"
  "fst (post m events w) \<in> {ClosedError, AbortedError} \<or> posts (snd (post m events w)) = posts w @ [events]"
  by (auto simp: post_def stopped_by_def Let_def split: reply.splits option.splits)

end
