(* ===== verification/LagoSink.thy ===== *)
theory LagoSink
  imports LagoResponse Transport
begin

text \<open>
  \<open>sinks/lago/typescript/src/tally.ts\<close>, \<open>transport.ts\<close> and \<open>sink.ts\<close>: the delivery of a batch
  to Lago. What the outside does during one attempt is a \<open>moment\<close>: whether the sink is closed
  or the caller's signal aborted at each point where the code looks, what the destination
  answers, the clock and the jitter. Attempts take the moments one after the other. The log
  messages are not modelled, nor is the deadline of a request, which shows as a network error.
\<close>

section \<open>The tally of a batch\<close>

datatype stop_reason = StopClosed | StopAborted | StopUnconfirmed | StopFailed bool string

text \<open>\<open>held\<close> lists the identifiers confirmed; the code keeps their number only.\<close>

record tally =
  t_events :: "lago_event list"
  t_rejected :: "(string \<times> string) list"
  t_refused :: "(string \<times> string) list"
  settled :: "string list"
  confirmed :: nat
  t_stop :: "stop_reason option"
  held :: "string list"

definition new_tally :: "lago_event list \<Rightarrow> (string \<times> string) list \<Rightarrow> tally" where
  "new_tally events rej = \<lparr>t_events = events, t_rejected = rej, t_refused = [], settled = [],
     confirmed = 0, t_stop = None, held = []\<rparr>"

definition confirm :: "lago_event list \<Rightarrow> tally \<Rightarrow> tally" where
  "confirm events t = t\<lparr>settled := settled t @ map transaction_id events,
     confirmed := confirmed t + length events, held := held t @ map transaction_id events\<rparr>"

definition reject :: "string \<Rightarrow> string \<Rightarrow> tally \<Rightarrow> tally" where
  "reject i why t = t\<lparr>t_rejected := t_rejected t @ [(i, why)], settled := settled t @ [i]\<rparr>"

definition refuse :: "lago_event list \<Rightarrow> string \<Rightarrow> tally \<Rightarrow> tally" where
  "refuse events why t =
     t\<lparr>t_refused := t_refused t @ map (\<lambda>e. (transaction_id e, why)) events,
       settled := settled t @ map transaction_id events\<rparr>"

definition halt :: "stop_reason \<Rightarrow> tally \<Rightarrow> tally" where
  "halt s t = t\<lparr>t_stop := (case t_stop t of None \<Rightarrow> Some s | s' \<Rightarrow> s')\<rparr>"

definition unresolved :: "tally \<Rightarrow> string list" where
  "unresolved t = filter (\<lambda>i. i \<notin> set (settled t)) (map transaction_id (t_events t))"

definition with_detail :: "(string \<times> string) list \<Rightarrow> (string \<times> string option) list" where
  "with_detail = map (\<lambda>(i, d). (i, Some d))"

definition tally_result :: "tally \<Rightarrow> batch_result" where
  "tally_result t =
     (case t_stop t of
        None \<Rightarrow> Accepted (with_detail (t_rejected t)) (unresolved t)
      | Some s \<Rightarrow>
          if s = StopAborted \<or> s = StopUnconfirmed \<or> 0 < confirmed t \<or> t_rejected t \<noteq> []
          then Accepted (with_detail (t_rejected t @ t_refused t)) (unresolved t)
          else (case s of
                  StopFailed retry why \<Rightarrow> failed retry (Some why)
                | _ \<Rightarrow> Closed_result))"

section \<open>One request\<close>

definition SAFE_NAME :: "string \<Rightarrow> bool" where
  "SAFE_NAME s \<longleftrightarrow>
     matches (Sq (Cls [(CHR ''A'', CHR ''Z''), (CHR ''a'', CHR ''z'')])
       (Star (Cls [(CHR ''A'', CHR ''Z''), (CHR ''a'', CHR ''z''), (CHR ''0'', CHR ''9''), (CHR ''_'', CHR ''_'')]))) s \<and>
     length s \<le> 64"

fun nameOf :: "net_error \<Rightarrow> string" where
  "nameOf (NetError c n) =
     (if (case c of JStr s \<Rightarrow> SAFE_NAME s | _ \<Rightarrow> False) then text_of c
      else if SAFE_NAME n then n else ''Error'')"
| "nameOf (NotAnError _) = ''Error''"

datatype exchanged = ExAccepted | ExInvalid jsval | ExStop stop_reason

definition interruption :: "bool \<times> bool \<Rightarrow> stop_reason option" where
  "interruption f = (if fst f then Some StopClosed else if snd f then Some StopAborted else None)"

definition http_detail :: "int \<Rightarrow> string" where
  "http_detail status = ''http_'' @ nat_str (nat status)"

text \<open>
  One turn of the loop of \<open>#exchange\<close>, attempt number \<open>n\<close>: \<open>transport.post\<close> and the verdict on its
  outcome, or, as a right value, the end of \<open>#backOff\<close>, from which the next attempt starts.
\<close>

definition back_off :: "retry_policy \<Rightarrow> moment \<Rightarrow> nat \<Rightarrow> rat option \<Rightarrow> stop_reason \<Rightarrow> lago_event wire \<Rightarrow>
    exchanged \<times> lago_event wire + lago_event wire" where
  "back_off p m n hint failure w =
     (if maxAttempts p \<le> n then Inl (ExStop failure, w)
      else let w = w\<lparr>waits := waits w @ [delayMs p (jitter m) n hint]\<rparr>
        in case interruption (on_pause m) of Some s \<Rightarrow> Inl (ExStop s, w) | None \<Rightarrow> Inr w)"

definition judge_reply :: "(string \<Rightarrow> int option) \<Rightarrow> retry_policy \<Rightarrow> moment \<Rightarrow> nat \<Rightarrow> posted \<Rightarrow> lago_event wire \<Rightarrow>
    exchanged \<times> lago_event wire + lago_event wire" where
  "judge_reply date_parse p m n outcome w =
     (case outcome of
        ClosedError \<Rightarrow> Inl (ExStop StopClosed, w)
      | AbortedError \<Rightarrow> Inl (ExStop StopAborted, w)
      | Broke e \<Rightarrow> back_off p m n None (StopFailed True (nameOf e)) w
      | Got status body retry_after rate_reset \<Rightarrow>
          (case classifyStatus status of
             StInvalid \<Rightarrow>
               (case body of
                  Some v \<Rightarrow> Inl (ExInvalid v, w)
                | None \<Rightarrow>
                    (case interruption (on_pause m) of
                       Some s \<Rightarrow> Inl (ExStop s, w) | None \<Rightarrow> Inl (ExInvalid JUndef, w)))
           | StAccepted \<Rightarrow> Inl (ExAccepted, w)
           | StUnconfirmed \<Rightarrow> Inl (ExStop StopUnconfirmed, w)
           | StTransient \<Rightarrow>
               back_off p m n (retryHintMs date_parse (time_ms m) status retry_after rate_reset)
                 (StopFailed True (http_detail status)) w
           | StCredential \<Rightarrow> Inl (ExStop (StopFailed False ''auth''), w)
           | StForbidden \<Rightarrow> Inl (ExStop (StopFailed False ''forbidden''), w)
           | StTooLarge \<Rightarrow> Inl (ExStop (StopFailed False ''payload_too_large''), w)
           | StPermanent \<Rightarrow> Inl (ExStop (StopFailed False (http_detail status)), w)))"

definition one_attempt :: "(string \<Rightarrow> int option) \<Rightarrow> retry_policy \<Rightarrow> (nat \<Rightarrow> moment) \<Rightarrow>
    lago_event list \<Rightarrow> nat \<Rightarrow> lago_event wire \<Rightarrow> exchanged \<times> lago_event wire + lago_event wire" where
  "one_attempt date_parse p env events n w =
     (let m = env (attempts w); (outcome, w) = post m events w
      in judge_reply date_parse p m n outcome w)"

lemma one_attempt_again: "one_attempt date_parse p env events n w = Inr w' \<Longrightarrow> n < maxAttempts p"
  by (auto simp: one_attempt_def judge_reply_def back_off_def Let_def
      split: option.splits posted.splits status_class.splits if_splits prod.splits)

function exchange :: "(string \<Rightarrow> int option) \<Rightarrow> retry_policy \<Rightarrow> (nat \<Rightarrow> moment) \<Rightarrow> lago_event list \<Rightarrow>
    nat \<Rightarrow> lago_event wire \<Rightarrow> exchanged \<times> lago_event wire" where
  "exchange date_parse p env events n w =
     (case one_attempt date_parse p env events n w of
        Inl r \<Rightarrow> r | Inr w \<Rightarrow> exchange date_parse p env events (n + 1) w)"
  by pat_completeness auto
termination
  by (relation "measure (\<lambda>(_, p, _, _, n, _). maxAttempts p - n)") (auto dest: one_attempt_again)

declare exchange.simps [simp del]

section \<open>A batch\<close>

definition MAX_EVENTS_PER_REQUEST :: nat where "MAX_EVENTS_PER_REQUEST = 100"

definition MAX_SALVAGE_PASSES :: nat where "MAX_SALVAGE_PASSES = 3"

text \<open>What a trusted \<open>422\<close> settles; the events it does not name survive.\<close>

definition settle_event :: "verdict \<Rightarrow> lago_event list \<times> tally \<Rightarrow> nat \<times> lago_event \<Rightarrow>
    lago_event list \<times> tally" where
  "settle_event v acc entry =
     (case map_of (rev (refused_events v)) (fst entry) of
        Some why \<Rightarrow> (fst acc, reject (transaction_id (snd entry)) why (snd acc))
      | None \<Rightarrow>
          if fst entry \<in> set (duplicates v) then (fst acc, confirm [snd entry] (snd acc))
          else (fst acc @ [snd entry], snd acc))"

definition salvage :: "verdict \<Rightarrow> lago_event list \<Rightarrow> tally \<Rightarrow> lago_event list \<times> tally" where
  "salvage v pending t = foldl (settle_event v) ([], t) (List.enumerate 0 pending)"

text \<open>\<open>#deliverChunk\<close> with \<open>left\<close> of its salvage passes left.\<close>

fun deliverChunk :: "(string \<Rightarrow> int option) \<Rightarrow> retry_policy \<Rightarrow> (nat \<Rightarrow> moment) \<Rightarrow> nat \<Rightarrow>
    lago_event list \<Rightarrow> tally \<Rightarrow> lago_event wire \<Rightarrow> stop_reason option \<times> tally \<times> lago_event wire" where
  "deliverChunk date_parse p env left pending t w =
     (if pending = [] then (None, t, w)
      else case exchange date_parse p env pending 1 w of
        (ExAccepted, w) \<Rightarrow> (None, confirm pending t, w)
      | (ExInvalid body, w) \<Rightarrow>
          (if exceedsBatchLimit body
           then (Some (StopFailed False ''too_many_events''), refuse pending ''too_many_events'' t, w)
           else case left of
             0 \<Rightarrow> (Some (StopFailed False ''http_422''), t, w)
           | Suc left \<Rightarrow>
               (case parseValidationErrors body (length pending) of
                  None \<Rightarrow> (Some (StopFailed False ''http_422''), refuse pending ''http_422'' t, w)
                | Some v \<Rightarrow>
                    (case salvage v pending t of
                       (survivors, t) \<Rightarrow> deliverChunk date_parse p env left survivors t w)))
      | (ExStop (StopFailed retry why), w) \<Rightarrow>
          (Some (StopFailed retry why), if retry then t else refuse pending why t, w)
      | (ExStop s, w) \<Rightarrow> (Some s, t, w))"

declare deliverChunk.simps [simp del]

function deliver_events :: "(string \<Rightarrow> int option) \<Rightarrow> retry_policy \<Rightarrow> (nat \<Rightarrow> moment) \<Rightarrow>
    lago_event list \<Rightarrow> tally \<Rightarrow> lago_event wire \<Rightarrow> tally \<times> lago_event wire" where
  "deliver_events date_parse p env events t w =
     (if events = [] \<or> t_stop t \<noteq> None then (t, w)
      else case deliverChunk date_parse p env MAX_SALVAGE_PASSES (take MAX_EVENTS_PER_REQUEST events) t w of
        (s, t, w) \<Rightarrow>
          deliver_events date_parse p env (drop MAX_EVENTS_PER_REQUEST events)
            (case s of None \<Rightarrow> t | Some s \<Rightarrow> halt s t) w)"
  by pat_completeness auto
termination
  by (relation "measure (\<lambda>(_, _, _, events, _, _). length events)")
    (auto simp: MAX_EVENTS_PER_REQUEST_def)

declare deliver_events.simps [simp del]

section \<open>The sink\<close>

text \<open>
  \<open>lago_env\<close> holds the moments to come, \<open>lago_closed\<close> is the state of the transport between
  deliveries. An element of the batch that is no object makes \<open>deliver\<close> answer \<open>internal_error\<close>.
\<close>

record lago_sink =
  lago_policy :: retry_policy
  lago_closed :: bool
  lago_env :: "nat \<Rightarrow> moment"
  lago_wire :: "lago_event wire"

definition lago_deliver :: "(jsval \<Rightarrow> string) \<Rightarrow> (string \<Rightarrow> int option) \<Rightarrow> lago_sink \<Rightarrow> jsval list \<Rightarrow>
    answer \<times> lago_sink" where
  "lago_deliver stringify date_parse s batch =
     (if lago_closed s then (Answered Closed_result, s)
      else case preflight stringify date_parse batch of
        None \<Rightarrow> (Answered (failed False (Some ''internal_error'')), s)
      | Some (events, rej) \<Rightarrow>
          (case deliver_events date_parse (lago_policy s) (lago_env s) events (new_tally events rej) (lago_wire s) of
             (t, w) \<Rightarrow> (Answered (tally_result t), s\<lparr>lago_wire := w\<rparr>)))"

definition lago_close :: "lago_sink \<Rightarrow> lago_sink" where
  "lago_close s = s\<lparr>lago_closed := True\<rparr>"

section \<open>The tally's invariant\<close>

text \<open>
  \<open>J\<close> are the identifiers rejected before anything was sent, the others those of the events.
\<close>

definition ids :: "lago_event list \<Rightarrow> string set" where
  "ids events = transaction_id ` set events"

definition rejected_ids :: "tally \<Rightarrow> string set" where
  "rejected_ids t = fst ` set (t_rejected t)"

definition refused_ids :: "tally \<Rightarrow> string set" where
  "refused_ids t = fst ` set (t_refused t)"

definition tallied :: "string set \<Rightarrow> tally \<Rightarrow> bool" where
  "tallied J t \<longleftrightarrow>
     J \<inter> ids (t_events t) = {} \<and> J \<subseteq> rejected_ids t \<and> rejected_ids t \<subseteq> J \<union> ids (t_events t) \<and>
     set (settled t) = set (held t) \<union> (rejected_ids t - J) \<union> refused_ids t \<and>
     set (settled t) \<subseteq> ids (t_events t) \<and>
     set (held t) \<inter> rejected_ids t = {} \<and> set (held t) \<inter> refused_ids t = {} \<and>
     rejected_ids t \<inter> refused_ids t = {} \<and> confirmed t = length (held t)"

text \<open>What one piece of the delivery may do: settle events of \<open>P\<close>, and nothing else.\<close>

definition settles :: "string set \<Rightarrow> tally \<Rightarrow> tally \<Rightarrow> bool" where
  "settles P t t' \<longleftrightarrow>
     t_events t' = t_events t \<and> t_stop t' = t_stop t \<and> set (settled t) \<subseteq> set (settled t') \<and>
     set (settled t') \<subseteq> set (settled t) \<union> P"

lemma settles_refl [simp]: "settles P t t"
  by (simp add: settles_def)

lemma settles_trans: "settles P t t' \<Longrightarrow> settles P t' t'' \<Longrightarrow> settles P t t''"
  by (auto simp: settles_def)

lemma settles_mono: "settles P t t' \<Longrightarrow> P \<subseteq> Q \<Longrightarrow> settles Q t t'"
  by (auto simp: settles_def)

lemma ids_simps [simp]: "ids [] = {}" "ids (e # es) = insert (transaction_id e) (ids es)"
  "ids (es @ es') = ids es \<union> ids es'"
  by (auto simp: ids_def)

lemma set_transaction_ids: "set (map transaction_id es) = ids es"
  by (simp add: ids_def)

definition fresh_events :: "lago_event list \<Rightarrow> tally \<Rightarrow> bool" where
  "fresh_events es t \<longleftrightarrow> ids es \<subseteq> ids (t_events t) - set (settled t)"

lemma tally_effects:
  "set (held (confirm es t)) = set (held t) \<union> ids es" "rejected_ids (confirm es t) = rejected_ids t"
  "refused_ids (confirm es t) = refused_ids t" "set (settled (confirm es t)) = set (settled t) \<union> ids es"
  "set (held (refuse es why t)) = set (held t)" "rejected_ids (refuse es why t) = rejected_ids t"
  "refused_ids (refuse es why t) = refused_ids t \<union> ids es"
  "set (settled (refuse es why t)) = set (settled t) \<union> ids es"
  "set (held (reject i why t)) = set (held t)" "rejected_ids (reject i why t) = insert i (rejected_ids t)"
  "refused_ids (reject i why t) = refused_ids t" "set (settled (reject i why t)) = insert i (set (settled t))"
  by (auto simp: confirm_def refuse_def reject_def rejected_ids_def refused_ids_def ids_def image_Un image_image)

lemma tally_frame [simp]:
  "t_events (confirm es t) = t_events t" "t_events (refuse es why t) = t_events t"
  "t_events (reject i why t) = t_events t" "t_events (halt s t) = t_events t"
  "t_stop (confirm es t) = t_stop t" "t_stop (refuse es why t) = t_stop t" "t_stop (reject i why t) = t_stop t"
  "t_refused (confirm es t) = t_refused t" "t_refused (reject i why t) = t_refused t"
  "t_refused (halt s t) = t_refused t" "t_rejected (halt s t) = t_rejected t"
  "settled (halt s t) = settled t" "held (halt s t) = held t" "confirmed (halt s t) = confirmed t"
  "confirmed t = length (held t) \<Longrightarrow> confirmed (confirm es t) = length (held (confirm es t))"
  "confirmed (refuse es why t) = confirmed t" "confirmed (reject i why t) = confirmed t"
  "held (refuse es why t) = held t" "held (reject i why t) = held t"
  by (simp_all add: confirm_def refuse_def reject_def halt_def)

lemma tallied_facts:
  assumes "tallied J t"
  shows "J \<inter> ids (t_events t) = {}" "J \<subseteq> rejected_ids t" "rejected_ids t \<subseteq> J \<union> ids (t_events t)"
    "set (settled t) = set (held t) \<union> (rejected_ids t - J) \<union> refused_ids t"
    "set (settled t) \<subseteq> ids (t_events t)" "set (held t) \<inter> rejected_ids t = {}"
    "set (held t) \<inter> refused_ids t = {}" "rejected_ids t \<inter> refused_ids t = {}"
    "confirmed t = length (held t)"
  using assms unfolding tallied_def by - iprover+

lemma confirm_tallied:
  assumes "tallied J t" "fresh_events es t"
  shows "tallied J (confirm es t)" "settles (ids es) t (confirm es t)"
proof -
  show "tallied J (confirm es t)"
    unfolding tallied_def tally_effects tally_frame
    by (intro conjI) (use tallied_facts [OF assms(1)] assms(2) in \<open>auto simp: fresh_events_def\<close>)
  show "settles (ids es) t (confirm es t)" by (auto simp: settles_def tally_effects)
qed

lemma refuse_tallied:
  assumes "tallied J t" "fresh_events es t"
  shows "tallied J (refuse es why t)" "settles (ids es) t (refuse es why t)"
proof -
  show "tallied J (refuse es why t)"
    unfolding tallied_def tally_effects tally_frame
    by (intro conjI) (use tallied_facts [OF assms(1)] assms(2) in \<open>auto simp: fresh_events_def\<close>)
  show "settles (ids es) t (refuse es why t)" by (auto simp: settles_def tally_effects)
qed

lemma reject_tallied:
  assumes "tallied J t" "fresh_events [e] t"
  shows "tallied J (reject (transaction_id e) why t)"
    "settles {transaction_id e} t (reject (transaction_id e) why t)"
proof -
  show "tallied J (reject (transaction_id e) why t)"
    unfolding tallied_def tally_effects tally_frame
    by (intro conjI) (use tallied_facts [OF assms(1)] assms(2) in \<open>auto simp: fresh_events_def\<close>)
  show "settles {transaction_id e} t (reject (transaction_id e) why t)"
    by (auto simp: settles_def tally_effects)
qed

text \<open>A chunk whose identifiers are pairwise different and all without an outcome.\<close>

definition pending_ok :: "lago_event list \<Rightarrow> tally \<Rightarrow> bool" where
  "pending_ok es t \<longleftrightarrow> distinct (map transaction_id es) \<and> fresh_events es t"

lemma salvage_tallied:
  assumes "tallied J t" "pending_ok es t"
  shows "case foldl (settle_event v) (sv, t) (List.enumerate k es) of (sv', t') \<Rightarrow>
    tallied J t' \<and> settles (ids es) t t' \<and> t_refused t' = t_refused t \<and>
    (\<exists>new. sv' = sv @ new \<and> pending_ok new t' \<and> set new \<subseteq> set es \<and> length new \<le> length es)"
  using assms
proof (induction es arbitrary: sv t k)
  case Nil
  then show ?case by (simp add: pending_ok_def fresh_events_def)
next
  case (Cons e es)
  have one: "fresh_events [e] t" and d: "transaction_id e \<notin> ids es" "distinct (map transaction_id es)"
    and f: "fresh_events es t"
    using Cons.prems(2) by (auto simp: pending_ok_def fresh_events_def ids_def)
  have keep: "pending_ok es t'" if "settles {transaction_id e} t t'" for t'
    using that d f by (auto simp: pending_ok_def fresh_events_def settles_def)
  show ?case
  proof (cases "map_of (rev (refused_events v)) k \<noteq> None \<or> k \<in> set (duplicates v)")
    case True
    then obtain t1 where t1: "settle_event v (sv, t) (k, e) = (sv, t1)" and k: "tallied J t1"
      "settles {transaction_id e} t t1" "t_refused t1 = t_refused t"
      using reject_tallied [OF Cons.prems(1) one] confirm_tallied [OF Cons.prems(1) one]
      by (cases "map_of (rev (refused_events v)) k") (simp_all add: settle_event_def)
    from Cons.IH [OF k(1) keep [OF k(2)], of sv "Suc k"] obtain sv' t' new
      where r: "foldl (settle_event v) (sv, t1) (List.enumerate (Suc k) es) = (sv', t')"
        "tallied J t'" "settles (ids es) t1 t'" "t_refused t' = t_refused t1" "sv' = sv @ new"
        "pending_ok new t'" "set new \<subseteq> set es" "length new \<le> length es" by auto
    have "settles (ids (e # es)) t t'"
      by (rule settles_trans [OF settles_mono [OF k(2)] settles_mono [OF r(3)]]) auto
    then show ?thesis using r(2,4-8) k(3) by (auto simp: t1 r(1))
  next
    case False
    then have t1: "settle_event v (sv, t) (k, e) = (sv @ [e], t)"
      by (simp add: settle_event_def)
    from Cons.IH [OF Cons.prems(1) keep [OF settles_refl], of "sv @ [e]" "Suc k"] obtain sv' t' new
      where r: "foldl (settle_event v) (sv @ [e], t) (List.enumerate (Suc k) es) = (sv', t')"
        "tallied J t'" "settles (ids es) t t'" "t_refused t' = t_refused t" "sv' = sv @ [e] @ new"
        "pending_ok new t'" "set new \<subseteq> set es" "length new \<le> length es" by auto
    have sub: "ids new \<subseteq> ids es" using r(7) unfolding ids_def by (rule image_mono)
    have "transaction_id e \<in> ids (t_events t')" "transaction_id e \<notin> set (settled t')"
    proof -
      have "transaction_id e \<in> ids (t_events t)" "transaction_id e \<notin> set (settled t)"
        using one by (simp_all add: fresh_events_def)
      moreover have "t_events t' = t_events t" "set (settled t') \<subseteq> set (settled t) \<union> ids es"
        using r(3) by (simp_all add: settles_def)
      ultimately show "transaction_id e \<in> ids (t_events t')" "transaction_id e \<notin> set (settled t')"
        using d(1) by auto
    qed
    then have "pending_ok (e # new) t'"
      using r(6) sub d(1) by (simp add: pending_ok_def fresh_events_def ids_def) blast
    moreover have "settles (ids (e # es)) t t'" by (rule settles_mono [OF r(3)]) auto
    moreover have "set (e # new) \<subseteq> set (e # es)" "length (e # new) \<le> length (e # es)"
      using r(7,8) by auto
    ultimately show ?thesis using r(2,4,5) by (simp add: t1 r(1))
  qed
qed

lemma salvage_ok:
  assumes "tallied J t" "pending_ok es t" "salvage v es t = (sv, t')"
  shows "tallied J t'" "settles (ids es) t t'" "t_refused t' = t_refused t" "pending_ok sv t'"
    "set sv \<subseteq> set es" "length sv \<le> length es"
  using salvage_tallied [OF assms(1,2), where v = v and sv = "[]" and k = 0] assms(3) by (auto simp: salvage_def)

lemma chunk_tallied:
  assumes "tallied J t" "pending_ok es t" "deliverChunk date_parse p env left es t w = (s, t', w')"
  shows "tallied J t' \<and> settles (ids es) t t' \<and> (s = None \<longrightarrow> t_refused t' = t_refused t)"
  using assms
proof (induction left arbitrary: es t w)
  case 0
  then have "fresh_events es t" by (simp add: pending_ok_def)
  with 0 show ?case
    by (auto simp: deliverChunk.simps [of _ _ _ 0] refuse_tallied confirm_tallied
        split: if_splits prod.splits exchanged.splits stop_reason.splits option.splits)
next
  case (Suc left)
  have f: "fresh_events es t" using Suc.prems(2) by (simp add: pending_ok_def)
  show ?case
  proof (cases "\<exists>body w1 v. es \<noteq> [] \<and> exchange date_parse p env es 1 w = (ExInvalid body, w1) \<and>
      \<not> exceedsBatchLimit body \<and> parseValidationErrors body (length es) = Some v")
    case True
    then obtain body w1 v where c: "es \<noteq> []" "exchange date_parse p env es 1 w = (ExInvalid body, w1)"
      "\<not> exceedsBatchLimit body" "parseValidationErrors body (length es) = Some v" by blast
    obtain sv t1 where sv: "salvage v es t = (sv, t1)" by (metis surj_pair)
    note k = salvage_ok [OF Suc.prems(1,2) sv]
    have "deliverChunk date_parse p env left sv t1 w1 = (s, t', w')"
      using Suc.prems(3) c sv by (simp add: deliverChunk.simps [of _ _ _ "Suc left"])
    note r = Suc.IH [OF k(1,4) this]
    have "ids sv \<subseteq> ids es" using k(5) by (auto simp: ids_def)
    with r k(2) have "settles (ids es) t t'" by (blast intro: settles_trans settles_mono)
    with r k(3) show ?thesis by simp
  next
    case False
    with Suc.prems f show ?thesis
      by (auto simp: deliverChunk.simps [of _ _ _ "Suc left"] refuse_tallied confirm_tallied
          split: if_splits prod.splits exchanged.splits stop_reason.splits option.splits)
  qed
qed

lemma halt_tallied [simp]: "tallied J (halt s t) = tallied J t"
  by (simp add: tallied_def rejected_ids_def refused_ids_def)

text \<open>Whatever Lago refused together with its request, the batch was stopped for it.\<close>

definition stops_refusals :: "tally \<Rightarrow> bool" where
  "stops_refusals t \<longleftrightarrow> (t_stop t = None \<longrightarrow> t_refused t = [])"

lemma deliver_events_tallied:
  assumes "tallied J t" "pending_ok es t" "stops_refusals t"
    and "deliver_events date_parse p env es t w = (t', w')"
  shows "tallied J t' \<and> stops_refusals t' \<and> t_events t' = t_events t"
  using assms
proof (induction es arbitrary: t w rule: measure_induct_rule [of length])
  case (less es)
  show ?case
  proof (cases "es = [] \<or> t_stop t \<noteq> None")
    case True
    with less.prems show ?thesis by (simp add: deliver_events.simps [of _ _ _ es])
  next
    case False
    let ?chunk = "take MAX_EVENTS_PER_REQUEST es" and ?rest = "drop MAX_EVENTS_PER_REQUEST es"
    have split: "map transaction_id es = map transaction_id ?chunk @ map transaction_id ?rest"
      by (simp flip: map_append)
    have chunk: "pending_ok ?chunk t" and rest: "distinct (map transaction_id ?rest)"
      "ids ?rest \<subseteq> ids (t_events t) - set (settled t)" "ids ?chunk \<inter> ids ?rest = {}"
    proof -
      have d: "distinct (map transaction_id ?chunk @ map transaction_id ?rest)"
        using less.prems(2) by (simp add: pending_ok_def flip: split)
      have "ids es = ids ?chunk \<union> ids ?rest" unfolding ids_simps(3) [symmetric] by simp
      with less.prems(2) d show "pending_ok ?chunk t"
        "distinct (map transaction_id ?rest)" "ids ?rest \<subseteq> ids (t_events t) - set (settled t)"
        "ids ?chunk \<inter> ids ?rest = {}"
        by (simp_all add: pending_ok_def fresh_events_def ids_def)
    qed
    obtain s t1 w1 where c: "deliverChunk date_parse p env MAX_SALVAGE_PASSES ?chunk t w = (s, t1, w1)"
      by (metis prod_cases3)
    note k = chunk_tallied [OF less.prems(1) chunk c]
    let ?t = "case s of None \<Rightarrow> t1 | Some s \<Rightarrow> halt s t1"
    have r: "deliver_events date_parse p env ?rest ?t w1 = (t', w')"
      using less.prems(4) False by (simp add: deliver_events.simps [of _ _ _ es] c)
    have t: "t_events ?t = t_events t" "settled ?t = settled t1"
      using k by (simp_all add: settles_def split: option.splits)
    have "set (settled t1) \<subseteq> set (settled t) \<union> ids ?chunk" using k by (simp add: settles_def)
    then have "pending_ok ?rest ?t"
      using rest unfolding pending_ok_def fresh_events_def t by blast
    moreover have "stops_refusals ?t"
      using k less.prems(3) False by (auto simp: stops_refusals_def settles_def halt_def split: option.splits)
    moreover have "tallied J ?t" using k by (simp split: option.splits)
    moreover have "length ?rest < length es" using False by (simp add: MAX_EVENTS_PER_REQUEST_def)
    ultimately show ?thesis using less.IH [of ?rest ?t w1] r t by simp
  qed
qed

lemma new_tally_ok:
  assumes "distinct (map transaction_id events @ map fst rej)"
  shows "tallied (fst ` set rej) (new_tally events rej)" "pending_ok events (new_tally events rej)"
    "stops_refusals (new_tally events rej)"
  using assms
  by (auto simp: tallied_def pending_ok_def fresh_events_def stops_refusals_def new_tally_def
      rejected_ids_def refused_ids_def ids_def)

lemma with_detail_ids: "fst ` set (with_detail rs) = fst ` set rs"
  by (induction rs) (auto simp: with_detail_def)

lemma tally_partition:
  assumes "distinct (map transaction_id events @ map fst rej)"
    and "deliver_events date_parse p env events (new_tally events rej) w = (t, w')"
  shows "case tally_result t of
      Accepted R U \<Rightarrow>
        set (held t) \<union> fst ` set R \<union> set U = transaction_id ` set events \<union> fst ` set rej \<and>
        set (held t) \<inter> fst ` set R = {} \<and> set (held t) \<inter> set U = {} \<and> fst ` set R \<inter> set U = {}
    | _ \<Rightarrow> held t = [] \<and> rej = [] \<and> t_rejected t = []"
proof -
  have e: "t_events (new_tally events rej) = events" by (simp add: new_tally_def)
  from deliver_events_tallied [OF new_tally_ok [OF assms(1)] assms(2)]
  have t: "tallied (fst ` set rej) t" "stops_refusals t" "t_events t = events" unfolding e by blast+
  note f = tallied_facts [OF t(1), unfolded t(3)]
  have E: "ids events = transaction_id ` set events" by (simp add: ids_def)
  have U: "set (unresolved t) = ids events - set (settled t)"
    by (auto simp: unresolved_def ids_def t(3))
  have both: "fst ` set (with_detail (t_rejected t @ t_refused t)) = rejected_ids t \<union> refused_ids t"
    by (simp add: with_detail_ids rejected_ids_def refused_ids_def image_Un)
  have none: "fst ` set (with_detail (t_rejected t)) = rejected_ids t \<union> refused_ids t" if "t_stop t = None"
    using t(2) that by (simp add: with_detail_ids rejected_ids_def refused_ids_def stops_refusals_def)
  have split: "set (held t) \<union> (rejected_ids t \<union> refused_ids t) \<union> set (unresolved t) =
      ids events \<union> fst ` set rej"
    "set (held t) \<inter> (rejected_ids t \<union> refused_ids t) = {}" "set (held t) \<inter> set (unresolved t) = {}"
    "(rejected_ids t \<union> refused_ids t) \<inter> set (unresolved t) = {}"
    unfolding U using f by auto
  show ?thesis
  proof (cases "tally_result t")
    case (Accepted R V)
    then have "fst ` set R = rejected_ids t \<union> refused_ids t" "V = unresolved t"
      using none both by (auto simp: tally_result_def failed_def split: option.splits if_splits stop_reason.splits)
    with split show ?thesis unfolding Accepted E by simp
  qed (use f(2,9) in \<open>auto simp: tally_result_def failed_def rejected_ids_def
      split: option.splits if_splits stop_reason.splits\<close>)
qed

text \<open>
  C31: What the sink answers is true of every record of the batch. An \<open>accepted\<close> answer puts
  each into exactly one of three groups: confirmed by Lago, named rejected, named unknown; and
  any other answer, which condemns the batch as a whole, is given only when Lago confirmed
  none of its records and refused none by name. So a record that Lago holds is never
  reported as dropped, however the delivery ended.
\<close>

theorem confirmed_never_relabelled:
  assumes "distinct (map transaction_id events @ map fst rej)"
    and "deliver_events date_parse p env events (new_tally events rej) w = (t, w')"
  shows "case tally_result t of
      Accepted R U \<Rightarrow>
        set (held t) \<union> fst ` set R \<union> set U = transaction_id ` set events \<union> fst ` set rej \<and>
        set (held t) \<inter> fst ` set R = {} \<and> set (held t) \<inter> set U = {} \<and> fst ` set R \<inter> set U = {}
    | _ \<Rightarrow> held t = [] \<and> rej = [] \<and> t_rejected t = []"
  by (rule tally_partition [OF assms])

definition calm :: "bool \<times> bool" where "calm = (False, False)"

definition says :: "reply \<Rightarrow> moment" where
  "says r = \<lparr>at_post = calm, reply = r, on_error = calm, on_pause = calm, time_ms = 0, jitter = 0\<rparr>"

definition silence :: "lago_event wire" where
  "silence = \<lparr>attempts = 0, posts = [], waits = []\<rparr>"

definition quick_policy :: retry_policy where
  "quick_policy = \<lparr>maxAttempts = 2, initialBackoffMs = 1, maxBackoffMs = 1, multiplier = 1\<rparr>"

definition plain_event :: "string \<Rightarrow> lago_event" where
  "plain_event i = \<lparr>transaction_id = i, external_subscription_id = ''s'', metric_code = ''m'',
     event_timestamp = ''1.000'', event_properties = []\<rparr>"

text \<open>A run: a \<open>422\<close> that settles two events of four, and then a closed sink.\<close>

definition rough_day :: "nat \<Rightarrow> moment" where
  "rough_day n =
     (if n = 0 then says (Replied 422 (Some (JObj [(''error_details'', JObj
        [(''0'', JObj [(''transaction_id'', JArr [JStr ''value_already_exist''])]),
         (''2'', JStr ''no'')])])) None None)
      else (says (NetworkError (NotAnError [])))\<lparr>at_post := (True, False)\<rparr>)"

definition rough_outcome :: "tally \<times> lago_event wire" where
  "rough_outcome = deliver_events sample_date quick_policy rough_day
     (map plain_event [''a'', ''b'', ''c'', ''d'']) (new_tally (map plain_event [''a'', ''b'', ''c'', ''d'']) [(''e'', ''x'')]) silence"

theorem confirmed_never_relabelled_witness:
  "tally_result (fst rough_outcome) =
     Accepted [(''e'', Some ''x''), (''c'', Some ''event:expression_evaluation_failed'')] [''b'', ''d''] \<and>
   held (fst rough_outcome) = [''a''] \<and> {''a''} \<inter> {''b'', ''d''} = {}"
proof -
  have r: "tally_result (fst rough_outcome) =
     Accepted [(''e'', Some ''x''), (''c'', Some ''event:expression_evaluation_failed'')] [''b'', ''d'']"
    "held (fst rough_outcome) = [''a'']"
    unfolding rough_outcome_def by code_simp+
  have d: "distinct (map transaction_id (map plain_event [''a'', ''b'', ''c'', ''d'']) @ map fst [(''e'', ''x'')])"
    by (simp add: plain_event_def)
  have "deliver_events sample_date quick_policy rough_day (map plain_event [''a'', ''b'', ''c'', ''d''])
      (new_tally (map plain_event [''a'', ''b'', ''c'', ''d'']) [(''e'', ''x'')]) silence =
    (fst rough_outcome, snd rough_outcome)" by (simp add: rough_outcome_def)
  from confirmed_never_relabelled [OF d this] r show ?thesis by simp
qed

section \<open>What is sent\<close>

lemma judge_reply_posts:
  "judge_reply date_parse p m n x w = Inl r \<Longrightarrow> posts (snd r) = posts w"
  "judge_reply date_parse p m n x w = Inr w' \<Longrightarrow> posts w' = posts w \<and> x \<notin> {ClosedError, AbortedError}"
  by (auto simp: judge_reply_def back_off_def Let_def
      split: posted.splits option.splits status_class.splits if_splits)

lemma one_attempt_posts:
  "one_attempt date_parse p env events n w = Inl r \<Longrightarrow>
    posts (snd r) = posts w \<or> posts (snd r) = posts w @ [events]"
  "one_attempt date_parse p env events n w = Inr w' \<Longrightarrow> posts w' = posts w @ [events]"
  using post_posts [of "env (attempts w)" events w]
  by (auto simp: one_attempt_def Let_def split: prod.splits dest: judge_reply_posts)

text \<open>\<open>#exchange\<close> ends, and sends the same events every time, at most \<open>maxAttempts\<close> times.\<close>

lemma exchange_posts:
  assumes "exchange date_parse p env events n w = (x, w')"
  shows "\<exists>k \<le> maxAttempts p - n + 1. posts w' = posts w @ replicate k events"
  using assms
proof (induction date_parse p env events n w rule: exchange.induct)
  case (1 date_parse p env events n w)
  show ?case
  proof (cases "one_attempt date_parse p env events n w")
    case (Inl r)
    then have "r = (x, w')" using "1.prems" by (simp add: exchange.simps [of _ _ _ _ n])
    with one_attempt_posts(1) [OF Inl] have "posts w' = posts w @ replicate 0 events \<or>
        posts w' = posts w @ replicate 1 events" by simp
    then show ?thesis by (meson le0 le_add2)
  next
    case (Inr w1)
    from "1.IH" [OF Inr] "1.prems" obtain k where k: "k \<le> maxAttempts p - (n + 1) + 1"
      "posts w' = posts w1 @ replicate k events"
      by (auto simp: exchange.simps [of _ _ _ _ n] Inr)
    then have "posts w' = posts w @ replicate (Suc k) events"
      using one_attempt_posts(2) [OF Inr] by simp
    moreover have "Suc k \<le> maxAttempts p - n + 1" using k(1) one_attempt_again [OF Inr] by simp
    ultimately show ?thesis by blast
  qed
qed

text \<open>Requests added to a log: at most \<open>k\<close>, each of at most \<open>most\<close> events of \<open>E\<close>.\<close>

definition sends :: "nat \<Rightarrow> nat \<Rightarrow> lago_event set \<Rightarrow> lago_event wire \<Rightarrow> lago_event wire \<Rightarrow> bool" where
  "sends k most E w w' \<longleftrightarrow>
     (\<exists>new. posts w' = posts w @ new \<and> length new \<le> k \<and>
       (\<forall>q \<in> set new. q \<noteq> [] \<and> length q \<le> most \<and> set q \<subseteq> E))"

lemma sends_refl: "sends 0 most E w w"
  by (simp add: sends_def)

lemma sends_mono: "sends k most E w w' \<Longrightarrow> k \<le> k' \<Longrightarrow> most \<le> most' \<Longrightarrow> E \<subseteq> E' \<Longrightarrow> sends k' most' E' w w'"
  unfolding sends_def by (meson order_trans)

lemma sends_trans: "sends j most E w w' \<Longrightarrow> sends k most E w' w'' \<Longrightarrow> sends (j + k) most E w w''"
  unfolding sends_def
proof (elim exE conjE)
  fix new new'
  assume "posts w' = posts w @ new" "posts w'' = posts w' @ new'" "length new \<le> j" "length new' \<le> k"
    "\<forall>q \<in> set new. q \<noteq> [] \<and> length q \<le> most \<and> set q \<subseteq> E"
    "\<forall>q \<in> set new'. q \<noteq> [] \<and> length q \<le> most \<and> set q \<subseteq> E"
  then show "\<exists>new. posts w'' = posts w @ new \<and> length new \<le> j + k \<and>
      (\<forall>q \<in> set new. q \<noteq> [] \<and> length q \<le> most \<and> set q \<subseteq> E)"
    by (intro exI [of _ "new @ new'"]) auto
qed

lemma exchange_sends:
  assumes "exchange date_parse p env es 1 w = (x, w')" "es \<noteq> []" "1 \<le> maxAttempts p"
  shows "sends (maxAttempts p) (length es) (set es) w w'"
proof -
  obtain k where "k \<le> maxAttempts p - 1 + 1" "posts w' = posts w @ replicate k es"
    using exchange_posts [OF assms(1)] by blast
  with assms(2,3) show ?thesis
    unfolding sends_def by (intro exI [of _ "replicate k es"]) auto
qed

lemma settle_event_survivors:
  "foldl (settle_event v) (sv, t) xs = (sv', t') \<Longrightarrow>
    set sv' \<subseteq> set sv \<union> snd ` set xs \<and> length sv' \<le> length sv + length xs"
proof (induction xs arbitrary: sv t)
  case (Cons x xs)
  obtain sv1 t1 where s: "settle_event v (sv, t) x = (sv1, t1)" by (metis surj_pair)
  then have "set sv1 \<subseteq> set sv \<union> {snd x}" "length sv1 \<le> length sv + 1"
    by (auto simp: settle_event_def split: option.splits if_splits)
  moreover have "set sv' \<subseteq> set sv1 \<union> snd ` set xs \<and> length sv' \<le> length sv1 + length xs"
    using Cons s by simp
  ultimately show ?case by auto
qed simp

lemma salvage_survivors:
  assumes "salvage v es t = (sv, t')"
  shows "set sv \<subseteq> set es" "length sv \<le> length es"
proof -
  have "snd ` set (List.enumerate 0 es) = set es"
    by (metis list.set_map map_snd_enumerate)
  with settle_event_survivors [OF assms [unfolded salvage_def]]
  show "set sv \<subseteq> set es" "length sv \<le> length es" by (simp_all add: length_enumerate)
qed

lemma chunk_sends:
  assumes "1 \<le> maxAttempts p" "deliverChunk date_parse p env left es t w = (s, t', w')"
  shows "sends ((left + 1) * maxAttempts p) (length es) (set es) w w'"
  using assms(2)
proof (induction left arbitrary: es t w)
  case 0
  show ?case
  proof (cases "es = []")
    case False
    obtain x w1 where e: "exchange date_parse p env es 1 w = (x, w1)" by (metis surj_pair)
    with 0 False have "w' = w1"
      by (auto simp: deliverChunk.simps [of _ _ _ 0] split: if_splits exchanged.splits stop_reason.splits option.splits)
    with exchange_sends [OF e False assms(1)] show ?thesis by simp
  qed (use 0 in \<open>auto simp: deliverChunk.simps [of _ _ _ 0] intro: sends_mono [OF sends_refl]\<close>)
next
  case (Suc left)
  show ?case
  proof (cases "es = []")
    case False
    obtain x w1 where e: "exchange date_parse p env es 1 w = (x, w1)" by (metis surj_pair)
    note x = exchange_sends [OF e False assms(1)]
    show ?thesis
    proof (cases "w' = w1")
      case True
      with x show ?thesis by (auto intro: sends_mono)
    next
      case again: False
      then obtain v sv t1 where sv: "salvage v es t = (sv, t1)"
        and r: "deliverChunk date_parse p env left sv t1 w1 = (s, t', w')"
        using Suc.prems False e
        by (auto simp: deliverChunk.simps [of _ _ _ "Suc left"]
            split: if_splits exchanged.splits stop_reason.splits option.splits prod.splits)
      have "sends ((left + 1) * maxAttempts p) (length es) (set es) w1 w'"
        using Suc.IH [OF r] salvage_survivors [OF sv] by (auto intro: sends_mono)
      from sends_trans [OF x this] show ?thesis by simp
    qed
  qed (use Suc.prems in \<open>auto simp: deliverChunk.simps [of _ _ _ "Suc left"] intro: sends_mono [OF sends_refl]\<close>)
qed

lemma deliver_events_sends:
  assumes "1 \<le> maxAttempts p" "deliver_events date_parse p env es t w = (t', w')"
  shows "sends (4 * maxAttempts p * ((length es + 99) div 100)) 100 (set es) w w'"
  using assms(2)
proof (induction es arbitrary: t w rule: measure_induct_rule [of length])
  case (less es)
  show ?case
  proof (cases "es = [] \<or> t_stop t \<noteq> None")
    case True
    with less.prems show ?thesis
      by (auto simp: deliver_events.simps [of _ _ _ es] intro: sends_mono [OF sends_refl])
  next
    case False
    let ?chunk = "take 100 es" and ?rest = "drop 100 es"
    obtain s t1 w1 where c: "deliverChunk date_parse p env 3 ?chunk t w = (s, t1, w1)"
      by (metis prod_cases3)
    have r: "deliver_events date_parse p env ?rest (case s of None \<Rightarrow> t1 | Some s \<Rightarrow> halt s t1) w1 = (t', w')"
      using less.prems False c
      by (simp add: deliver_events.simps [of _ _ _ es] MAX_EVENTS_PER_REQUEST_def MAX_SALVAGE_PASSES_def)
    have "sends (4 * maxAttempts p) 100 (set es) w w1"
      by (rule sends_mono [OF chunk_sends [OF assms(1) c]]) (auto dest: in_set_takeD)
    moreover have "sends (4 * maxAttempts p * ((length ?rest + 99) div 100)) 100 (set es) w1 w'"
      by (rule sends_mono [OF less.IH [OF _ r]]) (use False in \<open>auto dest: in_set_dropD\<close>)
    moreover have "4 * maxAttempts p + 4 * maxAttempts p * ((length ?rest + 99) div 100) \<le>
        4 * maxAttempts p * ((length es + 99) div 100)"
    proof -
      have "1 + (length ?rest + 99) div 100 \<le> (length es + 99) div 100"
      proof (cases "length es \<le> 100")
        case True
        then have "length ?rest = 0" "1 \<le> length es" using False by (auto simp: Suc_le_eq)
        then show ?thesis by simp
      next
        case l: False
        then have "length es + 99 = (length ?rest + 99) + 100" by simp
        then show ?thesis by simp
      qed
      from mult_le_mono2 [OF this, of "4 * maxAttempts p"] show ?thesis by (simp add: distrib_left)
    qed
    ultimately show ?thesis by (blast intro: sends_trans sends_mono)
  qed
qed

text \<open>
  C32: A delivery ends after a bounded number of requests, whatever Lago answers: at most four
  times \<open>maxAttempts\<close> for every 100 events. No request is empty, holds more than 100 events, or
  holds anything but events of the batch.
\<close>

theorem requests_bounded:
  assumes "new_policy opts = Inr p" "deliver_events date_parse p env events t w = (t', w')"
  shows "\<exists>new. posts w' = posts w @ new \<and>
    length new \<le> 4 * maxAttempts p * ((length events + 99) div 100) \<and>
    (\<forall>q \<in> set new. q \<noteq> [] \<and> length q \<le> 100 \<and> set q \<subseteq> set events)"
  using deliver_events_sends [OF new_policy_bounds(1) [OF assms(1)] assms(2)]
  by (simp add: sends_def)

theorem requests_bounded_witness:
  "length (posts (snd rough_outcome)) \<le> 8 \<and>
   posts (snd rough_outcome) = [map plain_event [''a'', ''b'', ''c'', ''d'']]"
proof -
  have p: "new_policy \<lparr>maxAttemptsOpt = JNum (Fin 2), initialBackoffOpt = JNum (Fin 1),
      maxBackoffOpt = JNum (Fin 1), multiplierOpt = JNum (Fin 1)\<rparr> = Inr quick_policy"
    by (simp add: policy_eval quick_policy_def)
  have "deliver_events sample_date quick_policy rough_day (map plain_event [''a'', ''b'', ''c'', ''d''])
      (new_tally (map plain_event [''a'', ''b'', ''c'', ''d'']) [(''e'', ''x'')]) silence =
    (fst rough_outcome, snd rough_outcome)" by (simp add: rough_outcome_def)
  from requests_bounded [OF p this] have "length (posts (snd rough_outcome)) \<le> 8"
    by (auto simp: silence_def quick_policy_def)
  moreover have "posts (snd rough_outcome) = [map plain_event [''a'', ''b'', ''c'', ''d'']]"
    unfolding rough_outcome_def by code_simp
  ultimately show ?thesis by simp
qed

section \<open>The contract\<close>

lemma lago_answer:
  assumes "fst (lago_deliver stringify date_parse s b) = Answered (Accepted R U)"
  shows "fst ` set R \<subseteq> rid ` set b" "set U \<subseteq> rid ` set b" "fst ` set R \<inter> set U = {}"
proof -
  obtain events rej where pre: "preflight stringify date_parse b = Some (events, rej)"
    using assms by (auto simp: lago_deliver_def failed_def split: if_splits option.splits)
  obtain t w where d: "deliver_events date_parse (lago_policy s) (lago_env s) events (new_tally events rej)
      (lago_wire s) = (t, w)" by (metis surj_pair)
  have r: "tally_result t = Accepted R U"
    using assms pre d by (simp add: lago_deliver_def split: if_splits)
  obtain m where m: "sorted_out stringify date_parse b m" "events = map (\<lambda>(_, e, _). e) (fst m)"
    "rej = snd m" by (rule preflight_sorted_out [OF pre])
  have ids: "distinct (map transaction_id events @ map fst rej)"
    "transaction_id ` set events \<union> fst ` set rej = rid ` set b"
    by (rule sorted_out_keys [OF m])+
  from tally_partition [OF ids(1) d] r
  show "fst ` set R \<subseteq> rid ` set b" "set U \<subseteq> rid ` set b" "fst ` set R \<inter> set U = {}"
    unfolding ids(2) by auto
qed

interpretation lago: sink_contract "lago_deliver stringify date_parse" lago_close "\<lambda>s. True" lago_closed
    "\<lambda>r. True" for stringify date_parse
  by unfold_locales
    (auto simp: lago_deliver_def lago_close_def lago_answer split: option.splits prod.splits)

end
