(* ===== verification/ChargebeeSink.thy ===== *)
theory ChargebeeSink
  imports ChargebeeEvent LagoSink
begin

text \<open>
  \<open>sinks/chargebee/typescript/src/sink.ts\<close> and \<open>retry.ts\<close>: the delivery of a batch to Chargebee,
  in one request that is repeated while its failure is transient. The outside is a sequence of
  \<open>moment\<close>s, as for Lago. \<open>Date.parse\<close> is the argument \<open>date_parse\<close>, on whatever value it is
  given; \<open>JSON.stringify\<close> and the text of a number are the arguments \<open>stringify\<close> and \<open>num_text\<close>.
\<close>

section \<open>Classes of failures\<close>

datatype failure_class = Transient | Credential | Permanent

definition classify :: "int \<Rightarrow> failure_class" where
  "classify status =
     (if status \<in> {408, 429, 500, 502, 503, 504} then Transient
      else if status = 401 then Credential else Permanent)"

definition signed_seconds :: rx where
  "signed_seconds = Sq (Opt (Cls [(CHR ''+'', CHR ''+''), (CHR ''-'', CHR ''-'')])) (Plus Digit)"

definition cb_retryAfterMs :: "(jsval \<Rightarrow> int option) \<Rightarrow> int \<Rightarrow> string option \<Rightarrow> rat option" where
  "cb_retryAfterMs date_parse now value =
     (case value of
        None \<Rightarrow> None
      | Some s \<Rightarrow>
          if matches signed_seconds (trim s)
          then Some (case trim s of
              c # ds \<Rightarrow> if c = CHR ''-'' then 0
                else if c = CHR ''+'' then of_nat (num_of ds) * 1000 else of_nat (num_of (c # ds)) * 1000
            | [] \<Rightarrow> 0)
          else map_option (\<lambda>due. of_int (max 0 (due - now))) (date_parse (JStr s)))"

fun transportError :: "net_error \<Rightarrow> string" where
  "transportError (NetError c n) = (case c of JStr s \<Rightarrow> s | _ \<Rightarrow> n)"
| "transportError (NotAnError t) = t"

section \<open>A partial acceptance\<close>

definition ERROR_CODE_FIELDS :: "string list" where
  "ERROR_CODE_FIELDS = [''api_error_code'', ''error_code'', ''code'']"

definition code_text :: "(jsnum \<Rightarrow> string) \<Rightarrow> jsval \<Rightarrow> string option" where
  "code_text num_text v =
     (case v of
        JStr s \<Rightarrow> Some s
      | JNum n \<Rightarrow> Some (num_text n)
      | JBool b \<Rightarrow> Some (if b then ''true'' else ''false'')
      | _ \<Rightarrow> None)"

definition errorCode :: "(jsnum \<Rightarrow> string) \<Rightarrow> jsval \<Rightarrow> string option" where
  "errorCode num_text entry = foldr (\<lambda>f. opt_or (code_text num_text (jget entry f))) ERROR_CODE_FIELDS None"

text \<open>Those rejected by name, their identifiers, and how many failures name no one.\<close>

type_synonym attributed = "(string \<times> string option) list \<times> string list \<times> nat"

definition attribute_failure :: "(jsnum \<Rightarrow> string) \<Rightarrow> string list \<Rightarrow> attributed \<Rightarrow> jsval \<Rightarrow> attributed" where
  "attribute_failure num_text mine acc entry =
     (case acc of (rej, known, unattributed) \<Rightarrow>
        (case (if is_object entry then jget entry ''deduplication_id'' else JUndef) of
           JStr i \<Rightarrow>
             if count_list mine i = 0 \<or> i \<in> set known then (rej, known, unattributed + 1)
             else (rej @ replicate (count_list mine i) (i, errorCode num_text entry), known @ [i], unattributed)
         | _ \<Rightarrow> (rej, known, unattributed + 1)))"

definition failed_events :: "jsval option \<Rightarrow> jsval" where
  "failed_events body =
     (case body of Some p \<Rightarrow> if is_object p then jget p ''failed_events'' else JUndef | None \<Rightarrow> JUndef)"

definition cb_partial :: "(jsnum \<Rightarrow> string) \<Rightarrow> string list \<Rightarrow> jsval option \<Rightarrow> batch_result" where
  "cb_partial num_text mine body =
     (case failed_events body of
        JArr broken \<Rightarrow>
          (case foldl (attribute_failure num_text mine) ([], [], 0) broken of
             (rej, known, unattributed) \<Rightarrow>
               if unattributed = 0 then Accepted rej []
               else Accepted rej (filter (\<lambda>i. i \<notin> set known) mine))
      | _ \<Rightarrow> Accepted [] mine)"

section \<open>One request\<close>

text \<open>No caller hands this sink a signal of its own.\<close>

definition no_caller :: "moment \<Rightarrow> moment" where
  "no_caller m = m\<lparr>at_post := (fst (at_post m), False), on_error := (fst (on_error m), False)\<rparr>"

definition cb_retry :: "retry_policy \<Rightarrow> moment \<Rightarrow> nat \<Rightarrow> rat option \<Rightarrow> string \<Rightarrow> usage_event wire \<Rightarrow>
    batch_result \<times> usage_event wire + usage_event wire" where
  "cb_retry p m n hint why w =
     (if maxAttempts p \<le> n then Inl (failed True (Some why), w)
      else Inr (w\<lparr>waits := waits w @ [delayMs p (jitter m) n hint]\<rparr>))"

text \<open>One turn of the loop of \<open>#send\<close>, attempt number \<open>n\<close>.\<close>

definition cb_attempt :: "(jsval \<Rightarrow> int option) \<Rightarrow> (jsnum \<Rightarrow> string) \<Rightarrow> retry_policy \<Rightarrow> (nat \<Rightarrow> moment) \<Rightarrow>
    usage_event list \<Rightarrow> nat \<Rightarrow> usage_event wire \<Rightarrow> batch_result \<times> usage_event wire + usage_event wire" where
  "cb_attempt date_parse num_text p env events n w =
     (let m = no_caller (env (attempts w)); (outcome, w) = post m events w
      in case outcome of
           ClosedError \<Rightarrow> Inl (Closed_result, w)
         | AbortedError \<Rightarrow> Inl (Closed_result, w)
         | Broke e \<Rightarrow> cb_retry p m n None (transportError e) w
         | Got status body retry_after rate_reset \<Rightarrow>
             if status = 207 then Inl (cb_partial num_text (map deduplication_id events) body, w)
             else if status = 202 then Inl (accepted_all, w)
             else if status = 413 then Inl (failed False (Some ''payload_too_large''), w)
             else case classify status of
               Transient \<Rightarrow>
                 cb_retry p m n (cb_retryAfterMs date_parse (time_ms m) retry_after) (http_detail status) w
             | Credential \<Rightarrow> Inl (failed False (Some ''auth''), w)
             | Permanent \<Rightarrow> Inl (failed False (Some (http_detail status)), w))"

lemma cb_attempt_again: "cb_attempt date_parse num_text p env events n w = Inr w' \<Longrightarrow> n < maxAttempts p"
  by (auto simp: cb_attempt_def cb_retry_def Let_def
      split: posted.splits failure_class.splits if_splits prod.splits)

function cb_send :: "(jsval \<Rightarrow> int option) \<Rightarrow> (jsnum \<Rightarrow> string) \<Rightarrow> retry_policy \<Rightarrow> (nat \<Rightarrow> moment) \<Rightarrow>
    usage_event list \<Rightarrow> nat \<Rightarrow> usage_event wire \<Rightarrow> batch_result \<times> usage_event wire" where
  "cb_send date_parse num_text p env events n w =
     (case cb_attempt date_parse num_text p env events n w of
        Inl r \<Rightarrow> r
      | Inr w \<Rightarrow> cb_send date_parse num_text p env events (n + 1) w)"
  by pat_completeness auto
termination
  by (relation "measure (\<lambda>(_, _, p, _, _, n, _). maxAttempts p - n)") (auto dest: cb_attempt_again)

declare cb_send.simps [simp del]

section \<open>A batch\<close>

text \<open>Reading a property of a missing \<open>attribution\<close> or \<open>timing\<close> throws a \<open>TypeError\<close>.\<close>

definition TypeError :: thrown where
  "TypeError = ThrownError (Some (JStr ''TypeError''))"

definition cb_event :: "(jsval \<Rightarrow> string) \<Rightarrow> (jsval \<Rightarrow> int option) \<Rightarrow> string \<Rightarrow> jsval \<Rightarrow>
    thrown + (string + usage_event)" where
  "cb_event stringify date_parse sep r =
     (if nullish (jget r ''attribution'') then Inl TypeError
      else let subscription = jget (jget r ''attribution'') ''subscription_id''
        in if \<not> truthy subscription then Inr (Inl ''missing_subscription_id'')
           else if nullish (jget r ''timing'') then Inl TypeError
           else Inr (case cb_flatten stringify sep r of
               Inl why \<Rightarrow> Inl why
             | Inr props \<Rightarrow> validateEvent subscription (date_parse (jget (jget r ''timing'') ''event_time''))
                 (jget r ''record_id'') (JObj props)))"

fun cb_sort :: "(jsval \<Rightarrow> string) \<Rightarrow> (jsval \<Rightarrow> int option) \<Rightarrow> string \<Rightarrow> jsval list \<Rightarrow>
    thrown + (string \<times> string option) list \<times> usage_event list" where
  "cb_sort stringify date_parse sep [] = Inr ([], [])"
| "cb_sort stringify date_parse sep (r # rs) =
     (case cb_event stringify date_parse sep r of
        Inl t \<Rightarrow> Inl t
      | Inr fate \<Rightarrow>
          (case cb_sort stringify date_parse sep rs of
             Inl t \<Rightarrow> Inl t
           | Inr (rej, events) \<Rightarrow>
               (case fate of
                  Inl why \<Rightarrow> Inr ((rid r, Some why) # rej, events)
                | Inr e \<Rightarrow> Inr (rej, e # events))))"

record chargebee_sink =
  cb_policy :: retry_policy
  cb_separator :: string
  cb_closed :: bool
  cb_env :: "nat \<Rightarrow> moment"
  cb_wire :: "usage_event wire"

definition chargebee_deliver :: "(jsval \<Rightarrow> string) \<Rightarrow> (jsval \<Rightarrow> int option) \<Rightarrow> (jsnum \<Rightarrow> string) \<Rightarrow>
    chargebee_sink \<Rightarrow> jsval list \<Rightarrow> answer \<times> chargebee_sink" where
  "chargebee_deliver stringify date_parse num_text s batch =
     (if cb_closed s then (Answered Closed_result, s)
      else case cb_sort stringify date_parse (cb_separator s) batch of
        Inl t \<Rightarrow> (Threw t, s)
      | Inr (rej, events) \<Rightarrow>
          if events = [] then (Answered (Accepted rej []), s)
          else (case cb_send date_parse num_text (cb_policy s) (cb_env s) events 1 (cb_wire s) of
             (r, w) \<Rightarrow>
               (Answered (case r of Accepted rej' unk \<Rightarrow> Accepted (rej @ rej') unk | _ \<Rightarrow> r),
                s\<lparr>cb_wire := w\<rparr>)))"

definition chargebee_close :: "chargebee_sink \<Rightarrow> chargebee_sink" where
  "chargebee_close s = s\<lparr>cb_closed := True\<rparr>"

section \<open>What is answered\<close>

text \<open>The accounts of a partial acceptance, of a request with the identifiers \<open>mine\<close>.\<close>

definition accounts :: "string list \<Rightarrow> attributed \<Rightarrow> bool" where
  "accounts mine acc \<longleftrightarrow>
     (case acc of (rej, known, unattributed) \<Rightarrow>
        distinct known \<and> set known \<subseteq> set mine \<and>
        mset (map fst rej) = filter_mset (\<lambda>i. i \<in> set known) (mset mine))"

lemma attribute_failure_accounts:
  assumes "accounts mine acc"
  shows "accounts mine (attribute_failure num_text mine acc entry)"
proof -
  obtain rej known n where acc: "acc = (rej, known, n)" by (metis prod_cases3)
  have new: "filter_mset (\<lambda>j. j = i \<or> j \<in> set known) (mset mine) =
      filter_mset (\<lambda>j. j \<in> set known) (mset mine) + replicate_mset (count_list mine i) i"
    if "i \<notin> set known" for i
    using that by (auto simp: multiset_eq_iff count_mset)
  have mem: "count_list mine i \<noteq> 0 \<Longrightarrow> i \<in> set mine" for i by (metis count_notin)
  show ?thesis
    using assms new mem
    by (auto simp: acc accounts_def attribute_failure_def split: jsval.splits)
qed

lemma partial_accounts:
  "accounts mine acc \<Longrightarrow> accounts mine (foldl (attribute_failure num_text mine) acc broken)"
proof (induction broken arbitrary: acc)
  case (Cons entry broken)
  from Cons.IH [OF attribute_failure_accounts [OF Cons.prems]] show ?case by simp
qed simp

lemma partial_settles:
  "\<exists>R U. cb_partial num_text mine body = Accepted R U \<and> set (map fst R) \<inter> set U = {} \<and>
    mset (map fst R) + mset U \<subseteq># mset mine \<and> (U = [] \<or> mset (map fst R) + mset U = mset mine)"
proof -
  show ?thesis
  proof (cases "\<exists>xs. failed_events body = JArr xs")
    case True
    then obtain xs where xs: "failed_events body = JArr xs" by blast
    obtain rej known n where r: "foldl (attribute_failure num_text mine) ([], [], 0) xs = (rej, known, n)"
      by (metis prod_cases3)
    have "accounts mine ([], [], 0)" by (simp add: accounts_def)
    from partial_accounts [OF this, of num_text xs]
    have m: "mset (map fst rej) = filter_mset (\<lambda>i. i \<in> set known) (mset mine)"
      by (simp add: r accounts_def)
    define U where "U = (if n = 0 then [] else filter (\<lambda>i. i \<notin> set known) mine)"
    have p: "cb_partial num_text mine body = Accepted rej U"
      by (simp add: cb_partial_def xs r U_def flip: failures_def)
    have all: "mset (map fst rej) + mset (filter (\<lambda>i. i \<notin> set known) mine) = mset mine"
      unfolding m mset_filter by (metis multiset_partition)
    have "set (map fst rej) \<subseteq> set known"
      using m by (metis (no_types, lifting) mem_Collect_eq set_mset_filter set_mset_mset subsetI)
    then have "set (map fst rej) \<inter> set U = {}" by (auto simp: U_def)
    moreover have "mset (map fst rej) + mset U \<subseteq># mset mine"
      unfolding all [symmetric] by (simp add: U_def)
    moreover have "U = [] \<or> mset (map fst rej) + mset U = mset mine"
      using all by (simp add: U_def)
    ultimately show ?thesis using p by blast
  next
    case False
    then have "cb_partial num_text mine body = Accepted [] mine"
      by (cases "failed_events body") (simp_all add: cb_partial_def)
    then show ?thesis by simp
  qed
qed

lemma cb_attempt_cases:
  assumes "cb_attempt date_parse num_text p env events n w = Inl (r, w')"
  shows "(\<exists>b d. r = failed b (Some d)) \<or> r \<in> {Closed_result, accepted_all} \<or>
    (\<exists>body. r = cb_partial num_text (map deduplication_id events) body)"
  using assms
  by (auto simp: cb_attempt_def cb_retry_def Let_def
      split: posted.splits failure_class.splits if_splits prod.splits)

lemma cb_send_cases:
  assumes "cb_send date_parse num_text p env events n w = (r, w')"
  shows "(\<exists>b d. r = failed b (Some d)) \<or> r \<in> {Closed_result, accepted_all} \<or>
    (\<exists>body. r = cb_partial num_text (map deduplication_id events) body)"
  using assms
proof (induction date_parse num_text p env events n w rule: cb_send.induct)
  case (1 date_parse num_text p env events n w)
  show ?case
  proof (cases "cb_attempt date_parse num_text p env events n w")
    case (Inl x)
    with "1.prems" have "cb_attempt date_parse num_text p env events n w = Inl (r, w')"
      by (simp add: cb_send.simps [of _ _ _ _ _ n])
    then show ?thesis by (rule cb_attempt_cases)
  next
    case (Inr w1)
    with "1.prems" "1.IH" [OF Inr] show ?thesis by (simp add: cb_send.simps [of _ _ _ _ _ n])
  qed
qed

lemma cb_send_accepted:
  assumes "cb_send date_parse num_text p env events n w = (Accepted R U, w')"
  shows "set (map fst R) \<inter> set U = {}" "mset (map fst R) + mset U \<subseteq># mset (map deduplication_id events)"
proof -
  have "Accepted R U = accepted_all \<or>
      (\<exists>body. Accepted R U = cb_partial num_text (map deduplication_id events) body)"
    using cb_send_cases [OF assms] by (auto simp: failed_def)
  then show "set (map fst R) \<inter> set U = {}" "mset (map fst R) + mset U \<subseteq># mset (map deduplication_id events)"
    using partial_settles [of num_text "map deduplication_id events"]
    by (metis (no_types) accepted_all_def add_cancel_right_left batch_result.inject(1) empty_le
        image_empty inf_bot_left list.set(1) list.simps(8) mset.simps(1))+
qed

section \<open>What is sent\<close>

lemma cb_attempt_posts:
  assumes "cb_attempt date_parse num_text p env events n w = x"
  shows "\<exists>k \<le> 1. posts (case x of Inl (r, w') \<Rightarrow> w' | Inr w' \<Rightarrow> w') = posts w @ replicate k events"
proof -
  obtain outcome w1 where q: "post (no_caller (env (attempts w))) events w = (outcome, w1)"
    by (metis surj_pair)
  have "posts (case x of Inl (r, w') \<Rightarrow> w' | Inr w' \<Rightarrow> w') = posts w1"
    unfolding assms [symmetric] cb_attempt_def Let_def q
    by (auto simp: cb_retry_def split: posted.splits failure_class.splits)
  moreover have "posts w1 = posts w @ replicate 0 events \<or> posts w1 = posts w @ replicate 1 events"
    using post_posts(1) [of "no_caller (env (attempts w))" events w] by (simp add: q)
  ultimately show ?thesis by (metis le_numeral_extra(4) zero_le)
qed

lemma cb_send_posts:
  assumes "cb_send date_parse num_text p env events n w = (r, w')"
  shows "\<exists>k \<le> maxAttempts p - n + 1. posts w' = posts w @ replicate k events"
  using assms
proof (induction date_parse num_text p env events n w rule: cb_send.induct)
  case (1 date_parse num_text p env events n w)
  show ?case
  proof (cases "cb_attempt date_parse num_text p env events n w")
    case (Inl x)
    then have "x = (r, w')" using "1.prems" by (simp add: cb_send.simps [of _ _ _ _ _ n])
    with cb_attempt_posts [OF Inl] show ?thesis by (auto intro: le_trans)
  next
    case (Inr w1)
    from "1.IH" [OF Inr] "1.prems" obtain k where k: "k \<le> maxAttempts p - (n + 1) + 1"
      "posts w' = posts w1 @ replicate k events"
      by (auto simp: cb_send.simps [of _ _ _ _ _ n] Inr)
    from cb_attempt_posts [OF Inr] obtain j where "j \<le> 1" "posts w1 = posts w @ replicate j events"
      by auto
    with k(2) have "posts w' = posts w @ replicate (j + k) events" by (simp add: replicate_add)
    moreover have "j + k \<le> maxAttempts p - n + 1"
      using k(1) \<open>j \<le> 1\<close> cb_attempt_again [OF Inr] by simp
    ultimately show ?thesis by blast
  qed
qed

lemma cb_event_id:
  assumes "cb_event stringify date_parse sep r = Inr (Inr e)"
  shows "chargebee_valid e" "deduplication_id e = rid r"
proof -
  obtain subscription time props where
    v: "validateEvent subscription time (jget r ''record_id'') props = Inr e"
    using assms by (auto simp: cb_event_def Let_def split: if_splits sum.splits)
  show "chargebee_valid e" by (rule validateEvent_valid(1) [OF v])
  show "deduplication_id e = rid r" using validateEvent_valid(2) [OF v] by (simp add: rid_def)
qed

lemma cb_sort_sorts:
  assumes "cb_sort stringify date_parse sep batch = Inr (rej, events)"
  shows "mset (map fst rej) + mset (map deduplication_id events) = mset (map rid batch)"
    and "\<forall>e \<in> set events. chargebee_valid e \<and>
      (\<exists>r \<in> set batch. cb_event stringify date_parse sep r = Inr (Inr e))"
  using assms
proof (induction batch arbitrary: rej events)
  case (Cons r rs)
  case 1
  then obtain fate rej' events' where f: "cb_event stringify date_parse sep r = Inr fate"
    "cb_sort stringify date_parse sep rs = Inr (rej', events')"
    by (auto split: sum.splits)
  show ?case using 1 f Cons.IH(1) [OF f(2)] cb_event_id(2) [of stringify date_parse sep r]
    by (cases fate) auto
next
  case (Cons r rs)
  case 2
  then obtain fate rej' events' where f: "cb_event stringify date_parse sep r = Inr fate"
    "cb_sort stringify date_parse sep rs = Inr (rej', events')"
    by (auto split: sum.splits)
  show ?case using 2 f Cons.IH(2) [OF f(2)] cb_event_id(1) [of stringify date_parse sep r]
    by (cases fate) auto
qed simp_all

lemma cb_sort_good:
  assumes "list_all (\<lambda>r. \<not> nullish (jget r ''attribution'') \<and> \<not> nullish (jget r ''timing'')) batch"
  shows "\<exists>rej events. cb_sort stringify date_parse sep batch = Inr (rej, events)"
  using assms
proof (induction batch)
  case (Cons r rs)
  then obtain rej events where "cb_sort stringify date_parse sep rs = Inr (rej, events)" by auto
  moreover have "\<exists>fate. cb_event stringify date_parse sep r = Inr fate"
    using Cons.prems by (simp add: cb_event_def Let_def)
  then obtain fate where "cb_event stringify date_parse sep r = Inr fate" by blast
  ultimately show ?case by (cases fate) auto
qed simp


section \<open>The contract\<close>

lemma chargebee_answer:
  assumes "fst (chargebee_deliver stringify date_parse num_text s batch) = Answered (Accepted R U)"
  shows "mset (map fst R) + mset U \<subseteq># mset (map rid batch)"
    "distinct (map rid batch) \<Longrightarrow> set (map fst R) \<inter> set U = {}"
proof -
  obtain rej events where e: "cb_sort stringify date_parse (cb_separator s) batch = Inr (rej, events)"
    using assms by (auto simp: chargebee_deliver_def split: if_splits sum.splits)
  note m = cb_sort_sorts(1) [OF e]
  obtain R' where R: "R = rej @ R'" "set (map fst R') \<inter> set U = {}"
    "mset (map fst R') + mset U \<subseteq># mset (map deduplication_id events)"
  proof (cases "events = []")
    case True
    then show thesis using assms e that [of "[]"] by (auto simp: chargebee_deliver_def split: if_splits)
  next
    case False
    obtain r w where d: "cb_send date_parse num_text (cb_policy s) (cb_env s) events 1 (cb_wire s) = (r, w)"
      by (metis surj_pair)
    with assms e False obtain R' where "r = Accepted R' U" "R = rej @ R'"
      by (auto simp: chargebee_deliver_def split: if_splits batch_result.splits)
    with cb_send_accepted [of date_parse num_text "cb_policy s" "cb_env s" events 1 "cb_wire s" R' U w] d
    show thesis using that by simp
  qed
  show "mset (map fst R) + mset U \<subseteq># mset (map rid batch)"
    unfolding m [symmetric] R(1) using R(3) by (simp add: union_assoc)
  assume "distinct (map rid batch)"
  then have "distinct (map fst rej @ map deduplication_id events)"
    using mset_eq_imp_distinct_iff m by (metis mset_append)
  moreover have "set U \<subseteq> set (map deduplication_id events)"
    using R(3) by (metis mset_subset_eq_add_right set_mset_mset set_mset_mono subset_mset.order_trans)
  ultimately show "set (map fst R) \<inter> set U = {}" using R(1,2) by auto
qed

definition chargebee_good :: "jsval \<Rightarrow> bool" where
  "chargebee_good r \<longleftrightarrow> \<not> nullish (jget r ''attribution'') \<and> \<not> nullish (jget r ''timing'')"

lemma chargebee_answers:
  assumes "list_all chargebee_good batch"
  shows "\<exists>r. fst (chargebee_deliver stringify date_parse num_text s batch) = Answered r"
  using cb_sort_good [of batch stringify date_parse "cb_separator s"] assms
  by (auto simp: chargebee_deliver_def chargebee_good_def [abs_def] split: prod.splits)

lemma subseteq_names: "mset (map fst R) + mset U \<subseteq># mset ids' \<Longrightarrow> fst ` set R \<subseteq> set ids' \<and> set U \<subseteq> set ids'"
  by (metis Un_subset_iff list.set_map set_mset_mono set_mset_mset set_mset_union)

interpretation chargebee: sink_contract "chargebee_deliver stringify date_parse num_text" chargebee_close
    "\<lambda>s. True" cb_closed chargebee_good for stringify date_parse num_text
proof unfold_locales
  fix s b rej unk
  assume a: "fst (chargebee_deliver stringify date_parse num_text s b) = Answered (Accepted rej unk)"
  from subseteq_names [OF chargebee_answer(1) [OF a]]
  show "fst ` set rej \<subseteq> rid ` set b" "set unk \<subseteq> rid ` set b" by simp_all
  assume "distinct (map rid b)"
  from chargebee_answer(2) [OF a this] show "fst ` set rej \<inter> set unk = {}" by simp
qed (simp_all add: chargebee_answers, simp_all add: chargebee_close_def chargebee_deliver_def)


section \<open>Where the contract is broken\<close>

text \<open>A record without attribution makes \<open>deliver\<close> throw.\<close>

lemma missing_attribution_throws:
  "\<not> cb_closed s \<Longrightarrow> nullish (jget r ''attribution'') \<Longrightarrow>
    fst (chargebee_deliver stringify date_parse num_text s (r # rs)) = Threw TypeError"
  by (simp add: chargebee_deliver_def cb_event_def)

definition nap :: moment where
  "nap = says (Replied 207 None None None)"

definition cb_record :: "string \<Rightarrow> jsval \<Rightarrow> string \<Rightarrow> jsval" where
  "cb_record i subscription time = JObj
     [(''record_id'', JStr i), (''timing'', JObj [(''event_time'', JStr time)]),
      (''attribution'', JObj [(''subscription_id'', subscription)])]"

definition cb_date :: "jsval \<Rightarrow> int option" where
  "cb_date v = (if v = JStr ''1966-10-31T14:13:20Z'' then Some (-100000000000) else None)"

definition cb_sample :: chargebee_sink where
  "cb_sample = \<lparr>cb_policy = quick_policy, cb_separator = ''__'', cb_closed = False,
     cb_env = (\<lambda>n. if n = 0 then says (Replied 503 None None None) else nap),
     cb_wire = \<lparr>attempts = 0, posts = [], waits = []\<rparr>\<rparr>"

definition cb_event_1966 :: usage_event where
  "cb_event_1966 = \<lparr>ev_subscription = ''s'', ev_timestamp = -100000000000, deduplication_id = ''a'',
     ev_properties = [(''record_id'', JStr ''a''), (''timing__event_time'', JStr ''1966-10-31T14:13:20Z''),
       (''attribution__subscription_id'', JStr ''s'')]\<rparr>"

text \<open>The time stamp of 1966 has twelve digits and a sign, thirteen characters, and passes.\<close>

lemma int_str_1966: "length (int_str (-100000000000)) = 13"
  by (simp add: int_str_def nat_str.simps)

lemma event_1966:
  "cb_event tell cb_date ''__'' (cb_record ''a'' (JStr ''s'') ''1966-10-31T14:13:20Z'') = Inr (Inr cb_event_1966)"
proof -
  let ?r = "cb_record ''a'' (JStr ''s'') ''1966-10-31T14:13:20Z''"
  have f: "cb_flatten tell ''__'' ?r = Inr (ev_properties cb_event_1966)" by code_simp
  have p: "bad_properties (JObj (ev_properties cb_event_1966)) = None"
    "bad_identifier (JStr ''s'') ''subscription_id'' 50 = None"
    "bad_identifier (JStr ''a'') ''deduplication_id'' 36 = None" by code_simp+
  have g: "jget (jget ?r ''attribution'') ''subscription_id'' = JStr ''s''"
    "\<not> nullish (jget ?r ''attribution'')" "\<not> nullish (jget ?r ''timing'')"
    "jget (jget ?r ''timing'') ''event_time'' = JStr ''1966-10-31T14:13:20Z''" "jget ?r ''record_id'' = JStr ''a''"
    by code_simp+
  show ?thesis
    unfolding cb_event_def Let_def f g(1,4,5)
    using p g(2,3) int_str_1966
    by (simp add: validateEvent_def truthy_def cb_date_def) (simp add: cb_event_1966_def)
qed

lemma event_of_no_one: "cb_event tell cb_date ''__'' (cb_record i JUndef t) = Inr (Inl ''missing_subscription_id'')"
  by (simp add: cb_event_def cb_record_def jget_def field_def nullish_def truthy_def)

lemma cb_sample_send:
  "\<exists>w. cb_send cb_date (\<lambda>_. []) quick_policy (cb_env cb_sample) [cb_event_1966] 1 (cb_wire cb_sample) =
      (Accepted [] [''a''], w) \<and> posts w = [[cb_event_1966], [cb_event_1966]]"
proof -
  have m: "cb_attempt cb_date (\<lambda>_. []) quick_policy (cb_env cb_sample) [cb_event_1966] 1 (cb_wire cb_sample) =
      Inr \<lparr>attempts = 1, posts = [[cb_event_1966]], waits = [delayMs quick_policy 0 1 None]\<rparr>"
    by (simp add: cb_attempt_def cb_sample_def no_caller_def says_def calm_def post_def stopped_by_def
        classify_def cb_retry_def quick_policy_def cb_retryAfterMs_def)
  have n: "cb_attempt cb_date (\<lambda>_. []) quick_policy (cb_env cb_sample) [cb_event_1966] 2
        \<lparr>attempts = 1, posts = [[cb_event_1966]], waits = ws\<rparr> =
      Inl (Accepted [] [''a''], \<lparr>attempts = 2, posts = [[cb_event_1966], [cb_event_1966]], waits = ws\<rparr>)" for ws
    by (simp add: cb_attempt_def cb_sample_def nap_def no_caller_def says_def calm_def post_def stopped_by_def
        cb_partial_def failed_events_def cb_event_1966_def)
  show ?thesis
    by (simp only: cb_send.simps [where n = 1] m sum.case one_add_one cb_send.simps [where n = 2] n) simp
qed

lemmas cb_sample_run = chargebee_deliver_def event_1966 event_of_no_one cb_sample_def [THEN arg_cong, of cb_closed]
  cb_sample_def [THEN arg_cong, of cb_separator] cb_sample_def [THEN arg_cong, of cb_policy]



end
