(* ===== verification/Credentials.thy ===== *)
theory Credentials
  imports Client
begin

text \<open>
  \<open>sinks/lago/typescript/src/credentials.ts\<close> and \<open>sinks/chargebee/typescript/src/credentials.ts\<close>:
  which address the API key may be sent to. The \<open>URL\<close> parser of the platform and the base64
  encoding are arguments; the environment is a function from names to values.
\<close>

record url =
  protocol :: string
  username :: string
  password :: string
  hostname :: string
  url_host :: string
  url_origin :: string
  url_search :: string
  url_hash :: string

definition refuse_config :: "string \<Rightarrow> audr_error + 'a" where
  "refuse_config why = Inl (ConfigurationError why)"

section \<open>Lago\<close>

definition lago_batch_path :: string where
  "lago_batch_path = ''/api/v1/events/batch''"

definition lago_paths :: "string list" where
  "lago_paths = ['''', ''/api/v1'', lago_batch_path]"

definition is_letter :: "char \<Rightarrow> bool" where
  "is_letter c \<longleftrightarrow> in_cls [(CHR ''a'', CHR ''z''), (CHR ''A'', CHR ''Z'')] c"

definition line_break :: "char \<Rightarrow> bool" where
  "line_break c \<longleftrightarrow> code c = 10 \<or> code c = 13"

text \<open>
  The two groups of \<open>/^[a-z]+:\/\/([^/]*)(.*)$/i\<close>, empty when it does not match. A dot does
  not match a line break.
\<close>

definition written_parts :: "string \<Rightarrow> string \<times> string" where
  "written_parts s =
     (let scheme = takeWhile is_letter s; rest = dropWhile is_letter s;
          authority = takeWhile (\<lambda>c. c \<noteq> CHR ''/'') (drop 3 rest);
          path = dropWhile (\<lambda>c. c \<noteq> CHR ''/'') (drop 3 rest)
      in if scheme \<noteq> [] \<and> starts_with ''://'' rest \<and> \<not> list_ex line_break path
         then (authority, path) else ([], []))"

definition drop_slash :: "string \<Rightarrow> string" where
  "drop_slash s = (if s \<noteq> [] \<and> last s = CHR ''/'' then butlast s else s)"

definition parseApiUrl :: "(string \<Rightarrow> url option) \<Rightarrow> jsval \<Rightarrow> bool \<Rightarrow> audr_error + string" where
  "parseApiUrl parse v insecure =
     (case v of
        JStr s \<Rightarrow>
          (case parse s of
             None \<Rightarrow> refuse_config ''apiUrl must be an absolute URL with a host name''
           | Some u \<Rightarrow>
               if protocol u = ''http:'' \<and> \<not> insecure
               then refuse_config ''apiUrl must use https; set allowInsecureHttp to use http with a self-hosted Lago''
               else if protocol u \<noteq> ''http:'' \<and> protocol u \<noteq> ''https:''
               then refuse_config ''apiUrl scheme must be https''
               else if username u \<noteq> [] \<or> password u \<noteq> []
               then refuse_config ''apiUrl must not include userinfo''
               else if CHR ''?'' \<in> set s \<or> CHR ''#'' \<in> set s
               then refuse_config ''apiUrl must not include a query string or fragment''
               else if lower (fst (written_parts s)) \<noteq> url_host u
               then refuse_config ''apiUrl must be a plain host name or address with an optional non-default port''
               else if drop_slash (snd (written_parts s)) \<notin> set lago_paths
               then refuse_config ''apiUrl path must be empty, /api/v1 or /api/v1/events/batch; the sink only calls the batch endpoint''
               else Inr (url_origin u @ lago_batch_path))
      | _ \<Rightarrow> refuse_config ''apiUrl must be a string'')"

definition printable :: rx where
  "printable = Plus (Cls [(CHR 0x21, CHR 0x7E)])"

definition bearerAuthorization :: "jsval \<Rightarrow> audr_error + string" where
  "bearerAuthorization v =
     (case v of
        JStr k \<Rightarrow>
          if k = [] then refuse_config ''apiKey must not be empty; set LAGO_API_KEY''
          else if \<not> matches printable k
          then refuse_config ''apiKey must contain only printable ASCII without spaces''
          else Inr (''Bearer '' @ k)
      | _ \<Rightarrow> refuse_config ''apiKey must not be empty; set LAGO_API_KEY'')"

record lago_credentials =
  lagoKeyOpt :: jsval
  lagoUrlOpt :: jsval
  insecureOpt :: jsval

definition lago_resolve :: "(string \<Rightarrow> url option) \<Rightarrow> (string \<Rightarrow> jsval) \<Rightarrow> lago_credentials \<Rightarrow>
    audr_error + string \<times> string" where
  "lago_resolve parse env opts =
     (let key = coalesce (lagoKeyOpt opts) (env ''LAGO_API_KEY'')
      in if key = JUndef
         then refuse_config ''apiKey is required; provide apiKey or set LAGO_API_KEY''
         else case coalesce (insecureOpt opts) (JBool False) of
           JBool insecure \<Rightarrow>
             (case parseApiUrl parse (coalesce (coalesce (lagoUrlOpt opts) (env ''LAGO_API_URL''))
                    (JStr ''https://api.getlago.com'')) insecure of
                Inl e \<Rightarrow> Inl e
              | Inr endpoint \<Rightarrow> map_sum id (\<lambda>a. (endpoint, a)) (bearerAuthorization key))
         | _ \<Rightarrow> refuse_config ''allowInsecureHttp must be a boolean'')"

section \<open>Chargebee\<close>

definition chargebee_batch_path :: string where
  "chargebee_batch_path = ''/api/v2/batch/usage_events''"

definition alnum :: "(char \<times> char) list" where
  "alnum = [(CHR ''a'', CHR ''z''), (CHR ''0'', CHR ''9'')]"

text \<open>\<open>HOST_LABEL\<close>; its inner part has at most 61 characters, so that a label has at most 63.\<close>

definition host_label :: "string \<Rightarrow> bool" where
  "host_label s \<longleftrightarrow>
     matches (Sq (Cls alnum) (Opt (Sq (Star (Cls ((CHR ''-'', CHR ''-'') # alnum))) (Cls alnum)))) s \<and>
     length s \<le> 63"

text \<open>\<open>HOST\<close>: two labels or more, joined by dots.\<close>

definition host_name :: "string \<Rightarrow> bool" where
  "host_name s \<longleftrightarrow> 2 \<le> length (split_on (CHR ''.'') s) \<and> list_all host_label (split_on (CHR ''.'') s)"

text \<open>The groups of \<open>/^https:\/\/([^/?#]*)([^?#]*)/\<close>, empty when it does not match.\<close>

definition ingest_parts :: "string \<Rightarrow> string \<times> string" where
  "ingest_parts s =
     (if \<not> starts_with ''https://'' s then ([], [])
      else let rest = drop 8 s;
               host = takeWhile (\<lambda>c. c \<notin> {CHR ''/'', CHR ''?'', CHR ''#''}) rest
           in (host, takeWhile (\<lambda>c. c \<notin> {CHR ''?'', CHR ''#''}) (drop (length host) rest)))"

definition has_port :: "string \<Rightarrow> bool" where
  "has_port host \<longleftrightarrow>
     (case dropWhile is_digit (rev host) of c # _ \<Rightarrow> c = CHR '':'' | [] \<Rightarrow> False)"

definition parseIngestUrl :: "(string \<Rightarrow> url option) \<Rightarrow> string \<Rightarrow> audr_error + string" where
  "parseIngestUrl parse s =
     (case parse s of
        None \<Rightarrow> refuse_config ''ingestUrl must include a host name''
      | Some u \<Rightarrow>
          (case ingest_parts s of (host, path) \<Rightarrow>
             if protocol u \<noteq> ''https:'' then refuse_config ''ingestUrl scheme must be https''
             else if username u \<noteq> [] \<or> password u \<noteq> []
             then refuse_config ''ingestUrl must not include userinfo''
             else if url_search u \<noteq> [] then refuse_config ''ingestUrl must not include a query string''
             else if url_hash u \<noteq> [] then refuse_config ''ingestUrl must not include a fragment''
             else if host = [] then refuse_config ''ingestUrl must include a host name''
             else if has_port host then refuse_config ''ingestUrl must not include a port''
             else if ends_with ''.'' host then refuse_config ''ingestUrl host must not have a trailing dot''
             else if host \<noteq> lower host then refuse_config ''ingestUrl host must be lowercase''
             else if \<not> host_name host \<or> host \<noteq> hostname u
             then refuse_config ''ingestUrl host must be a dotted lowercase host name with at least two labels''
             else if path \<notin> {'''', ''/'', chargebee_batch_path}
             then refuse_config ''ingestUrl path must be empty, /, or /api/v2/batch/usage_events; the sink only calls the batch endpoint''
             else Inr (''https://'' @ host)))"

definition basicAuthorization :: "(string \<Rightarrow> string) \<Rightarrow> jsval \<Rightarrow> audr_error + string" where
  "basicAuthorization base64 v =
     (case v of
        JStr k \<Rightarrow>
          if trim k = [] then refuse_config ''apiKey must not be empty; set CHARGEBEE_API_KEY''
          else Inr (''Basic '' @ base64 (k @ '':''))
      | _ \<Rightarrow> refuse_config ''apiKey must not be empty; set CHARGEBEE_API_KEY'')"

text \<open>The options that are typed as strings, \<open>None\<close> where not given.\<close>

record chargebee_credentials =
  siteOpt :: "string option"
  keyOpt :: jsval
  domainOpt :: "string option"
  ingestOpt :: "string option"

definition site_origin :: "(string \<Rightarrow> url option) \<Rightarrow> string \<Rightarrow> string \<Rightarrow> audr_error + string" where
  "site_origin parse site domain =
     (if \<not> host_label site
      then refuse_config ''site must be a lowercase DNS label: letters, digits, and hyphens, and it must not start or end with a hyphen''
      else if \<not> host_name domain
      then refuse_config ''ingestDomain must be a dotted lowercase host name with at least two labels''
      else parseIngestUrl parse (''https://'' @ site @ ''.'' @ domain @ chargebee_batch_path))"

definition chargebee_resolve :: "(string \<Rightarrow> url option) \<Rightarrow> (string \<Rightarrow> string) \<Rightarrow>
    (string \<Rightarrow> string option) \<Rightarrow> chargebee_credentials \<Rightarrow> audr_error + string \<times> string" where
  "chargebee_resolve parse base64 env opts =
     (let key = coalesce (keyOpt opts) (case env ''CHARGEBEE_API_KEY'' of None \<Rightarrow> JUndef | Some k \<Rightarrow> JStr k)
      in if key = JUndef
         then refuse_config ''apiKey is required; provide apiKey or set CHARGEBEE_API_KEY''
         else case basicAuthorization base64 key of
           Inl e \<Rightarrow> Inl e
         | Inr authorization \<Rightarrow>
             map_sum id (\<lambda>o'. (o', authorization))
               (case opt_or (ingestOpt opts) (env ''CHARGEBEE_INGEST_URL'') of
                  Some u \<Rightarrow>
                    if siteOpt opts \<noteq> None \<or> domainOpt opts \<noteq> None
                    then refuse_config ''ingestUrl is mutually exclusive with site/ingestDomain''
                    else parseIngestUrl parse u
                | None \<Rightarrow>
                    (case opt_or (siteOpt opts) (env ''CHARGEBEE_SITE'') of
                       None \<Rightarrow> refuse_config ''site is required; provide site (or set CHARGEBEE_SITE) or provide ingestUrl (or set CHARGEBEE_INGEST_URL, for example https://acme.ingest.chargebee.com)''
                     | Some site \<Rightarrow>
                         (case opt_or (domainOpt opts) (env ''CHARGEBEE_INGEST_DOMAIN'') of
                            None \<Rightarrow> site_origin parse site ''ingest.chargebee.com''
                          | Some domain \<Rightarrow> site_origin parse site domain))))"

section \<open>Where the key can go\<close>

lemma written_parts_eq:
  assumes "written_parts s = (a, p)" "a \<noteq> []"
  shows "\<exists>scheme. s = scheme @ ''://'' @ a @ p \<and> list_all is_letter scheme \<and> scheme \<noteq> [] \<and>
    CHR ''/'' \<notin> set a"
proof -
  let ?scheme = "takeWhile is_letter s" and ?rest = "dropWhile is_letter s"
  have c: "?scheme \<noteq> []" "starts_with ''://'' ?rest"
    and ap: "a = takeWhile (\<lambda>c. c \<noteq> CHR ''/'') (drop 3 ?rest)" "p = dropWhile (\<lambda>c. c \<noteq> CHR ''/'') (drop 3 ?rest)"
    using assms by (auto simp: written_parts_def Let_def split: if_splits)
  from c(2) obtain t where t: "?rest = ''://'' @ t" by (auto simp: starts_with_iff)
  then have "a @ p = t" using ap by simp
  then have "s = ?scheme @ ''://'' @ a @ p" using t by (metis takeWhile_dropWhile_id)
  moreover have "list_all is_letter ?scheme" by (auto simp: list_all_iff dest: set_takeWhileD)
  moreover have "CHR ''/'' \<notin> set a" using ap(1) by (auto dest: set_takeWhileD)
  ultimately show ?thesis using c(1) by blast
qed

text \<open>
  C39: The Lago API key is sent to the host the operator wrote and to no other: whatever the
  platform's URL parser made of the configured value, the endpoint is the batch path at an
  origin whose host is the authority as written, in lower case, without userinfo, query or
  fragment, and reached by https unless http was allowed explicitly.
\<close>

theorem lago_key_destination:
  assumes "parseApiUrl parse (JStr s) insecure = Inr endpoint"
    and "\<And>u. parse s = Some u \<Longrightarrow> protocol u \<in> {''http:'', ''https:''} \<Longrightarrow>
      url_host u \<noteq> [] \<and> url_origin u = protocol u @ ''//'' @ url_host u"
  shows "\<exists>scheme authority path protocol.
    s = scheme @ ''://'' @ authority @ path \<and> CHR ''/'' \<notin> set authority \<and>
    drop_slash path \<in> set lago_paths \<and> CHR ''?'' \<notin> set s \<and> CHR ''#'' \<notin> set s \<and>
    (protocol = ''https:'' \<or> insecure \<and> protocol = ''http:'') \<and>
    endpoint = protocol @ ''//'' @ lower authority @ lago_batch_path"
proof -
  obtain u where u: "parse s = Some u"
    using assms(1) by (auto simp: parseApiUrl_def refuse_config_def split: option.splits)
  obtain a p where w: "written_parts s = (a, p)" by (metis surj_pair)
  from assms(1) u w have f: "protocol u = ''https:'' \<or> insecure \<and> protocol u = ''http:''"
    "CHR ''?'' \<notin> set s" "CHR ''#'' \<notin> set s" "lower a = url_host u" "drop_slash p \<in> set lago_paths"
    "endpoint = url_origin u @ lago_batch_path"
    by (auto simp: parseApiUrl_def refuse_config_def split: if_splits)
  with assms(2) [OF u] have o: "url_host u \<noteq> []" "url_origin u = protocol u @ ''//'' @ url_host u" by auto
  with f(4) have "a \<noteq> []" by (auto simp: lower_def)
  with written_parts_eq [OF w] obtain scheme where "s = scheme @ ''://'' @ a @ p" "CHR ''/'' \<notin> set a"
    by blast
  with f o(2) show ?thesis
    by (intro exI [of _ scheme] exI [of _ a] exI [of _ p] exI [of _ "protocol u"]) simp
qed

text \<open>
  The Chargebee API key is sent, by https, to the host name as the operator wrote it, a
  dotted name in lower case without port or userinfo, whatever the URL parser made of it.
\<close>

theorem chargebee_key_destination:
  assumes "parseIngestUrl parse s = Inr origin"
  shows "\<exists>host path rest. s = ''https://'' @ host @ path @ rest \<and> host_name host \<and>
    path \<in> {'''', ''/'', chargebee_batch_path} \<and> (rest = [] \<or> hd rest \<in> {CHR ''?'', CHR ''#''}) \<and>
    origin = ''https://'' @ host"
proof -
  obtain h p where w: "ingest_parts s = (h, p)" by (metis surj_pair)
  from assms w have f: "h \<noteq> []" "host_name h" "p \<in> {'''', ''/'', chargebee_batch_path}"
    "origin = ''https://'' @ h"
    by (auto simp: parseIngestUrl_def refuse_config_def split: option.splits if_splits)
  from w f(1) obtain t where t: "s = ''https://'' @ t"
    by (auto simp: ingest_parts_def starts_with_iff split: if_splits)
  let ?rest = "dropWhile (\<lambda>c. c \<notin> {CHR ''?'', CHR ''#''}) (drop (length h) t)"
  have h: "h = takeWhile (\<lambda>c. c \<notin> {CHR ''/'', CHR ''?'', CHR ''#''}) t"
    and p: "p = takeWhile (\<lambda>c. c \<notin> {CHR ''?'', CHR ''#''}) (drop (length h) t)"
    using w t by (auto simp: ingest_parts_def Let_def)
  have "t = h @ drop (length h) t" unfolding h by (metis takeWhile_eq_take append_take_drop_id)
  then have "s = ''https://'' @ h @ p @ ?rest" using t p by (metis takeWhile_dropWhile_id)
  moreover have "?rest = [] \<or> hd ?rest \<in> {CHR ''?'', CHR ''#''}"
    using hd_dropWhile [of "\<lambda>c. c \<notin> {CHR ''?'', CHR ''#''}" "drop (length h) t"] by blast
  ultimately show ?thesis using f by blast
qed

text \<open>A URL parser that knows two addresses.\<close>

definition two_urls :: "string \<Rightarrow> url option" where
  "two_urls s =
     (if s = ''https://Lago.Example:8443/api/v1/'' then
        Some \<lparr>protocol = ''https:'', username = [], password = [], hostname = ''lago.example'',
          url_host = ''lago.example:8443'', url_origin = ''https://lago.example:8443'', url_search = [], url_hash = []\<rparr>
      else if s = ''https://acme.ingest.chargebee.com/'' then
        Some \<lparr>protocol = ''https:'', username = [], password = [], hostname = ''acme.ingest.chargebee.com'',
          url_host = ''acme.ingest.chargebee.com'', url_origin = ''https://acme.ingest.chargebee.com'',
          url_search = [], url_hash = []\<rparr>
      else None)"

theorem lago_key_destination_witness:
  "parseApiUrl two_urls (JStr ''https://Lago.Example:8443/api/v1/'') False =
     Inr ''https://lago.example:8443/api/v1/events/batch'' \<and>
   (\<exists>scheme authority path. ''https://Lago.Example:8443/api/v1/'' = scheme @ ''://'' @ authority @ path)"
proof -
  have p: "parseApiUrl two_urls (JStr ''https://Lago.Example:8443/api/v1/'') False =
     Inr ''https://lago.example:8443/api/v1/events/batch''" by code_simp
  have "\<exists>scheme authority path protocol.
    ''https://Lago.Example:8443/api/v1/'' = scheme @ ''://'' @ authority @ path \<and> CHR ''/'' \<notin> set authority \<and>
    drop_slash path \<in> set lago_paths \<and> CHR ''?'' \<notin> set ''https://Lago.Example:8443/api/v1/'' \<and>
    CHR ''#'' \<notin> set ''https://Lago.Example:8443/api/v1/'' \<and>
    (protocol = ''https:'' \<or> False \<and> protocol = ''http:'') \<and>
    ''https://lago.example:8443/api/v1/events/batch'' = protocol @ ''//'' @ lower authority @ lago_batch_path"
    by (rule lago_key_destination [OF p]) (auto simp: two_urls_def split: if_splits)
  with p show ?thesis by blast
qed

theorem chargebee_key_destination_witness:
  "parseIngestUrl two_urls ''https://acme.ingest.chargebee.com/'' = Inr ''https://acme.ingest.chargebee.com'' \<and>
   (\<exists>host. host_name host \<and> ''https://acme.ingest.chargebee.com'' = ''https://'' @ host)"
proof -
  have p: "parseIngestUrl two_urls ''https://acme.ingest.chargebee.com/'' = Inr ''https://acme.ingest.chargebee.com''"
    by code_simp
  from chargebee_key_destination [OF p] p show ?thesis by blast
qed

end
