(* ===== verification/Sinks.thy ===== *)
theory Sinks
  imports ChargebeeSink Credentials
begin

text \<open>
  The constructors of the two sinks, \<open>sinks/lago/typescript/src/sink.ts\<close> and
  \<open>sinks/chargebee/typescript/src/sink.ts\<close>, and what all four sinks do with the batches a
  client hands them.
\<close>

section \<open>Constructors\<close>

text \<open>The options both sinks take.\<close>

record delivery_options =
  retryOpt :: retry_options
  timeoutOpt :: jsval

text \<open>An endpoint, the authorization header and a sink whose transport is open.\<close>

definition new_lago :: "(string \<Rightarrow> url option) \<Rightarrow> (string \<Rightarrow> jsval) \<Rightarrow> lago_credentials \<Rightarrow> delivery_options \<Rightarrow>
    (nat \<Rightarrow> moment) \<Rightarrow> audr_error + string \<times> string \<times> lago_sink" where
  "new_lago parse env creds opts moments =
     (case lago_resolve parse env creds of
        Inl e \<Rightarrow> Inl e
      | Inr (endpoint, authorization) \<Rightarrow>
          (case new_policy (retryOpt opts) of
             Inl e \<Rightarrow> Inl e
           | Inr p \<Rightarrow>
               (case new_transport (timeoutOpt opts) of
                  Inl e \<Rightarrow> Inl e
                | Inr ms \<Rightarrow> Inr (endpoint, authorization,
                    \<lparr>lago_policy = p, lago_closed = False, lago_env = moments,
                     lago_wire = \<lparr>attempts = 0, posts = [], waits = []\<rparr>\<rparr>))))"

definition CB_SEPARATOR :: rx where
  "CB_SEPARATOR = Plus (Chr (CHR ''_''))"

text \<open>A separator given is a string.\<close>

definition new_chargebee :: "(string \<Rightarrow> url option) \<Rightarrow> (string \<Rightarrow> string) \<Rightarrow> (string \<Rightarrow> string option) \<Rightarrow>
    string option \<Rightarrow> chargebee_credentials \<Rightarrow> delivery_options \<Rightarrow> (nat \<Rightarrow> moment) \<Rightarrow>
    audr_error + string \<times> string \<times> chargebee_sink" where
  "new_chargebee parse base64 env sep creds opts moments =
     (let separator = (case sep of None \<Rightarrow> ''__'' | Some s \<Rightarrow> s)
      in if \<not> matches CB_SEPARATOR separator
         then refuse_config ''separator must consist of one or more underscores; Chargebee property names must start with a letter and contain only letters, digits, and underscores''
         else case chargebee_resolve parse base64 env creds of
           Inl e \<Rightarrow> Inl e
         | Inr (origin, authorization) \<Rightarrow>
             (case new_policy (retryOpt opts) of
                Inl e \<Rightarrow> Inl e
              | Inr p \<Rightarrow>
                  (case new_transport (timeoutOpt opts) of
                     Inl e \<Rightarrow> Inl e
                   | Inr ms \<Rightarrow> Inr (origin @ chargebee_batch_path, authorization,
                       \<lparr>cb_policy = p, cb_separator = separator, cb_closed = False, cb_env = moments,
                        cb_wire = \<lparr>attempts = 0, posts = [], waits = []\<rparr>\<rparr>))))"

section \<open>What the sinks do with a client's batches\<close>

lemma schema_requires:
  assumes "sat schema31 d" "k \<in> set root_required"
  shows "has d k"
proof -
  from assms(1) have "is_object d" by (auto simp: schema31_def elim: has_type.elims)
  with assms show ?thesis by (auto simp: schema31_def list_all_iff)
qed

lemma schema_root:
  assumes "sat schema31 d"
  shows "sat timing_schema (jget d ''timing'')" "sat attribution_schema (jget d ''attribution'')"
proof -
  have o: "is_object d" using assms by (auto simp: schema31_def elim: has_type.elims)
  have "has d ''timing''" "has d ''attribution''"
    using schema_requires [OF assms] by (simp_all add: root_required_def)
  with assms o show "sat timing_schema (jget d ''timing'')" "sat attribution_schema (jget d ''attribution'')"
    by (simp_all add: schema31_def)
qed

lemma typed_object: "sat (Obj (Type [''object''] # ks)) v \<Longrightarrow> \<not> nullish v"
  by (auto simp: nullish_def)

lemma conforming_is_good:
  assumes "conforms d now"
  shows "chargebee_good d"
proof -
  have "sat schema31 d" using assms by (simp add: conforms_def)
  from schema_root [OF this] show ?thesis
    unfolding chargebee_good_def timing_schema_def attribution_schema_def by (blast dest: typed_object)
qed


definition single_options :: client_options where
  "single_options = plain_options\<lparr>batchMaxOpt := JNum (Fin 1)\<rparr>"

lemma new_single_client: "new_client single_options now = Inr (plain_config\<lparr>cfgBatch := 1\<rparr>)"
  by (simp add: new_client_def single_options_def plain_options_def plain_config_def defaulted_def
      whole_def amount_def truthy_def MAX_BATCH_SIZE_def MAX_TIMER_MS_def Let_def)


end
