(* ===== verification/Attribution.thy ===== *)
theory Attribution
  imports LagoEvent
begin

text \<open>
  Who a call is billed to, \<open>attribution.ts\<close> of the four adapters under \<open>src/adapters\<close>. The Vercel AI
  and Mastra adapters read it from the metadata of a call; the Merge Gateway and OpenRouter
  adapters from the scopes of \<open>withAudr\<close> a call starts in. Reading a property of a host's
  object does not throw here, and \<open>labels\<close> that are spread are no strings.
\<close>

section \<open>From the metadata of a call\<close>

definition STRING_FIELDS :: "string list" where
  "STRING_FIELDS = [''environment'', ''user_id'', ''account_id'', ''subscription_id'', ''feature_id'']"

definition is_text :: "jsval \<Rightarrow> bool" where
  "is_text v \<longleftrightarrow> (case v of JStr s \<Rightarrow> True | _ \<Rightarrow> False)"

text \<open>\<open>readRuntimeAttribution\<close> and \<open>readMetadataAttribution\<close>, of the object that may hold \<open>audr\<close>.\<close>

definition readAttribution :: "jsval \<Rightarrow> fields option" where
  "readAttribution source =
     (case jget source ''audr'' of
        JObj audr \<Rightarrow> Some
          (map (\<lambda>k. (k, field audr k)) (filter (\<lambda>k. is_text (field audr k)) STRING_FIELDS) @
           (case field audr ''labels'' of
              JObj labels \<Rightarrow> if list_all (\<lambda>p. is_text (snd p)) labels then [(''labels'', JObj labels)] else []
            | _ \<Rightarrow> []))
      | _ \<Rightarrow> None)"

definition given :: "fields option \<Rightarrow> fields" where
  "given source = (case source of None \<Rightarrow> [] | Some kvs \<Rightarrow> kvs)"

definition take_field :: "fields \<Rightarrow> string \<times> jsval \<Rightarrow> fields" where
  "take_field out p = (if snd p \<noteq> JUndef \<and> fst p \<noteq> ''labels'' then assign out (fst p) (snd p) else out)"

definition put_all :: "fields \<Rightarrow> fields \<Rightarrow> fields" where
  "put_all = foldl (\<lambda>out (k, v). put out k v)"

definition labels_of :: "fields option \<Rightarrow> fields" where
  "labels_of source = entries (field (given source) ''labels'')"

definition mergeAttribution :: "fields option \<Rightarrow> fields option \<Rightarrow> fields" where
  "mergeAttribution defaults per_call =
     (let merged = foldl take_field [] (given defaults @ given per_call);
          labels = property_order (put_all [] (labels_of defaults @ labels_of per_call))
      in property_order (if labels \<noteq> [] then put merged ''labels'' (JObj labels) else merged))"

definition resolveAttribution :: "jsval \<Rightarrow> fields option \<Rightarrow> fields option" where
  "resolveAttribution source defaults =
     (let attribution = mergeAttribution defaults (readAttribution source)
      in if field attribution ''environment'' = JUndef then None else Some attribution)"

subsection \<open>What is merged\<close>

lemma field_app: "field (xs @ ys) k = (if k \<in> fst ` set xs then field xs k else field ys k)"
proof (induction xs)
  case (Cons p xs)
  then show ?case by (cases p) simp
qed simp

lemma map_of_distinct_mset:
  assumes "distinct (map fst xs)" "mset xs = mset ys"
  shows "map_of xs = map_of ys"
proof -
  have "distinct (map fst ys)"
    using assms by (metis mset_eq_imp_distinct_iff mset_map)
  with assms show ?thesis by (metis map_of_inject_set set_mset_mset)
qed

lemma field_property_order: "distinct (map fst kvs) \<Longrightarrow> field (property_order kvs) k = field kvs k"
  unfolding field_def using map_of_distinct_mset [of "property_order kvs" kvs]
  by (simp add: distinct_property_order)

lemma distinct_assign: "distinct (map fst kvs) \<Longrightarrow> distinct (map fst (assign kvs k v))"
  by (simp add: assign_def distinct_put)

lemma field_assign: "k \<noteq> ''__proto__'' \<Longrightarrow> field (assign kvs k v) k' = (if k' = k then v else field kvs k')"
  by (simp add: assign_def)

text \<open>The last value given to a name that is not \<open>undefined\<close>.\<close>

definition last_given :: "fields \<Rightarrow> string \<Rightarrow> jsval \<Rightarrow> jsval" where
  "last_given kvs k d = foldl (\<lambda>v p. if fst p = k \<and> snd p \<noteq> JUndef then snd p else v) d kvs"

lemma last_given_none: "field kvs k = JUndef \<Longrightarrow> distinct (map fst kvs) \<Longrightarrow> last_given kvs k d = d"
proof (induction kvs arbitrary: d)
  case (Cons p kvs)
  show ?case
  proof (cases "fst p = k")
    case True
    then have "snd p = JUndef" "field kvs k = JUndef"
      using Cons.prems by (cases p; auto simp: field_notin)+
    with Cons show ?thesis by (simp add: last_given_def)
  next
    case False
    with Cons show ?thesis by (cases p) (auto simp: last_given_def)
  qed
qed (simp add: last_given_def)

lemma last_given_some: "field kvs k \<noteq> JUndef \<Longrightarrow> distinct (map fst kvs) \<Longrightarrow> last_given kvs k d = field kvs k"
proof (induction kvs arbitrary: d)
  case (Cons p kvs)
  show ?case
  proof (cases "fst p = k")
    case True
    then have f: "field kvs k = JUndef" using Cons.prems(2) by (auto simp: field_notin)
    have "last_given (p # kvs) k d = last_given kvs k (snd p)"
      using True Cons.prems(1) by (cases p) (simp add: last_given_def)
    also have "\<dots> = snd p" using last_given_none [OF f] Cons.prems(2) by simp
    finally show ?thesis using True by (cases p) simp
  next
    case False
    with Cons show ?thesis by (cases p) (auto simp: last_given_def)
  qed
qed simp

lemma fold_take_field:
  assumes "k \<noteq> ''labels''" "k \<noteq> ''__proto__''"
  shows "field (foldl take_field out kvs) k = last_given kvs k (field out k)"
  using assms
proof (induction kvs arbitrary: out)
  case (Cons p kvs)
  have "field (take_field out p) k = (if fst p = k \<and> snd p \<noteq> JUndef then snd p else field out k)"
    using Cons.prems by (auto simp: take_field_def assign_def)
  with Cons.IH [OF Cons.prems, of "take_field out p"] show ?case by (simp add: last_given_def)
qed (simp add: last_given_def)

lemma distinct_take_field: "distinct (map fst out) \<Longrightarrow> distinct (map fst (foldl take_field out kvs))"
  by (induction kvs arbitrary: out) (auto simp: take_field_def distinct_assign)

lemma put_all_field:
  "field (put_all out kvs) k = (case map_of (rev kvs) k of Some v \<Rightarrow> v | None \<Rightarrow> field out k)"
proof (induction kvs arbitrary: out)
  case (Cons p kvs)
  then show ?case
    by (cases p) (auto simp: put_all_def map_add_def split: option.splits)
qed (simp add: put_all_def)

lemma put_all_distinct: "distinct (map fst out) \<Longrightarrow> distinct (map fst (put_all out kvs))"
  by (induction kvs arbitrary: out) (auto simp: put_all_def distinct_put split: prod.splits)

lemma put_all_Nil: "put_all out kvs = [] \<longleftrightarrow> out = [] \<and> kvs = []"
proof (induction kvs arbitrary: out)
  case (Cons p kvs)
  have "put out (fst p) (snd p) \<noteq> []" by (induction out "fst p" "snd p" rule: put.induct) auto
  with Cons show ?case by (cases p) (simp add: put_all_def)
qed (simp add: put_all_def)

lemma labels_field:
  "field (property_order (put_all [] (xs @ ys))) k =
    (if k \<in> fst ` set ys then the (map_of (rev ys) k) else if k \<in> fst ` set xs then the (map_of (rev xs) k) else JUndef)"
proof -
  have m: "map_of (rev zs) k = None \<longleftrightarrow> k \<notin> fst ` set zs" for zs :: fields
    by (simp add: map_of_eq_None_iff)
  show ?thesis
    using put_all_distinct [of "[]"] m [of xs] m [of ys]
    by (auto simp: field_property_order put_all_field map_add_def split: option.splits)
qed

lemma merged_field:
  assumes "distinct (map fst (given d))" "distinct (map fst (given p))" "k \<noteq> ''labels''" "k \<noteq> ''__proto__''"
  shows "field (mergeAttribution d p) k = (if field (given p) k \<noteq> JUndef then field (given p) k else field (given d) k)"
proof -
  let ?m = "foldl take_field [] (given d @ given p)"
  have dm: "distinct (map fst ?m)" by (rule distinct_take_field) simp
  have "field ?m k = last_given (given p) k (last_given (given d) k JUndef)"
    using fold_take_field [OF assms(3,4), of "[]" "given d @ given p"] by (simp add: last_given_def)
  also have "last_given (given d) k JUndef = field (given d) k"
    using last_given_none [OF _ assms(1)] last_given_some [OF _ assms(1)] by metis
  also have "last_given (given p) k (field (given d) k) =
      (if field (given p) k \<noteq> JUndef then field (given p) k else field (given d) k)"
    using last_given_none [OF _ assms(2)] last_given_some [OF _ assms(2)] by metis
  finally show ?thesis
    using assms(3) dm by (simp add: mergeAttribution_def Let_def field_property_order distinct_put)
qed

text \<open>What the metadata of a call say of a field, and of a label.\<close>

definition call_field :: "jsval \<Rightarrow> string \<Rightarrow> jsval" where
  "call_field source k =
     (case jget source ''audr'' of
        JObj audr \<Rightarrow> if k \<in> set STRING_FIELDS \<and> is_text (field audr k) then field audr k else JUndef
      | _ \<Rightarrow> JUndef)"

definition call_labels :: "jsval \<Rightarrow> fields" where
  "call_labels source =
     (case jget source ''audr'' of
        JObj audr \<Rightarrow>
          (case field audr ''labels'' of
             JObj labels \<Rightarrow> if list_all (\<lambda>p. is_text (snd p)) labels then labels else []
           | _ \<Rightarrow> [])
      | _ \<Rightarrow> [])"

lemma field_picked: "field (map (\<lambda>k. (k, f k)) ks) k = (if k \<in> set ks then f k else JUndef)"
  by (induction ks) auto

lemma labels_no_field: "''labels'' \<notin> set STRING_FIELDS"
  by (simp add: STRING_FIELDS_def)

lemma read_field: "k \<noteq> ''labels'' \<Longrightarrow> field (given (readAttribution source)) k = call_field source k"
  by (cases "jget source ''audr''")
    (auto simp: readAttribution_def call_field_def given_def field_app field_picked image_image
      split: jsval.splits)

lemma read_labels: "labels_of (readAttribution source) = call_labels source"
  using labels_no_field
  by (cases "jget source ''audr''")
    (auto simp: readAttribution_def call_labels_def labels_of_def given_def field_app image_image
      split: jsval.splits)

lemma read_distinct: "distinct (map fst (given (readAttribution source)))"
proof -
  have "distinct STRING_FIELDS" by (simp add: STRING_FIELDS_def)
  with labels_no_field show ?thesis
    by (cases "jget source ''audr''")
      (auto simp: readAttribution_def given_def comp_def split: jsval.splits)
qed

lemma map_of_rev: "distinct (map fst kvs) \<Longrightarrow> map_of (rev kvs) = map_of kvs"
  by (rule map_of_distinct_mset) (simp_all add: rev_map [symmetric])

lemma the_map_of: "k \<in> fst ` set kvs \<Longrightarrow> the (map_of kvs k) = field kvs k"
  by (auto simp: field_def split: option.splits) (metis map_of_eq_None_iff rev_image_eqI fst_conv)

lemma merged_label:
  assumes "distinct (map fst (labels_of d))" "distinct (map fst (labels_of p))"
    and "list_all (\<lambda>q. is_text (snd q)) (labels_of p)"
  shows "jget (field (mergeAttribution d p) ''labels'') k =
    (if field (labels_of p) k \<noteq> JUndef then field (labels_of p) k else field (labels_of d) k)"
proof -
  let ?m = "foldl take_field [] (given d @ given p)"
  have dm: "distinct (map fst ?m)" by (rule distinct_take_field) simp
  have "''labels'' \<notin> fst ` set (foldl take_field out kvs)" if "''labels'' \<notin> fst ` set out" for out kvs
    using that
  proof (induction kvs arbitrary: out)
    case (Cons p kvs)
    have "''labels'' \<notin> fst ` set (take_field out p)"
      using Cons.prems by (simp add: take_field_def assign_def) metis
    from Cons.IH [OF this] show ?case by simp
  qed simp
  then have none: "field ?m ''labels'' = JUndef" by (simp add: field_notin)
  let ?L = "property_order (put_all [] (labels_of d @ labels_of p))"
  have l: "field ?L k = (if k \<in> fst ` set (labels_of p) then field (labels_of p) k
      else if k \<in> fst ` set (labels_of d) then field (labels_of d) k else JUndef)"
    by (simp add: labels_field map_of_rev assms(1,2) the_map_of)
  have p: "k \<in> fst ` set (labels_of p) \<longleftrightarrow> field (labels_of p) k \<noteq> JUndef"
  proof
    assume "k \<in> fst ` set (labels_of p)"
    then obtain v where "(k, v) \<in> set (labels_of p)" by auto
    with assms(2,3) show "field (labels_of p) k \<noteq> JUndef"
      by (auto simp: field_unique list_all_iff is_text_def)
  qed (metis field_notin)
  have "field (mergeAttribution d p) ''labels'' = (if ?L \<noteq> [] then JObj ?L else JUndef)"
    using dm none by (simp add: mergeAttribution_def Let_def field_property_order distinct_put)
  moreover have "field ?L k = (if field (labels_of p) k \<noteq> JUndef then field (labels_of p) k else field (labels_of d) k)"
    unfolding l p using field_notin [of k "labels_of d"] by (simp split: if_split)
  moreover have "?L = [] \<Longrightarrow> field ?L k = JUndef" by simp
  ultimately show ?thesis by (cases "?L = []") (simp_all add: jget_def)
qed

text \<open>
  Each attribution field of a record is the call's own, where the call gives it as a string,
  and the default's otherwise; the labels are merged by name in the same way; nothing else the
  call carries reaches the record; and the attribution is unresolved exactly when neither
  names an environment.
\<close>

theorem attribution_resolved:
  assumes "distinct (map fst (given defaults))" "distinct (map fst (labels_of defaults))" "wf_val source"
  shows "case resolveAttribution source defaults of
      None \<Rightarrow> call_field source ''environment'' = JUndef \<and> field (given defaults) ''environment'' = JUndef
    | Some a \<Rightarrow> field a ''environment'' \<noteq> JUndef \<and>
        (\<forall>k. k \<noteq> ''labels'' \<and> k \<noteq> ''__proto__'' \<longrightarrow>
          field a k = (if call_field source k \<noteq> JUndef then call_field source k else field (given defaults) k)) \<and>
        (\<forall>n. jget (field a ''labels'') n =
          (if field (call_labels source) n \<noteq> JUndef then field (call_labels source) n
           else field (labels_of defaults) n))"
proof -
  let ?a = "mergeAttribution defaults (readAttribution source)"
  have fields: "field ?a k = (if call_field source k \<noteq> JUndef then call_field source k else field (given defaults) k)"
    if "k \<noteq> ''labels''" "k \<noteq> ''__proto__''" for k
    using merged_field [OF assms(1) read_distinct that] read_field [OF that(1)] by simp
  have "wf_val (jget source ''audr'')" by (rule wf_jget [OF assms(3)])
  then have "distinct (map fst (call_labels source))" "list_all (\<lambda>q. is_text (snd q)) (call_labels source)"
    using wf_jget [of "jget source ''audr''" "''labels''"]
    by (auto simp: call_labels_def jget_simps split: jsval.splits)
  then have labels: "jget (field ?a ''labels'') n =
      (if field (call_labels source) n \<noteq> JUndef then field (call_labels source) n else field (labels_of defaults) n)" for n
    using merged_label [OF assms(2), of "readAttribution source" n] by (simp add: read_labels)
  have env: "field ?a ''environment'' = (if call_field source ''environment'' \<noteq> JUndef
      then call_field source ''environment'' else field (given defaults) ''environment'')"
    by (rule fields) simp_all
  show ?thesis
  proof (cases "field ?a ''environment'' = JUndef")
    case True
    with env show ?thesis by (simp add: resolveAttribution_def split: if_splits)
  next
    case False
    with fields labels show ?thesis by (simp add: resolveAttribution_def)
  qed
qed

theorem attribution_resolved_witness:
  "resolveAttribution (JObj [(''audr'', JObj [(''environment'', JNum (Fin 1)), (''user_id'', JStr ''u''),
       (''secret'', JStr ''x''), (''labels'', JObj [(''team'', JStr ''a'')])])])
     (Some [(''environment'', JStr ''test''), (''labels'', JObj [(''team'', JStr ''b''), (''tier'', JStr ''c'')])]) =
   Some [(''environment'', JStr ''test''), (''user_id'', JStr ''u''),
     (''labels'', JObj [(''team'', JStr ''a''), (''tier'', JStr ''c'')])] \<and> JStr ''test'' \<noteq> JUndef"
proof -
  let ?s = "JObj [(''audr'', JObj [(''environment'', JNum (Fin 1)), (''user_id'', JStr ''u''),
       (''secret'', JStr ''x''), (''labels'', JObj [(''team'', JStr ''a'')])])]"
  let ?d = "Some [(''environment'', JStr ''test''), (''labels'', JObj [(''team'', JStr ''b''), (''tier'', JStr ''c'')])]"
  have r: "resolveAttribution ?s ?d = Some [(''environment'', JStr ''test''), (''user_id'', JStr ''u''),
     (''labels'', JObj [(''team'', JStr ''a''), (''tier'', JStr ''c'')])]" by code_simp
  have "distinct (map fst (given ?d))" "distinct (map fst (labels_of ?d))" "wf_val ?s"
    by (simp_all add: given_def labels_of_def)
  from attribution_resolved [OF this] r show ?thesis by auto
qed

section \<open>From the scopes a call starts in\<close>

text \<open>
  The \<open>AsyncLocalStorage\<close> hands every call the scope it was started in, an argument here. A
  scope's attribution has the six fields, \<open>undefined\<close> where nothing was set; run identifiers are
  strings.
\<close>

record scope =
  sc_attribution :: jsval
  sc_run :: "jsval option"

definition empty_scope :: scope where
  "empty_scope = \<lparr>sc_attribution = JObj [], sc_run = None\<rparr>"

definition mergeScoped :: "jsval \<Rightarrow> jsval \<Rightarrow> jsval" where
  "mergeScoped base override =
     (let labels = property_order (put_all [] (entries (jget base ''labels'') @ entries (jget override ''labels'')))
      in JObj (map (\<lambda>k. (k, coalesce (jget override k) (jget base k)))
           [''environment'', ''account_id'', ''subscription_id'', ''user_id'', ''feature_id''] @
         [(''labels'', if labels \<noteq> [] then JObj labels else JUndef)]))"

text \<open>\<open>nestRun\<close>; a run that is \<open>null\<close> makes it throw, the result \<open>None\<close>.\<close>

definition nestRun :: "jsval option \<Rightarrow> jsval \<Rightarrow> jsval option option" where
  "nestRun outer run =
     (if run = JUndef then Some outer
      else if run = JNull then None
      else let same = (case outer of
               Some r \<Rightarrow> if jget r ''run_id'' = jget run ''run_id'' then r else JUndef
             | None \<Rightarrow> JUndef)
        in Some (Some (JObj [(''run_id'', jget run ''run_id''),
             (''parent_span_id'', coalesce (jget run ''parent_span_id'') (jget same ''parent_span_id'')),
             (''name'', coalesce (jget run ''name'') (jget same ''name''))])))"

definition nest :: "scope \<Rightarrow> jsval \<Rightarrow> scope" where
  "nest outer context' =
     (if nullish context' then outer
      else case nestRun (sc_run outer) (jget context' ''run'') of
        None \<Rightarrow> outer
      | Some r \<Rightarrow> \<lparr>sc_attribution = mergeScoped (sc_attribution outer) (jget context' ''attribution''), sc_run = r\<rparr>)"

lemma jget_mergeScoped:
  "k \<in> {''environment'', ''account_id'', ''subscription_id'', ''user_id'', ''feature_id''} \<Longrightarrow>
    jget (mergeScoped base override) k = coalesce (jget override k) (jget base k)"
  by (auto simp: mergeScoped_def jget_simps Let_def)

text \<open>Nested scopes act like one scope with the contexts merged, field by field.\<close>

lemma mergeScoped_assoc:
  "k \<in> {''environment'', ''account_id'', ''subscription_id'', ''user_id'', ''feature_id''} \<Longrightarrow>
    jget (mergeScoped (mergeScoped a b) c) k = jget (mergeScoped a (mergeScoped b c)) k"
  by (simp add: jget_mergeScoped coalesce_def)

end
