(* ===== verification/Usage.thy ===== *)
theory Usage
  imports Attribution
begin

text \<open>
  \<open>mapping.ts\<close> of the four adapters under \<open>src/adapters\<close>: token counters, providers and cost of one
  call. A number an SDK reports is finite. An absent counter is \<open>None\<close>.
\<close>

section \<open>Counters\<close>

text \<open>\<open>counter\<close>: a finite integer that is not negative.\<close>

definition counter :: "jsval \<Rightarrow> rat option" where
  "counter v =
     (case v of JNum (Fin x) \<Rightarrow> if is_integer (Fin x) \<and> 0 \<le> x then Some x else None | _ \<Rightarrow> None)"

text \<open>\<open>durationMs\<close>; \<open>Math.round\<close> rounds a half up.\<close>

definition durationMs :: "jsval \<Rightarrow> rat option" where
  "durationMs v =
     (case v of JNum (Fin x) \<Rightarrow> if 0 \<le> x then Some (of_int \<lfloor>x + 1 / 2\<rfloor>) else None | _ \<Rightarrow> None)"

definition or_zero :: "rat option \<Rightarrow> rat" where
  "or_zero c = (case c of None \<Rightarrow> 0 | Some x \<Rightarrow> x)"

text \<open>\<open>subtract\<close> and \<open>exclusive\<close>.\<close>

definition exclusive :: "rat option \<Rightarrow> rat \<Rightarrow> rat option" where
  "exclusive reported_total part = map_option (\<lambda>t. max (t - part) 0) reported_total"

record llm_usage =
  input_tokens :: "rat option"
  output_tokens :: "rat option"
  cache_read_tokens :: "rat option"
  cache_write_tokens :: "rat option"
  reasoning_tokens :: "rat option"

definition entry :: "string \<Rightarrow> rat option \<Rightarrow> fields" where
  "entry k c = (case c of None \<Rightarrow> [] | Some x \<Rightarrow> [(k, JNum (Fin x))])"

text \<open>The usage block: a counter without value is left out, and one request is counted.\<close>

definition usage_json :: "llm_usage \<Rightarrow> jsval" where
  "usage_json u = JObj
     (entry ''input_tokens'' (input_tokens u) @ entry ''output_tokens'' (output_tokens u) @
      entry ''cache_read_tokens'' (cache_read_tokens u) @ entry ''cache_write_tokens'' (cache_write_tokens u) @
      entry ''reasoning_tokens'' (reasoning_tokens u) @ [(''requests'', JNum (Fin 1))])"

subsection \<open>Vercel AI and Mastra\<close>

text \<open>\<open>toLlmUsage\<close> for the AI SDK; usage without its details makes it throw, the result \<open>None\<close>.\<close>

definition vercel_usage :: "jsval \<Rightarrow> llm_usage option" where
  "vercel_usage usage =
     (let ins = jget usage ''inputTokenDetails''; outs = jget usage ''outputTokenDetails''
      in if nullish ins \<or> nullish outs then None
         else let cacheRead = counter (jget ins ''cacheReadTokens'');
                  cacheWrite = counter (jget ins ''cacheWriteTokens'');
                  reasoning = counter (jget outs ''reasoningTokens'')
           in Some \<lparr>input_tokens = opt_or (counter (jget ins ''noCacheTokens''))
                 (exclusive (counter (jget usage ''inputTokens'')) (or_zero cacheRead + or_zero cacheWrite)),
               output_tokens = opt_or (counter (jget outs ''textTokens''))
                 (exclusive (counter (jget usage ''outputTokens'')) (or_zero reasoning)),
               cache_read_tokens = cacheRead, cache_write_tokens = cacheWrite, reasoning_tokens = reasoning\<rparr>)"

definition mastra_usage :: "jsval \<Rightarrow> llm_usage" where
  "mastra_usage usage =
     (let cacheRead = counter (jget (jget usage ''inputDetails'') ''cacheRead'');
          cacheWrite = counter (jget (jget usage ''inputDetails'') ''cacheWrite'');
          reasoning = counter (jget (jget usage ''outputDetails'') ''reasoning'')
      in \<lparr>input_tokens = exclusive (counter (jget usage ''inputTokens'')) (or_zero cacheRead + or_zero cacheWrite),
          output_tokens = exclusive (counter (jget usage ''outputTokens'')) (or_zero reasoning),
          cache_read_tokens = cacheRead, cache_write_tokens = cacheWrite, reasoning_tokens = reasoning\<rparr>)"

subsection \<open>Merge Gateway\<close>

text \<open>A counter Gateway reports is a number, \<open>null\<close> or absent.\<close>

datatype gateway_count = Absent | Uncounted | Counted rat

definition reported_of :: "jsval \<Rightarrow> gateway_count" where
  "reported_of v = (case v of JNum (Fin x) \<Rightarrow> Counted x | JNull \<Rightarrow> Uncounted | _ \<Rightarrow> Absent)"

definition amount_of :: "gateway_count \<Rightarrow> rat option" where
  "amount_of r = (case r of Counted x \<Rightarrow> Some x | _ \<Rightarrow> None)"

definition responseUsage :: "jsval \<Rightarrow> llm_usage" where
  "responseUsage usage =
     (let cacheRead = reported_of (jget usage ''cache_read_input_tokens'');
          cacheWrite = reported_of (jget usage ''cache_creation_input_tokens'');
          reasoning = reported_of (jget usage ''reasoning_output_tokens'')
      in \<lparr>input_tokens =
            (if cacheRead = Uncounted then None
             else exclusive (amount_of (reported_of (jget usage ''input_tokens'')))
               (or_zero (amount_of cacheRead) + or_zero (amount_of cacheWrite))),
          output_tokens = exclusive (amount_of (reported_of (jget usage ''output_tokens'')))
            (or_zero (amount_of reasoning)),
          cache_read_tokens = amount_of cacheRead, cache_write_tokens = amount_of cacheWrite,
          reasoning_tokens = amount_of reasoning\<rparr>)"

definition no_usage :: llm_usage where
  "no_usage = \<lparr>input_tokens = None, output_tokens = None, cache_read_tokens = None,
     cache_write_tokens = None, reasoning_tokens = None\<rparr>"

definition embeddingUsage :: "jsval \<Rightarrow> llm_usage" where
  "embeddingUsage usage = no_usage\<lparr>input_tokens := amount_of (reported_of (jget usage ''prompt_tokens''))\<rparr>"

definition usd :: "rat \<Rightarrow> jsval" where
  "usd amount = JObj [(''total_cost'', JNum (Fin amount)), (''currency'', JStr ''USD'')]"

definition toCost :: "jsval \<Rightarrow> jsval option" where
  "toCost usage = map_option usd (amount_of (reported_of (jget usage ''cost'')))"

definition fitsRunId :: "string \<Rightarrow> bool" where
  "fitsRunId i \<longleftrightarrow> 8 \<le> length i \<and> length i \<le> 64"

subsection \<open>OpenRouter\<close>

definition num :: "jsval \<Rightarrow> rat option" where
  "num v = (case v of JNum (Fin x) \<Rightarrow> Some x | _ \<Rightarrow> None)"

definition positive :: "jsval \<Rightarrow> bool" where
  "positive v \<longleftrightarrow> (case v of JNum (Fin x) \<Rightarrow> 0 < x | _ \<Rightarrow> False)"

definition some_text :: "jsval \<Rightarrow> string option" where
  "some_text v = (case v of JStr s \<Rightarrow> if s = [] then None else Some s | _ \<Rightarrow> None)"

text \<open>\<open>isRecord\<close>: an object, an array included.\<close>

definition isRecord :: "jsval \<Rightarrow> bool" where
  "isRecord v \<longleftrightarrow> is_object v \<or> (case v of JArr _ \<Rightarrow> True | _ \<Rightarrow> False)"

definition flag :: "jsval \<Rightarrow> bool option" where
  "flag v = (case v of JBool b \<Rightarrow> Some b | _ \<Rightarrow> None)"

record router =
  r_provider :: "string option"
  r_byok :: "bool option"

definition readRouter :: "jsval \<Rightarrow> router option" where
  "readRouter metadata =
     (if \<not> isRecord metadata then None
      else let available = (case jget (jget metadata ''endpoints'') ''available'' of JArr xs \<Rightarrow> xs | _ \<Rightarrow> []);
               selected = find (\<lambda>e. jget e ''selected'' = JBool True \<and> some_text (jget e ''provider'') \<noteq> None) available
        in Some \<lparr>r_provider = (case selected of None \<Rightarrow> None | Some e \<Rightarrow> some_text (jget e ''provider'')),
             r_byok = flag (jget metadata ''isByok'')\<rparr>)"

datatype kind = Text_kind | Image_kind | Audio_kind

fun kind_name :: "kind \<Rightarrow> string" where
  "kind_name Text_kind = ''text''"
| "kind_name Image_kind = ''image''"
| "kind_name Audio_kind = ''audio''"

definition KINDS :: "kind list" where
  "KINDS = [Text_kind, Image_kind, Audio_kind]"

definition declaredKinds :: "jsval \<Rightarrow> kind list" where
  "declaredKinds modalities =
     (let asked = (case modalities of JArr xs \<Rightarrow> xs | _ \<Rightarrow> [])
      in filter (\<lambda>k. JStr (kind_name k) \<in> set asked) KINDS)"

definition modalityOf :: "kind list \<Rightarrow> bool \<Rightarrow> string" where
  "modalityOf kinds others =
     (case remdups kinds of
        [] \<Rightarrow> if others then ''multimodal'' else ''text''
      | [k] \<Rightarrow> if others then ''multimodal'' else kind_name k
      | _ \<Rightarrow> ''multimodal'')"

record observation =
  ob_id :: "string option"
  ob_model :: "string option"
  ob_provider :: "string option"
  ob_byok :: "bool option"
  charge :: "rat option"
  upstream :: "rat option"
  ob_usage :: llm_usage
  ob_modality :: string
  ob_error :: "string option"

definition exclusive_usage :: "rat option \<Rightarrow> rat option \<Rightarrow> rat option \<Rightarrow> rat option \<Rightarrow> rat option \<Rightarrow> llm_usage" where
  "exclusive_usage input output cacheRead cacheWrite reasoning =
     \<lparr>input_tokens = exclusive input (or_zero cacheRead + or_zero cacheWrite),
      output_tokens = exclusive output (or_zero reasoning),
      cache_read_tokens = cacheRead, cache_write_tokens = cacheWrite, reasoning_tokens = reasoning\<rparr>"

definition byok_of :: "jsval \<Rightarrow> router option \<Rightarrow> bool option" where
  "byok_of usage router = opt_or (flag (jget usage ''isByok'')) (case router of None \<Rightarrow> None | Some r \<Rightarrow> r_byok r)"

definition provider_of :: "router option \<Rightarrow> string option" where
  "provider_of router = (case router of None \<Rightarrow> None | Some r \<Rightarrow> r_provider r)"

definition upstream_of :: "jsval \<Rightarrow> rat option" where
  "upstream_of usage = num (jget (jget usage ''costDetails'') ''upstreamInferenceCost'')"

definition chatObservation :: "jsval \<Rightarrow> kind list \<Rightarrow> router option \<Rightarrow> string option \<Rightarrow> observation option" where
  "chatObservation result asked fallback errorCode =
     (let usage = jget result ''usage''; prompt = jget usage ''promptTokensDetails'';
          completion = jget usage ''completionTokensDetails'';
          kinds = (if asked \<noteq> [] then asked else [Text_kind]) @
            (if positive (jget prompt ''audioTokens'') \<or> positive (jget completion ''audioTokens'')
             then [Audio_kind] else []);
          router = opt_or (readRouter (jget result ''openrouterMetadata'')) fallback
      in if \<not> isRecord usage then None
         else Some \<lparr>ob_id = some_text (jget result ''id''), ob_model = some_text (jget result ''model''),
             ob_provider = provider_of router, ob_byok = byok_of usage router,
             charge = num (jget usage ''cost''), upstream = upstream_of usage,
             ob_usage = exclusive_usage (num (jget usage ''promptTokens'')) (num (jget usage ''completionTokens''))
               (num (jget prompt ''cachedTokens'')) (num (jget prompt ''cacheWriteTokens''))
               (num (jget completion ''reasoningTokens'')),
             ob_modality = modalityOf kinds (positive (jget prompt ''videoTokens'')), ob_error = errorCode\<rparr>)"

definition responsesObservation :: "jsval \<Rightarrow> kind list \<Rightarrow> string option \<Rightarrow> observation option" where
  "responsesObservation result asked errorCode =
     (let usage = jget result ''usage''; ins = jget usage ''inputTokensDetails'';
          outs = jget usage ''outputTokensDetails'';
          router = readRouter (jget result ''openrouterMetadata'')
      in if \<not> isRecord usage then None
         else Some \<lparr>ob_id = some_text (jget result ''id''), ob_model = some_text (jget result ''model''),
             ob_provider = provider_of router, ob_byok = byok_of usage router,
             charge = num (jget usage ''cost''), upstream = upstream_of usage,
             ob_usage = exclusive_usage (num (jget usage ''inputTokens'')) (num (jget usage ''outputTokens''))
               (num (jget ins ''cachedTokens'')) (num (jget ins ''cacheWriteTokens''))
               (num (jget outs ''reasoningTokens'')),
             ob_modality = modalityOf (if asked \<noteq> [] then asked else [Text_kind]) False,
             ob_error = errorCode\<rparr>)"

definition embeddingsObservation :: "jsval \<Rightarrow> observation option" where
  "embeddingsObservation result =
     (let usage = jget result ''usage''; details = jget usage ''promptTokensDetails'';
          kinds = (if positive (jget details ''textTokens'') then [Text_kind] else []) @
            (if positive (jget details ''imageTokens'') then [Image_kind] else []) @
            (if positive (jget details ''audioTokens'') then [Audio_kind] else [])
      in if \<not> isRecord usage then None
         else Some \<lparr>ob_id = some_text (jget result ''id''), ob_model = some_text (jget result ''model''),
             ob_provider = None, ob_byok = flag (jget usage ''isByok''),
             charge = num (jget usage ''cost''), upstream = upstream_of usage,
             ob_usage = no_usage\<lparr>input_tokens := num (jget usage ''promptTokens'')\<rparr>,
             ob_modality = modalityOf (if kinds \<noteq> [] then kinds else [Text_kind])
               (positive (jget details ''videoTokens'') \<or> positive (jget details ''fileTokens'')),
             ob_error = None\<rparr>)"

text \<open>The facts a lookup supplies.\<close>

record facts =
  providerName :: "string option"
  cacheHit :: bool
  f_byok :: "bool option"
  f_upstream :: "rat option"

definition readFacts :: "jsval \<Rightarrow> facts" where
  "readFacts response =
     (let d = jget response ''data''
      in \<lparr>providerName = some_text (jget d ''providerName''),
          cacheHit = (some_text (jget d ''responseCacheSourceId'') \<noteq> None),
          f_byok = flag (jget d ''isByok''), f_upstream = num (jget d ''upstreamInferenceCost'')\<rparr>)"

definition needsLookup :: "observation \<Rightarrow> bool" where
  "needsLookup ob \<longleftrightarrow>
     (if ob_provider ob = None \<or> ob_byok ob = None then True
      else ob_byok ob = Some True \<and> charge ob \<noteq> None \<and> upstream ob = None)"

definition OPENROUTER_PROVIDER :: string where
  "OPENROUTER_PROVIDER = ''openrouter''"

definition servedProvider :: "observation \<Rightarrow> facts option \<Rightarrow> string option" where
  "servedProvider ob known =
     (case known of
        Some f \<Rightarrow> if cacheHit f then Some OPENROUTER_PROVIDER else opt_or (ob_provider ob) (providerName f)
      | None \<Rightarrow> ob_provider ob)"

text \<open>\<open>resolveCost\<close>: the cost, and whether it had to be withheld.\<close>

definition resolveCost :: "rat option \<Rightarrow> bool option \<Rightarrow> rat option \<Rightarrow> jsval option \<times> bool" where
  "resolveCost fee byok up =
     (case byok of
        None \<Rightarrow> (None, True)
      | Some False \<Rightarrow> (map_option usd fee, False)
      | Some True \<Rightarrow>
          (case (fee, up) of
             (Some a, Some b) \<Rightarrow> (Some (usd (a + b)), False)
           | _ \<Rightarrow> (None, True)))"

definition isTerminalType :: "jsval \<Rightarrow> bool" where
  "isTerminalType t \<longleftrightarrow>
     t \<in> {JStr ''response.completed'', JStr ''response.failed'', JStr ''response.incomplete''}"

definition RESPONSE_FAILED_CODE :: string where
  "RESPONSE_FAILED_CODE = ''OPENROUTER_RESPONSE_FAILED''"

definition RESPONSE_INCOMPLETE_CODE :: string where
  "RESPONSE_INCOMPLETE_CODE = ''OPENROUTER_RESPONSE_INCOMPLETE''"

definition terminalErrorCode :: "jsval \<Rightarrow> string option" where
  "terminalErrorCode t =
     (if t = JStr ''response.failed'' then Some RESPONSE_FAILED_CODE
      else if t = JStr ''response.incomplete'' then Some RESPONSE_INCOMPLETE_CODE else None)"

definition statusErrorCode :: "jsval \<Rightarrow> string option" where
  "statusErrorCode status =
     (if status = JStr ''failed'' then Some RESPONSE_FAILED_CODE
      else if status = JStr ''incomplete'' then Some RESPONSE_INCOMPLETE_CODE else None)"

section \<open>Providers\<close>

text \<open>\<open>s.replace(/[^...]+/g, '-')\<close>: every run of characters outside the class becomes one hyphen.\<close>

function squash :: "(char \<Rightarrow> bool) \<Rightarrow> string \<Rightarrow> string" where
  "squash keep [] = []"
| "squash keep (c # cs) =
     (if keep c then c # squash keep cs else CHR ''-'' # squash keep (dropWhile (\<lambda>c. \<not> keep c) cs))"
  by pat_completeness auto
termination
  by (relation "measure (\<lambda>(_, s). length s)") (auto simp: less_Suc_eq_le length_dropWhile_le)

text \<open>\<open>s.replace(/^-+|-+$/g, '')\<close>.\<close>

definition strip_hyphens :: "string \<Rightarrow> string" where
  "strip_hyphens s =
     rev (dropWhile (\<lambda>c. c = CHR ''-'') (rev (dropWhile (\<lambda>c. c = CHR ''-'') s)))"

definition slug_of :: "(char \<times> char) list \<Rightarrow> string \<Rightarrow> string option" where
  "slug_of kept s =
     (let slug = strip_hyphens (squash (in_cls kept) (lower s)) in if slug = [] then None else Some slug)"

definition PROVIDER_ALIASES :: "(string list \<times> string) list" where
  "PROVIDER_ALIASES =
     [([''gateway''], ''vercel-ai-gateway''),
      ([''azure''], ''azure-openai''),
      ([''amazon-bedrock'', ''bedrock'', ''bedrock-mantle''], ''aws-bedrock''),
      ([''google.vertex'', ''googleVertex'', ''vertex''], ''google-vertex'')]"

definition alias_of :: "string \<Rightarrow> string option" where
  "alias_of p =
     map_option snd (find (\<lambda>(ids, _). list_ex (\<lambda>i. p = i \<or> starts_with (i @ ''.'') p) ids) PROVIDER_ALIASES)"

text \<open>\<open>providerSlug\<close> of the Vercel AI and Mastra adapters, and of the OpenRouter adapter.\<close>

definition sdk_slug :: "string \<Rightarrow> string option" where
  "sdk_slug p =
     opt_or (alias_of p)
       (slug_of [(CHR ''a'', CHR ''z''), (CHR ''0'', CHR ''9''), (CHR ''-'', CHR ''-'')]
         (takeWhile (\<lambda>c. c \<noteq> CHR ''.'') p))"

definition vendor_slug :: "string \<Rightarrow> string option" where
  "vendor_slug = slug_of [(CHR ''a'', CHR ''z''), (CHR ''0'', CHR ''9'')]"

definition SLUG :: rx where
  "SLUG = Plus (Cls [(CHR ''a'', CHR ''z''), (CHR ''0'', CHR ''9''), (CHR ''-'', CHR ''-'')])"

definition isProviderSlug :: "jsval \<Rightarrow> bool" where
  "isProviderSlug v \<longleftrightarrow> (case v of JStr s \<Rightarrow> matches SLUG s | _ \<Rightarrow> False)"

section \<open>What a usage block satisfies\<close>

definition counter_names :: "string list" where
  "counter_names = [''input_tokens'', ''output_tokens'', ''cache_read_tokens'', ''cache_write_tokens'',
     ''reasoning_tokens'', ''requests'']"

lemma counter_names_plain: "k \<in> set counter_names \<Longrightarrow> \<not> matches pattern9 k"
proof -
  have "list_all (\<lambda>k. \<not> matches pattern9 k) counter_names" by code_simp
  then show "k \<in> set counter_names \<Longrightarrow> \<not> matches pattern9 k" by (simp add: list_all_iff)
qed

lemma counters_valid:
  assumes "kvs \<noteq> []" "\<forall>(k, v) \<in> set kvs. k \<in> set counter_names \<and> sat Counter v"
  shows "sat usage_llm_schema (JObj kvs)"
proof -
  have get: "sat Counter (field kvs k)" "k \<in> set counter_names" if "has (JObj kvs) k" for k
    using that assms(2) field_in_set [of kvs k] by (auto simp: has_def jget_simps)
  have seconds: "\<not> has (JObj kvs) ''audio_input_seconds''" "\<not> has (JObj kvs) ''audio_output_seconds''"
    using get(2) by (auto simp: counter_names_def)
  have keys: "k \<in> set counter_names" if "k \<in> set (keys (JObj kvs))" for k
    using that assms(2) by (auto simp: keys_simps)
  have closed: "\<not> list_ex (undeclared ks) (keys (JObj kvs))"
    if "set counter_names \<subseteq> set (declared ks)" for ks
    using that keys by (auto simp: list_ex_iff undeclared_def)
  show ?thesis
    using assms(1) get seconds counter_names_plain [OF keys] closed
    by (auto simp: usage_llm_schema_def list_all_iff jget_simps keys_simps counter_names_def Suc_le_eq)
qed

lemma usage_json_valid:
  assumes "\<And>x. Some x \<in> {input_tokens u, output_tokens u, cache_read_tokens u, cache_write_tokens u, reasoning_tokens u} \<Longrightarrow>
      is_integer (Fin x) \<and> 0 \<le> x"
  shows "sat usage_llm_schema (usage_json u)"
proof -
  have e: "(k', v) \<in> set (entry k c) \<longleftrightarrow> k' = k \<and> (\<exists>x. c = Some x \<and> v = JNum (Fin x))" for k c k' v
    by (cases c) (auto simp: entry_def)
  have c: "sat Counter (JNum (Fin x))" if "is_integer (Fin x) \<and> 0 \<le> x" for x
    using that by (simp add: Counter_def)
  have "sat Counter (JNum (Fin 1))" by (simp add: Counter_def)
  then show ?thesis
    unfolding usage_json_def by (intro counters_valid) (auto simp: e counter_names_def simp del: is_integer.simps intro!: c assms)
qed

text \<open>Whole counts stay whole and not negative.\<close>

definition count_ok :: "rat option \<Rightarrow> bool" where
  "count_ok c \<longleftrightarrow> (\<forall>x. c = Some x \<longrightarrow> is_integer (Fin x) \<and> 0 \<le> x)"

lemma is_integer_Ints: "is_integer (Fin x) \<longleftrightarrow> x \<in> \<int>"
  by (metis Ints_cases Ints_of_int floor_of_int is_integer.simps(1))

lemma count_ok_simps [simp]: "count_ok None" "count_ok (counter v)"
  by (auto simp: count_ok_def counter_def split: jsval.splits jsnum.splits if_splits)

lemma count_ok_or_zero: "count_ok c \<Longrightarrow> or_zero c \<in> \<int> \<and> 0 \<le> or_zero c"
  by (cases c) (auto simp: count_ok_def or_zero_def is_integer_Ints simp del: is_integer.simps)

lemma count_ok_exclusive: "count_ok c \<Longrightarrow> part \<in> \<int> \<Longrightarrow> count_ok (exclusive c part)"
  by (auto simp: count_ok_def exclusive_def is_integer_Ints max_def simp del: is_integer.simps)

lemma count_ok_opt_or: "count_ok a \<Longrightarrow> count_ok b \<Longrightarrow> count_ok (opt_or a b)"
  by (cases a) simp_all

lemmas counts_ok = count_ok_opt_or count_ok_exclusive Ints_add count_ok_or_zero [THEN conjunct1]

lemma usage_counts_valid:
  assumes "count_ok (input_tokens u)" "count_ok (output_tokens u)" "count_ok (cache_read_tokens u)"
    "count_ok (cache_write_tokens u)" "count_ok (reasoning_tokens u)"
  shows "sat usage_llm_schema (usage_json u)"
  by (rule usage_json_valid) (use assms in \<open>auto simp: count_ok_def simp del: is_integer.simps\<close>)

lemma mastra_usage_valid: "sat usage_llm_schema (usage_json (mastra_usage v))"
  by (rule usage_counts_valid) (simp_all add: mastra_usage_def Let_def counts_ok)

lemma vercel_usage_valid: "vercel_usage v = Some u \<Longrightarrow> sat usage_llm_schema (usage_json u)"
  by (rule usage_counts_valid) (auto simp: vercel_usage_def Let_def counts_ok split: if_splits)

section \<open>What a slug is\<close>

definition hyphen_or :: "(char \<times> char) list \<Rightarrow> char \<Rightarrow> bool" where
  "hyphen_or kept c \<longleftrightarrow> in_cls kept c \<or> c = CHR ''-''"

lemma squash_class: "list_all (\<lambda>c. keep c \<or> c = CHR ''-'') (squash keep s)"
  by (induction keep s rule: squash.induct) auto

lemma strip_hyphens_subset: "set (strip_hyphens s) \<subseteq> set s"
  by (auto simp: strip_hyphens_def dest!: set_dropWhileD)

lemma slug_of_class:
  assumes "slug_of kept s = Some slug"
  shows "slug \<noteq> []" "\<forall>c \<in> set slug. in_cls kept c \<or> c = CHR ''-''"
  using assms strip_hyphens_subset [of "squash (in_cls kept) (lower s)"] squash_class [of "in_cls kept" "lower s"]
  by (auto simp: slug_of_def Let_def list_all_iff split: if_splits)

lemma slug_valid: "s \<noteq> [] \<Longrightarrow> \<forall>c \<in> set s. in_cls [(CHR ''a'', CHR ''z''), (CHR ''0'', CHR ''9''), (CHR ''-'', CHR ''-'')] c \<Longrightarrow>
    matches SLUG s"
  by (simp add: SLUG_def matches_Plus_Cls list_all_iff)

lemma find_member: "find P xs = Some x \<Longrightarrow> x \<in> set xs"
  by (induction xs) (auto split: if_splits)

lemma sdk_slug_valid:
  assumes "sdk_slug p = Some s"
  shows "matches SLUG s"
proof (cases "alias_of p")
  case (Some a)
  have all: "list_all (\<lambda>q. matches SLUG (snd q)) PROVIDER_ALIASES" by code_simp
  from Some obtain q where "find (\<lambda>(ids, _). list_ex (\<lambda>i. p = i \<or> starts_with (i @ ''.'') p) ids) PROVIDER_ALIASES = Some q"
      "a = snd q" by (auto simp: alias_of_def)
  then have "q \<in> set PROVIDER_ALIASES" "a = snd q" by (blast intro: find_member)+
  with all Some assms show ?thesis by (auto simp: sdk_slug_def list_all_iff)
next
  case None
  with assms have s: "slug_of [(CHR ''a'', CHR ''z''), (CHR ''0'', CHR ''9''), (CHR ''-'', CHR ''-'')]
      (takeWhile (\<lambda>c. c \<noteq> CHR ''.'') p) = Some s" by (simp add: sdk_slug_def)
  show ?thesis by (rule slug_valid) (use slug_of_class [OF s] in \<open>auto simp: in_cls_def\<close>)
qed

lemma vendor_slug_valid:
  assumes "vendor_slug p = Some s"
  shows "matches SLUG s"
  by (rule slug_valid) (use slug_of_class [OF assms [unfolded vendor_slug_def]] in \<open>auto simp: in_cls_def\<close>)

text \<open>A slug is what the schema asks of \<open>resource.provider\<close>.\<close>

lemma SLUG_pattern7: "SLUG = pattern7"
  by (simp add: SLUG_def pattern7_def lower_alpha_def numerals_def one_def)

end
