(* ===== verification/Diagnostics.thy ===== *)
theory Diagnostics
  imports Usage
begin

text \<open>
  \<open>diagnostics.ts\<close> of the four adapters under \<open>src/adapters\<close>: what an adapter tells the host's
  logger. The details of a diagnostic are the fields that are not \<open>undefined\<close>. A logger that
  throws is ignored, so a diagnostic that is written is a line in a list.
\<close>

section \<open>Lines\<close>

definition detail_parts :: "string list \<Rightarrow> (string \<times> string) list \<Rightarrow> string list" where
  "detail_parts order details =
     concat (map (\<lambda>k. case map_of details k of None \<Rightarrow> [] | Some v \<Rightarrow> [k @ ''='' @ v]) order)"

text \<open>\<open>formatDiagnostic\<close> of the Vercel AI and the Mastra adapter leaves empty parentheses out.\<close>

definition VERCEL_FIELD_ORDER :: "string list" where
  "VERCEL_FIELD_ORDER = [''hook'', ''outcome'', ''operation'', ''issues'', ''error'']"

definition vercel_diagnostic :: "string \<Rightarrow> (string \<times> string) list \<Rightarrow> string" where
  "vercel_diagnostic what details =
     (let parts = detail_parts VERCEL_FIELD_ORDER details;
          start = ''@openaudr/audr-adapter-vercel-ai: '' @ what
      in if parts = [] then start else start @ '' ('' @ join '', '' parts @ '')'')"

definition MASTRA_FIELD_ORDER :: "string list" where
  "MASTRA_FIELD_ORDER = [''setting'', ''span'', ''outcome'', ''issues'', ''error'']"

definition mastra_diagnostic :: "string \<Rightarrow> (string \<times> string) list \<Rightarrow> string" where
  "mastra_diagnostic what details =
     (let parts = detail_parts MASTRA_FIELD_ORDER details;
          start = ''@openaudr/audr-adapter-mastra: '' @ what
      in if parts = [] then start else start @ '' ('' @ join '', '' parts @ '')'')"

definition GATEWAY_FIELD_ORDER :: "string list" where
  "GATEWAY_FIELD_ORDER = [''outcome'', ''operation'', ''reason'', ''issues'', ''error'']"

definition gateway_diagnostic :: "string \<Rightarrow> (string \<times> string) list \<Rightarrow> string" where
  "gateway_diagnostic what details =
     ''@openaudr/audr-adapter-merge-gateway: '' @ what @ '' ('' @ join '', '' (detail_parts GATEWAY_FIELD_ORDER details) @ '')''"

definition OPENROUTER_FIELD_ORDER :: "string list" where
  "OPENROUTER_FIELD_ORDER = [''outcome'', ''operation'', ''reason'', ''issues'', ''error'']"

definition openrouter_diagnostic :: "string \<Rightarrow> (string \<times> string) list \<Rightarrow> string" where
  "openrouter_diagnostic what details =
     ''@openaudr/audr-adapter-openrouter: '' @ what @ '' ('' @ join '', '' (detail_parts OPENROUTER_FIELD_ORDER details) @ '')''"

text \<open>\<open>formatIssues\<close>; \<open>None\<close> is \<open>undefined\<close>.\<close>

definition formatSubmitIssues :: "validation_issue list \<Rightarrow> string option" where
  "formatSubmitIssues found =
     (if found = [] then None
      else Some (join '','' (map (\<lambda>i. code_name (issue_code i) @ ''@'' @ issue_path i) found)))"

definition opt_detail :: "string \<Rightarrow> string option \<Rightarrow> (string \<times> string) list" where
  "opt_detail k v = (case v of None \<Rightarrow> [] | Some s \<Rightarrow> [(k, s)])"

definition opt_text :: "string \<Rightarrow> string option \<Rightarrow> fields" where
  "opt_text k v = (case v of None \<Rightarrow> [] | Some s \<Rightarrow> [(k, JStr s)])"

section \<open>Errors\<close>

text \<open>
  A thrown value is an object, given by the built-in error classes it is an instance of, a
  primitive, given by its \<open>typeof\<close>, or an object whose prototype cannot be asked for.
\<close>

datatype host_error = Instance "string list" | Primitive string | Hostile

definition ERROR_NAMES :: "string list" where
  "ERROR_NAMES = [''AggregateError'', ''EvalError'', ''RangeError'', ''ReferenceError'', ''SyntaxError'',
     ''TypeError'', ''URIError'']"

definition ERROR_TYPES :: "string list" where
  "ERROR_TYPES = [''TypeError'', ''RangeError'', ''SyntaxError'', ''ReferenceError'']"

definition class_of :: "string list \<Rightarrow> host_error \<Rightarrow> string" where
  "class_of known t =
     (case t of
        Hostile \<Rightarrow> ''unknown''
      | Primitive name \<Rightarrow> name
      | Instance classes \<Rightarrow>
          (case find (\<lambda>c. c \<in> set classes) known of
             Some c \<Rightarrow> c
           | None \<Rightarrow> if ''Error'' \<in> set classes then ''Error'' else ''object''))"

definition adapterErrorName :: "host_error \<Rightarrow> string" where
  "adapterErrorName = class_of ERROR_NAMES"

definition errorKind :: "host_error \<Rightarrow> string" where
  "errorKind = class_of ERROR_TYPES"

text \<open>What \<open>client.record()\<close> does: it throws, or says whether the record is queued.\<close>

datatype answered = RecordThrew host_error | RecordAnswered bool string "validation_issue list"

definition TYPE_ERROR :: host_error where
  "TYPE_ERROR = Instance [''TypeError'', ''Error'']"

text \<open>The details of \<open>RECORD_NOT_QUEUED\<close>, beside those an adapter adds.\<close>

definition not_queued :: "string \<Rightarrow> validation_issue list \<Rightarrow> (string \<times> string) list" where
  "not_queued outcome found = (''outcome'', outcome) # opt_detail ''issues'' (formatSubmitIssues found)"

section \<open>What a router adapter did\<close>

text \<open>
  What it handed to \<open>client.record()\<close>, for the proofs only, and what it logged. A step of it ends
  with the error it throws, if any; \<open>guarded\<close> reports that error and goes on.
\<close>

record metering =
  given_out :: "fields list"
  log_lines :: "string list"

definition hand_over :: "fields \<Rightarrow> metering \<Rightarrow> metering" where
  "hand_over r m = m\<lparr>given_out := given_out m @ [r]\<rparr>"

definition log_line :: "string \<Rightarrow> metering \<Rightarrow> metering" where
  "log_line s m = m\<lparr>log_lines := log_lines m @ [s]\<rparr>"

lemma metering_simps [simp]:
  "given_out (hand_over r m) = given_out m @ [r]" "log_lines (hand_over r m) = log_lines m"
  "given_out (log_line s m) = given_out m" "log_lines (log_line s m) = log_lines m @ [s]"
  by (simp_all add: hand_over_def log_line_def)

end
