(* ===== verification/Exporter.thy ===== *)
theory Exporter
  imports Diagnostics
begin

text \<open>
  \<open>adapters/mastra/typescript/src/exporter.ts\<close> and \<open>spanTiming\<close> of \<open>mapping.ts\<close>: the exporter that
  meters the spans Mastra ends. What a \<open>Date\<close> makes of a string is the argument \<open>parse_date\<close> of
  the surroundings, and \<open>errorInfo\<close> of a span is \<open>undefined\<close> where it did not fail.
\<close>

section \<open>Spans\<close>

record exported_span =
  sp_id :: string
  sp_type :: string
  traceId :: string
  sp_parent :: jsval
  entityName :: jsval
  sp_metadata :: jsval
  sp_attributes :: jsval
  startTime :: jsval
  endTime :: jsval
  errorInfo :: jsval

text \<open>The surroundings of an event; a client that throws or answers is in \<open>at_record\<close>.\<close>

record exporter_env =
  now_ms :: int
  new_uuid :: string
  parse_date :: "string \<Rightarrow> int option"
  at_record :: answered

definition toDate :: "exporter_env \<Rightarrow> jsval \<Rightarrow> int option" where
  "toDate e v = (case v of JDate t \<Rightarrow> t | JStr s \<Rightarrow> parse_date e s | _ \<Rightarrow> None)"

definition spanTiming :: "exporter_env \<Rightarrow> jsval \<Rightarrow> jsval \<Rightarrow> int \<times> int option" where
  "spanTiming e started ended =
     (let a = toDate e started; b = toDate e ended
      in (case opt_or b a of Some t \<Rightarrow> t | None \<Rightarrow> now_ms e,
          case (a, b) of (Some x, Some y) \<Rightarrow> if x \<le> y then Some (y - x) else None | _ \<Rightarrow> None))"

definition W3C_TRACE_ID :: rx where
  "W3C_TRACE_ID = Rep 32 (Cls [(CHR ''0'', CHR ''9''), (CHR ''a'', CHR ''f'')])"

definition METERED_SPAN_TYPES :: "string list" where
  "METERED_SPAN_TYPES = [''model_inference'', ''rag_embedding'', ''tool_call'', ''mcp_tool_call'']"

definition DELEGATION_SPAN_TYPES :: "string list" where
  "DELEGATION_SPAN_TYPES = [''agent_run'', ''workflow_run'']"

definition REQUIRED_SPAN_TYPES :: "string list" where
  "REQUIRED_SPAN_TYPES = METERED_SPAN_TYPES @ DELEGATION_SPAN_TYPES"

definition MODEL_ERROR_CODE :: string where
  "MODEL_ERROR_CODE = ''MASTRA_MODEL_ERROR''"

definition TOOL_ERROR_CODE :: string where
  "TOOL_ERROR_CODE = ''MASTRA_TOOL_ERROR''"

definition TOOL_PROVIDER :: string where
  "TOOL_PROVIDER = ''self-hosted''"

definition providerSlug :: "jsval \<Rightarrow> string option" where
  "providerSlug v = (case v of JStr s \<Rightarrow> sdk_slug s | _ \<Rightarrow> None)"

section \<open>The exporter\<close>

text \<open>
  The two sets of tool spans, the logger and what was logged. \<open>exports\<close> lists what was handed to
  \<open>client.record()\<close>, for the proofs only.
\<close>

datatype dest = Silent | Host | Mastra

record exporter =
  attribution_defaults :: "fields option"
  hasExplicitLogger :: bool
  log_to :: dest
  open_tools :: "string list"
  delegationToolSpans :: "string list"
  logged :: "(dest \<times> string) list"
  exports :: "fields list"

text \<open>The constructor, of whether the client has \<open>record()\<close> and \<open>flush()\<close>; \<open>Inl\<close> is the message of a \<open>ConfigurationError\<close>.\<close>

definition new_exporter :: "bool \<Rightarrow> bool \<Rightarrow> fields option \<Rightarrow> bool \<Rightarrow> string + exporter" where
  "new_exporter has_record has_flush defaults has_logger =
     (if \<not> has_record then Inl ''client must implement record()''
      else if \<not> has_flush then Inl ''client must implement flush()''
      else Inr \<lparr>attribution_defaults = defaults, hasExplicitLogger = has_logger,
        log_to = (if has_logger then Host else Silent), open_tools = [], delegationToolSpans = [],
        logged = [], exports = []\<rparr>)"

definition diagnose :: "string \<Rightarrow> (string \<times> string) list \<Rightarrow> exporter \<Rightarrow> exporter" where
  "diagnose what details st =
     (if log_to st = Silent then st else st\<lparr>logged := logged st @ [(log_to st, mastra_diagnostic what details)]\<rparr>)"

definition setLogger :: "exporter \<Rightarrow> exporter" where
  "setLogger st = (if hasExplicitLogger st then st else st\<lparr>log_to := Mastra\<rparr>)"

text \<open>The observability config: its parts, \<open>None\<close> where absent.\<close>

record obs_config =
  sampling :: "string option"
  excludeSpanTypes :: "string list option"
  includeInternalSpans :: "bool option"

definition no_config :: obs_config where
  "no_config = \<lparr>sampling = None, excludeSpanTypes = None, includeInternalSpans = None\<rparr>"

definition init_exporter :: "obs_config option \<Rightarrow> exporter \<Rightarrow> exporter" where
  "init_exporter config st =
     (let c = (case config of None \<Rightarrow> no_config | Some c \<Rightarrow> c);
          warn = (\<lambda>drops setting st. if drops then diagnose ''CONFIG_DROPS_SPANS'' [(''setting'', setting)] st else st)
      in warn (includeInternalSpans c \<noteq> Some True) ''includeInternalSpans''
         (warn (case excludeSpanTypes c of None \<Rightarrow> False | Some ts \<Rightarrow> list_ex (\<lambda>t. t \<in> set REQUIRED_SPAN_TYPES) ts)
            ''excludeSpanTypes''
         (warn (case sampling c of None \<Rightarrow> False | Some s \<Rightarrow> s \<noteq> ''always'') ''sampling'' st)))"

text \<open>\<open>Metered\<close>: the resource, the usage and the error code of a record.\<close>

type_synonym contribution = "fields \<times> jsval \<times> string"

definition resource_unresolved :: "string \<Rightarrow> exporter \<Rightarrow> contribution option \<times> exporter" where
  "resource_unresolved kind st = (None, diagnose ''RESOURCE_UNRESOLVED'' [(''span'', kind)] st)"

definition model_resource :: "string \<Rightarrow> string \<Rightarrow> string \<Rightarrow> fields" where
  "model_resource provider name operation =
     [(''provider'', JStr provider), (''type'', JStr ''model''), (''name'', JStr name),
      (''operation'', JStr operation), (''modality'', JStr ''text'')]"

definition span_usage :: "jsval \<Rightarrow> jsval" where
  "span_usage attributes = JObj [(''llm'', usage_json (mastra_usage (coalesce (jget attributes ''usage'') (JObj []))))]"

definition meter_model :: "exported_span \<Rightarrow> exporter \<Rightarrow> contribution option \<times> exporter" where
  "meter_model s st =
     (let attributes = sp_attributes s
      in case (providerSlug (jget attributes ''provider''),
               opt_or (some_text (jget attributes ''responseModel'')) (some_text (jget attributes ''model''))) of
           (Some provider, Some name) \<Rightarrow>
             (Some (model_resource provider name ''generation'', span_usage attributes, MODEL_ERROR_CODE), st)
         | _ \<Rightarrow> resource_unresolved ''model_inference'' st)"

definition meter_embedding :: "exported_span \<Rightarrow> exporter \<Rightarrow> contribution option \<times> exporter" where
  "meter_embedding s st =
     (let attributes = sp_attributes s
      in case (providerSlug (jget attributes ''provider''), some_text (jget attributes ''model'')) of
           (Some provider, Some name) \<Rightarrow>
             (Some (model_resource provider name ''embedding'', span_usage attributes, MODEL_ERROR_CODE), st)
         | _ \<Rightarrow> resource_unresolved ''rag_embedding'' st)"

definition meter_tool :: "exported_span \<Rightarrow> exporter \<Rightarrow> contribution option \<times> exporter" where
  "meter_tool s st =
     (case some_text (entityName s) of
        None \<Rightarrow> resource_unresolved (sp_type s) st
      | Some name \<Rightarrow>
          (if sp_type s = ''tool_call'' \<and> sp_id s \<in> set (delegationToolSpans st) then (None, st)
           else
             let namespace = (if sp_type s = ''mcp_tool_call'' then some_text (jget (sp_attributes s) ''mcpServer'') else None)
             in (Some ([(''provider'', JStr TOOL_PROVIDER), (''type'', JStr ''tool'')] @ opt_text ''namespace'' namespace @
                   [(''name'', JStr name), (''operation'', JStr ''tool_execution'')],
                  JObj [(''tool'', JObj [(''type'', JStr ''invocation''), (''call_count'', JNum (Fin 1))])],
                  TOOL_ERROR_CODE), st)))"

definition meter :: "exported_span \<Rightarrow> exporter \<Rightarrow> contribution option \<times> exporter" where
  "meter s st =
     (if sp_type s = ''model_inference'' then meter_model s st
      else if sp_type s = ''rag_embedding'' then meter_embedding s st
      else meter_tool s st)"

definition span_record :: "exporter_env \<Rightarrow> exported_span \<Rightarrow> contribution \<Rightarrow> fields \<Rightarrow> fields" where
  "span_record e s c who =
     (let timing = spanTiming e (startTime s) (endTime s)
      in [(''timing'', JObj ((''event_time'', JDate (Some (fst timing))) #
              entry ''duration_ms'' (map_option of_int (snd timing)))),
          (''resource'', JObj (fst c)), (''usage'', fst (snd c)),
          (''run'', JObj
            ([(''run_id'', JStr (traceId s))] @
             (if matches W3C_TRACE_ID (traceId s) then [(''trace_id'', JStr (traceId s))] else []) @
             [(''span_id'', JStr (sp_id s))] @ opt_text ''parent_span_id'' (some_text (sp_parent s)) @
             (if errorInfo s = JUndef then [] else [(''error_code'', JStr (snd (snd c)))]))),
          (''attribution'', JObj who)])"

text \<open>\<open>#record\<close>; an error is the second component.\<close>

definition record_span :: "exporter_env \<Rightarrow> exported_span \<Rightarrow> exporter \<Rightarrow> exporter \<times> host_error option" where
  "record_span e s st =
     (if sp_type s \<notin> set METERED_SPAN_TYPES then (st, None)
      else case meter s st of
        (None, st) \<Rightarrow> (st, None)
      | (Some c, st) \<Rightarrow>
          (case resolveAttribution (sp_metadata s) (attribution_defaults st) of
             None \<Rightarrow> (diagnose ''ATTRIBUTION_UNRESOLVED'' [(''span'', sp_type s)] st, None)
           | Some who \<Rightarrow>
               (case createRecord (now_ms e) (new_uuid e) (span_record e s c who) of
                  None \<Rightarrow> (st, Some TYPE_ERROR)
                | Some r \<Rightarrow>
                    (let st = st\<lparr>exports := exports st @ [r]\<rparr>
                     in case at_record e of
                          RecordThrew w \<Rightarrow> (st, Some w)
                        | RecordAnswered queued outcome found \<Rightarrow>
                            (if queued then st else diagnose ''RECORD_NOT_QUEUED'' (not_queued outcome found) st, None)))))"

definition add_to :: "string \<Rightarrow> string list \<Rightarrow> string list" where
  "add_to x xs = (if x \<in> set xs then xs else xs @ [x])"

definition trackDelegationChild :: "exported_span \<Rightarrow> exporter \<Rightarrow> exporter" where
  "trackDelegationChild s st =
     (if sp_type s \<notin> set DELEGATION_SPAN_TYPES then st
      else case some_text (sp_parent s) of
        None \<Rightarrow> st
      | Some parent \<Rightarrow>
          (if parent \<in> set (open_tools st)
           then st\<lparr>delegationToolSpans := add_to parent (delegationToolSpans st)\<rparr> else st))"

definition trackStarted :: "exported_span \<Rightarrow> exporter \<Rightarrow> exporter" where
  "trackStarted s st =
     trackDelegationChild s
       (if sp_type s = ''tool_call'' then st\<lparr>open_tools := add_to (sp_id s) (open_tools st)\<rparr> else st)"

definition finishTool :: "string \<Rightarrow> exporter \<Rightarrow> exporter" where
  "finishTool i st =
     st\<lparr>open_tools := filter (\<lambda>x. x \<noteq> i) (open_tools st),
       delegationToolSpans := filter (\<lambda>x. x \<noteq> i) (delegationToolSpans st)\<rparr>"

definition exportTracingEvent :: "exporter_env \<Rightarrow> string \<Rightarrow> exported_span \<Rightarrow> exporter \<Rightarrow> exporter" where
  "exportTracingEvent e eventType s st =
     (if eventType = ''span_started'' then trackStarted s st
      else if eventType = ''span_ended''
      then case record_span e s (trackDelegationChild s st) of
        (st, problem) \<Rightarrow>
          (let st = (if sp_type s = ''tool_call'' then finishTool (sp_id s) st else st)
           in case problem of
                None \<Rightarrow> st
              | Some w \<Rightarrow> diagnose ''EXPORT_FAILED'' [(''error'', adapterErrorName w)] st)
      else st)"

definition shutdown_exporter :: "exporter \<Rightarrow> exporter" where
  "shutdown_exporter st = st\<lparr>open_tools := [], delegationToolSpans := []\<rparr>"

text \<open>\<open>flush\<close>, of what the client's \<open>flush()\<close> throws.\<close>

definition flush_exporter :: "host_error option \<Rightarrow> exporter \<Rightarrow> exporter" where
  "flush_exporter problem st =
     (case problem of None \<Rightarrow> st | Some w \<Rightarrow> diagnose ''EXPORT_FAILED'' [(''error'', adapterErrorName w)] st)"

datatype exporter_call =
    Export exporter_env string exported_span
  | Init "obs_config option"
  | Set_logger
  | Flush "host_error option"
  | Shutdown

fun perform_call :: "exporter_call \<Rightarrow> exporter \<Rightarrow> exporter" where
  "perform_call (Export e eventType s) st = exportTracingEvent e eventType s st"
| "perform_call (Init config) st = init_exporter config st"
| "perform_call Set_logger st = setLogger st"
| "perform_call (Flush problem) st = flush_exporter problem st"
| "perform_call Shutdown st = shutdown_exporter st"

definition perform_calls :: "exporter_call list \<Rightarrow> exporter \<Rightarrow> exporter" where
  "perform_calls evs st = foldl (\<lambda>st ev. perform_call ev st) st evs"

section \<open>Tools that delegated\<close>

text \<open>Something happened, and nothing that undoes it has happened since.\<close>

definition since :: "('a list \<Rightarrow> 'a \<Rightarrow> bool) \<Rightarrow> ('a \<Rightarrow> bool) \<Rightarrow> 'a list \<Rightarrow> bool" where
  "since happens undoes evs \<longleftrightarrow>
     (\<exists>xs ev ys. evs = xs @ ev # ys \<and> happens xs ev \<and> (\<forall>ev' \<in> set ys. \<not> undoes ev'))"

lemma since_Nil [simp]: "\<not> since happens undoes []"
  by (simp add: since_def)

lemma since_snoc: "since happens undoes (evs @ [ev]) \<longleftrightarrow> happens evs ev \<or> since happens undoes evs \<and> \<not> undoes ev"
proof
  assume "since happens undoes (evs @ [ev])"
  then obtain xs x ys where e: "evs @ [ev] = xs @ x # ys" and x: "happens xs x" and ys: "\<forall>y \<in> set ys. \<not> undoes y"
    unfolding since_def by blast
  show "happens evs ev \<or> since happens undoes evs \<and> \<not> undoes ev"
  proof (cases ys rule: rev_cases)
    case Nil
    then show ?thesis using e x by simp
  next
    case (snoc zs z)
    then have "evs = xs @ x # zs" "z = ev" using e by simp_all
    then show ?thesis using x ys unfolding since_def snoc by auto
  qed
next
  assume r: "happens evs ev \<or> since happens undoes evs \<and> \<not> undoes ev"
  show "since happens undoes (evs @ [ev])"
  proof (cases "happens evs ev")
    case True
    then show ?thesis unfolding since_def by (intro exI [of _ evs] exI [of _ ev] exI [of _ "[]"]) simp
  next
    case False
    then obtain xs x ys where "evs = xs @ x # ys" "happens xs x" "\<forall>y \<in> set ys. \<not> undoes y" "\<not> undoes ev"
      using r unfolding since_def by blast
    then show ?thesis unfolding since_def by (intro exI [of _ xs] exI [of _ x] exI [of _ "ys @ [ev]"]) auto
  qed
qed

definition tool_starts :: "string \<Rightarrow> exporter_call \<Rightarrow> bool" where
  "tool_starts i ev \<longleftrightarrow>
     (case ev of Export e t s \<Rightarrow> t = ''span_started'' \<and> sp_type s = ''tool_call'' \<and> sp_id s = i | _ \<Rightarrow> False)"

definition tool_ends :: "string \<Rightarrow> exporter_call \<Rightarrow> bool" where
  "tool_ends i ev \<longleftrightarrow>
     (case ev of Export e t s \<Rightarrow> t = ''span_ended'' \<and> sp_type s = ''tool_call'' \<and> sp_id s = i
      | Shutdown \<Rightarrow> True | _ \<Rightarrow> False)"

definition child_seen :: "string \<Rightarrow> exporter_call \<Rightarrow> bool" where
  "child_seen i ev \<longleftrightarrow>
     (case ev of Export e t s \<Rightarrow> t \<in> {''span_started'', ''span_ended''} \<and> sp_type s \<in> {''agent_run'', ''workflow_run''} \<and>
          sp_parent s = JStr i \<and> i \<noteq> []
      | _ \<Rightarrow> False)"

text \<open>A tool call is running, and an agent or a workflow was seen to run inside it.\<close>

definition tool_running :: "string \<Rightarrow> exporter_call list \<Rightarrow> bool" where
  "tool_running i = since (\<lambda>_. tool_starts i) (tool_ends i)"

definition delegated :: "string \<Rightarrow> exporter_call list \<Rightarrow> bool" where
  "delegated i = since (\<lambda>before ev. child_seen i ev \<and> tool_running i before) (tool_ends i)"

lemma diagnose_frame [simp]:
  "open_tools (diagnose what details st) = open_tools st" "delegationToolSpans (diagnose what details st) = delegationToolSpans st"
  "exports (diagnose what details st) = exports st" "attribution_defaults (diagnose what details st) = attribution_defaults st"
  by (simp_all add: diagnose_def)

lemma meter_frame:
  assumes "meter s st = (c, st')"
  shows "open_tools st' = open_tools st \<and> delegationToolSpans st' = delegationToolSpans st \<and>
    exports st' = exports st \<and> attribution_defaults st' = attribution_defaults st"
  using assms unfolding meter_def meter_model_def meter_embedding_def meter_tool_def resource_unresolved_def Let_def
  by (auto split: if_splits option.splits)

lemma record_span_frame:
  assumes "record_span e s st = (st', w)"
  shows "open_tools st' = open_tools st" "delegationToolSpans st' = delegationToolSpans st"
    "attribution_defaults st' = attribution_defaults st"
proof -
  obtain c st1 where m: "meter s st = (c, st1)" by fastforce
  note f = meter_frame [OF m]
  show "open_tools st' = open_tools st" "delegationToolSpans st' = delegationToolSpans st"
    "attribution_defaults st' = attribution_defaults st"
    using assms f unfolding record_span_def m
    by (auto simp: Let_def split: if_splits option.splits answered.splits)
qed

lemma some_text_iff: "some_text v = Some s \<longleftrightarrow> v = JStr s \<and> s \<noteq> []"
  by (auto simp: some_text_def split: jsval.splits)

lemma trackDelegationChild_sets:
  "open_tools (trackDelegationChild s st) = open_tools st"
  "set (delegationToolSpans (trackDelegationChild s st)) = set (delegationToolSpans st) \<union>
     {i. sp_type s \<in> {''agent_run'', ''workflow_run''} \<and> sp_parent s = JStr i \<and> i \<noteq> [] \<and> i \<in> set (open_tools st)}"
  "exports (trackDelegationChild s st) = exports st"
  "attribution_defaults (trackDelegationChild s st) = attribution_defaults st"
proof -
  show "set (delegationToolSpans (trackDelegationChild s st)) = set (delegationToolSpans st) \<union>
     {i. sp_type s \<in> {''agent_run'', ''workflow_run''} \<and> sp_parent s = JStr i \<and> i \<noteq> [] \<and> i \<in> set (open_tools st)}"
  proof (cases "some_text (sp_parent s)")
    case None
    then have "\<not> (sp_parent s = JStr i \<and> i \<noteq> [])" for i using some_text_iff [of "sp_parent s" i] by simp
    then show ?thesis using None by (auto simp: trackDelegationChild_def)
  next
    case (Some p)
    then have "sp_parent s = JStr p" "p \<noteq> []" by (simp_all add: some_text_iff)
    then show ?thesis using Some
      by (auto simp: trackDelegationChild_def DELEGATION_SPAN_TYPES_def add_to_def)
  qed
qed (simp_all add: trackDelegationChild_def split: option.split)

lemma set_add_to [simp]: "set (add_to x xs) = insert x (set xs)"
  by (auto simp: add_to_def)

lemma export_ended:
  assumes "record_span e s (trackDelegationChild s st) = (st1, w)"
  shows "set (open_tools (exportTracingEvent e ''span_ended'' s st)) =
      {i \<in> set (open_tools st). \<not> (sp_type s = ''tool_call'' \<and> sp_id s = i)}"
    "set (delegationToolSpans (exportTracingEvent e ''span_ended'' s st)) =
      {i \<in> set (delegationToolSpans (trackDelegationChild s st)). \<not> (sp_type s = ''tool_call'' \<and> sp_id s = i)}"
    "exports (exportTracingEvent e ''span_ended'' s st) = exports st1"
    "attribution_defaults (exportTracingEvent e ''span_ended'' s st) = attribution_defaults st"
  using record_span_frame [OF assms]
  by (auto simp: exportTracingEvent_def assms Let_def finishTool_def trackDelegationChild_sets(1,4) split: option.split)

lemma perform_call_sets:
  shows "set (open_tools (perform_call ev st)) = {i. tool_starts i ev \<or> i \<in> set (open_tools st) \<and> \<not> tool_ends i ev}"
    (is ?open)
    and "set (delegationToolSpans (perform_call ev st)) =
      {i. child_seen i ev \<and> i \<in> set (open_tools st) \<or> i \<in> set (delegationToolSpans st) \<and> \<not> tool_ends i ev}"
    (is ?deleg)
    and "attribution_defaults (perform_call ev st) = attribution_defaults st" (is ?defaults)
proof -
  have "?open \<and> ?deleg \<and> ?defaults"
  proof (cases ev)
    case (Export e t s)
    obtain st1 w where r: "record_span e s (trackDelegationChild s st) = (st1, w)" by fastforce
    consider "t = ''span_started''" | "t = ''span_ended''" | "t \<noteq> ''span_started''" "t \<noteq> ''span_ended''" by blast
    then show ?thesis
    proof cases
      case 1
      then show ?thesis
        by (auto simp: Export exportTracingEvent_def trackStarted_def trackDelegationChild_sets tool_starts_def
            tool_ends_def child_seen_def)
    next
      case 2
      have seen: "tool_starts i ev = False" "child_seen i ev \<longleftrightarrow> sp_type s \<in> {''agent_run'', ''workflow_run''} \<and>
          sp_parent s = JStr i \<and> i \<noteq> []" "tool_ends i ev \<longleftrightarrow> sp_type s = ''tool_call'' \<and> sp_id s = i" for i
        by (simp_all add: Export 2 tool_starts_def child_seen_def tool_ends_def)
      have child: "sp_type s \<in> {''agent_run'', ''workflow_run''} \<Longrightarrow> sp_type s \<noteq> ''tool_call''" by auto
      have call: "perform_call ev st = exportTracingEvent e ''span_ended'' s st" by (simp add: Export 2)
      show ?thesis
        unfolding call seen export_ended [OF r] trackDelegationChild_sets using child by blast
    next
      case 3
      then show ?thesis
        by (simp add: Export exportTracingEvent_def tool_starts_def tool_ends_def child_seen_def)
    qed
  qed (simp_all add: tool_starts_def tool_ends_def child_seen_def init_exporter_def Let_def setLogger_def
      flush_exporter_def shutdown_exporter_def split: option.split)
  then show ?open ?deleg ?defaults by blast+
qed

lemma perform_calls_sets:
  assumes "new_exporter has_record has_flush defaults has_logger = Inr st"
  shows "i \<in> set (open_tools (perform_calls evs st)) \<longleftrightarrow> tool_running i evs"
    and "i \<in> set (delegationToolSpans (perform_calls evs st)) \<longleftrightarrow> delegated i evs"
    and "attribution_defaults (perform_calls evs st) = defaults"
proof (induction evs rule: rev_induct)
  case Nil
  show "i \<in> set (open_tools (perform_calls [] st)) \<longleftrightarrow> tool_running i []"
    "i \<in> set (delegationToolSpans (perform_calls [] st)) \<longleftrightarrow> delegated i []"
    "attribution_defaults (perform_calls [] st) = defaults"
    using assms by (auto simp: new_exporter_def perform_calls_def tool_running_def delegated_def split: if_splits)
next
  case (snoc ev evs)
  have step: "perform_calls (evs @ [ev]) st = perform_call ev (perform_calls evs st)"
    by (simp add: perform_calls_def)
  show "i \<in> set (open_tools (perform_calls (evs @ [ev]) st)) \<longleftrightarrow> tool_running i (evs @ [ev])"
    "i \<in> set (delegationToolSpans (perform_calls (evs @ [ev]) st)) \<longleftrightarrow> delegated i (evs @ [ev])"
    "attribution_defaults (perform_calls (evs @ [ev]) st) = defaults"
    unfolding step perform_call_sets mem_Collect_eq snoc.IH
    by (simp_all add: tool_running_def delegated_def since_snoc)
qed

lemma span_record_created:
  "\<exists>r. createRecord now u (span_record e s c who) = Some r \<and>
    (\<forall>k. k \<notin> {''spec_version'', ''record_id'', ''timing''} \<longrightarrow> field r k = field (span_record e s c who) k)"
proof -
  have "jget (field (span_record e s c who) ''timing'') ''event_time'' =
      JDate (Some (fst (spanTiming e (startTime s) (endTime s))))"
    by (simp add: span_record_def Let_def jget_simps)
  then show ?thesis by (auto simp: createRecord_def Let_def nullish_def)
qed

lemma span_record_fields:
  "field (span_record e s c who) ''resource'' = JObj (fst c)" "field (span_record e s c who) ''usage'' = fst (snd c)"
  "jget (field (span_record e s c who) ''run'') ''span_id'' = JStr (sp_id s)"
  by (simp_all add: span_record_def Let_def jget_simps)

lemma meter_tool_call:
  assumes "sp_type s = ''tool_call''" "some_text (entityName s) = Some name"
  shows "meter s st =
    (if sp_id s \<in> set (delegationToolSpans st) then None
     else Some ([(''provider'', JStr TOOL_PROVIDER), (''type'', JStr ''tool''), (''name'', JStr name),
        (''operation'', JStr ''tool_execution'')],
       JObj [(''tool'', JObj [(''type'', JStr ''invocation''), (''call_count'', JNum (Fin 1))])], TOOL_ERROR_CODE), st)"
  using assms by (simp add: meter_def meter_tool_def opt_text_def)

lemma tool_call_ended:
  assumes s: "sp_type s = ''tool_call''" "some_text (entityName s) = Some name"
    and who: "resolveAttribution (sp_metadata s) (attribution_defaults st) = Some who"
  shows "\<exists>r. exports (exportTracingEvent e ''span_ended'' s st) =
      exports st @ (if sp_id s \<in> set (delegationToolSpans st) then [] else [r]) \<and>
    jget (field r ''resource'') ''name'' = JStr name \<and> jget (field r ''run'') ''span_id'' = JStr (sp_id s)"
proof -
  define c where "c = ([(''provider'', JStr TOOL_PROVIDER), (''type'', JStr ''tool''), (''name'', JStr name),
        (''operation'', JStr ''tool_execution'')],
       JObj [(''tool'', JObj [(''type'', JStr ''invocation''), (''call_count'', JNum (Fin 1))])], TOOL_ERROR_CODE)"
  obtain r where r: "createRecord (now_ms e) (new_uuid e) (span_record e s c who) = Some r"
    and same: "\<forall>k. k \<notin> {''spec_version'', ''record_id'', ''timing''} \<longrightarrow> field r k = field (span_record e s c who) k"
    using span_record_created [of "now_ms e" "new_uuid e" e s c who] by (elim exE conjE)
  have fields: "jget (field r ''resource'') ''name'' = JStr name" "jget (field r ''run'') ''span_id'' = JStr (sp_id s)"
    using same by (simp_all add: span_record_fields) (simp add: c_def jget_simps)
  have child: "trackDelegationChild s st = st"
    using s(1) by (simp add: trackDelegationChild_def DELEGATION_SPAN_TYPES_def)
  have "meter s st = (if sp_id s \<in> set (delegationToolSpans st) then None else Some c, st)"
    unfolding c_def by (rule meter_tool_call [OF s])
  then have "exports (fst (record_span e s st)) =
      exports st @ (if sp_id s \<in> set (delegationToolSpans st) then [] else [r])"
    using s(1) who r by (simp add: record_span_def METERED_SPAN_TYPES_def Let_def split: answered.split)
  then have "exports (exportTracingEvent e ''span_ended'' s st) =
      exports st @ (if sp_id s \<in> set (delegationToolSpans st) then [] else [r])"
    using export_ended(3) [of e s st "fst (record_span e s st)" "snd (record_span e s st)"] by (simp add: child)
  then show ?thesis using fields by blast
qed

text \<open>
  C26: a tool call that ends is metered exactly when it did not delegate. Whatever the exporter
  was called with before: if an agent or a workflow run was seen as a child of the call while
  it was running, then ending it hands no record to the client, since the run's own model and
  tool calls are metered; otherwise it hands exactly one, under the tool's name and the span's
  identifier, and either way the call is forgotten.
\<close>

theorem tool_metered_unless_delegated:
  assumes "new_exporter has_record has_flush defaults has_logger = Inr st"
    and "sp_type s = ''tool_call''" "some_text (entityName s) = Some name"
    and "resolveAttribution (sp_metadata s) defaults = Some who"
  shows "(\<exists>r. exports (perform_calls (evs @ [Export e ''span_ended'' s]) st) =
        exports (perform_calls evs st) @ (if delegated (sp_id s) evs then [] else [r]) \<and>
      jget (field r ''resource'') ''name'' = JStr name \<and> jget (field r ''run'') ''span_id'' = JStr (sp_id s)) \<and>
    sp_id s \<notin> set (open_tools (perform_calls (evs @ [Export e ''span_ended'' s]) st)) \<union>
      set (delegationToolSpans (perform_calls (evs @ [Export e ''span_ended'' s]) st))"
proof -
  have step: "perform_calls (evs @ [Export e ''span_ended'' s]) st =
      exportTracingEvent e ''span_ended'' s (perform_calls evs st)"
    by (simp add: perform_calls_def)
  note sets = perform_calls_sets [OF assms(1)]
  have "\<not> tool_running (sp_id s) (evs @ [Export e ''span_ended'' s])"
    "\<not> delegated (sp_id s) (evs @ [Export e ''span_ended'' s])"
    using assms(2) by (simp_all add: tool_running_def delegated_def since_snoc tool_starts_def tool_ends_def child_seen_def)
  then have "sp_id s \<notin> set (open_tools (perform_calls (evs @ [Export e ''span_ended'' s]) st)) \<union>
      set (delegationToolSpans (perform_calls (evs @ [Export e ''span_ended'' s]) st))"
    by (simp add: sets)
  moreover have "resolveAttribution (sp_metadata s) (attribution_defaults (perform_calls evs st)) = Some who"
    using assms(4) by (simp add: sets(3))
  ultimately show ?thesis
    using tool_call_ended [OF assms(2,3), of "perform_calls evs st" who e] unfolding step sets(2) by blast
qed

definition demo_span :: "string \<Rightarrow> string \<Rightarrow> jsval \<Rightarrow> exported_span" where
  "demo_span i kind parent = \<lparr>sp_id = i, sp_type = kind, traceId = ''t'', sp_parent = parent, entityName = JStr ''search'',
     sp_metadata = JUndef, sp_attributes = JUndef, startTime = JUndef, endTime = JUndef, errorInfo = JUndef\<rparr>"

definition demo_surroundings :: exporter_env where
  "demo_surroundings = \<lparr>now_ms = 0, new_uuid = ''u'', parse_date = (\<lambda>_. None), at_record = RecordAnswered True ''queued'' []\<rparr>"

theorem tool_metered_unless_delegated_witness:
  "\<exists>st. new_exporter True True (Some [(''environment'', JStr ''test'')]) False = Inr st \<and>
    exports (perform_calls [Export demo_surroundings ''span_started'' (demo_span ''a'' ''tool_call'' JUndef),
        Export demo_surroundings ''span_started'' (demo_span ''b'' ''agent_run'' (JStr ''a'')),
        Export demo_surroundings ''span_ended'' (demo_span ''a'' ''tool_call'' JUndef)] st) = [] \<and>
    length (exports (perform_calls [Export demo_surroundings ''span_started'' (demo_span ''a'' ''tool_call'' JUndef),
        Export demo_surroundings ''span_ended'' (demo_span ''a'' ''tool_call'' JUndef)] st)) = 1"
proof -
  let ?start = "Export demo_surroundings ''span_started'' (demo_span ''a'' ''tool_call'' JUndef)"
  let ?child = "Export demo_surroundings ''span_started'' (demo_span ''b'' ''agent_run'' (JStr ''a''))"
  let ?s = "demo_span ''a'' ''tool_call'' JUndef"
  define st where "st = \<lparr>attribution_defaults = Some [(''environment'', JStr ''test'')], hasExplicitLogger = False,
    log_to = Silent, open_tools = [], delegationToolSpans = [], logged = [], exports = []\<rparr>"
  have new: "new_exporter True True (Some [(''environment'', JStr ''test'')]) False = Inr st"
    by (simp add: new_exporter_def st_def)
  have r: "resolveAttribution (sp_metadata ?s) (Some [(''environment'', JStr ''test'')]) = Some [(''environment'', JStr ''test'')]"
    by code_simp
  have s: "sp_type ?s = ''tool_call''" "some_text (entityName ?s) = Some ''search''" "sp_id ?s = ''a''"
    by (simp_all add: demo_span_def some_text_def)
  have d: "delegated ''a'' ([] @ [?start] @ [?child])" "\<not> delegated ''a'' ([] @ [?start])"
    unfolding append_assoc [symmetric] delegated_def tool_running_def since_snoc
    by (simp_all add: tool_starts_def child_seen_def tool_ends_def demo_span_def)
  have empty: "exports (perform_calls [?start, ?child] st) = []" "exports (perform_calls [?start] st) = []"
    by (simp_all add: perform_calls_def exportTracingEvent_def trackStarted_def trackDelegationChild_sets demo_span_def st_def)
  show ?thesis
    using tool_metered_unless_delegated [OF new s(1,2) r, of "[?start, ?child]" demo_surroundings]
      tool_metered_unless_delegated [OF new s(1,2) r, of "[?start]" demo_surroundings] new d empty
    by (auto simp: s(3))
qed

end
