(* ===== verification/Emission.thy ===== *)
theory Emission
  imports Exporter Client
begin

text \<open>
  From an adapter to the client: the records the Mastra exporter hands over are the ones the
  client accepts. The parts of a record are shown to satisfy the schema one by one.
\<close>

section \<open>Plain values\<close>

text \<open>A value that is the same after a clone and as JSON sees it.\<close>

fun json_plain :: "jsval \<Rightarrow> bool" where
  "json_plain (JObj kvs) = list_all (\<lambda>p. snd p \<noteq> JUndef \<and> json_plain (snd p)) kvs"
| "json_plain (JArr xs) = list_all json_plain xs"
| "json_plain (JStr s) = True"
| "json_plain (JNum x) = True"
| "json_plain (JBool b) = True"
| "json_plain JNull = True"
| "json_plain v = False"

lemma traverse_same: "(\<And>x. x \<in> set xs \<Longrightarrow> f x = Inr x) \<Longrightarrow> traverse f xs = Inr xs"
  by (induction xs) simp_all

lemma clone_plain: "json_plain v \<Longrightarrow> structuredClone v = Inr v"
proof (induction v rule: json_plain.induct)
  case (1 kvs)
  have "traverse (named (\<lambda>_ v. structuredClone v)) kvs = Inr kvs"
    by (rule traverse_same) (use 1 in \<open>auto simp: named_def list_all_iff\<close>)
  then show ?case by simp
next
  case (2 xs)
  have "traverse structuredClone xs = Inr xs"
    by (rule traverse_same) (use 2 in \<open>auto simp: list_all_iff\<close>)
  then show ?case by simp
qed simp_all

lemma asJson_plain: "json_plain v \<Longrightarrow> asJson k v = v"
proof (induction v arbitrary: k rule: json_plain.induct)
  case (1 kvs)
  have "filter (\<lambda>(n, f). present k f) kvs = kvs"
    using 1(2) by (auto simp: filter_id_conv present_def list_all_iff)
  moreover have "map (\<lambda>(n, f). (n, asJson (Some n) f)) kvs = kvs"
    using 1 by (intro map_idI) (auto simp: list_all_iff)
  ultimately show ?case by simp
qed simp_all

lemma judge_plain:
  assumes "json_plain (stamp em r)" "conforms (stamp em r) (Some now)"
  shows "judge_record em r now = Valid (stamp em r)"
proof -
  have "validate (Some (stamp em r)) (Some now) = []"
    using assms(2) by (simp add: validate_conforms asJson_plain [OF assms(1)])
  moreover have "inspect (Some v) n = (validate (Some v) n, asJson None v)" for v n
    by (simp add: inspect_def validate_def Let_def split_def)
  ultimately show ?thesis
    by (simp add: judge_record_def clone_plain [OF assms(1)] asJson_plain [OF assms(1)])
qed

section \<open>Closed objects\<close>

text \<open>An object all of whose properties are declared and valid satisfies a closed schema.\<close>

lemma sat_closed:
  assumes "distinct (map fst kvs)" "distinct (map fst ps)" "set req \<subseteq> fst ` set kvs"
    and "\<And>k v. (k, v) \<in> set kvs \<Longrightarrow> v \<noteq> JUndef \<and> (\<exists>s. (k, s) \<in> set ps \<and> sat s v)"
  shows "sat (Obj [Type [''object''], Closed, Required req, Properties ps]) (JObj kvs)"
proof -
  have field: "(k, v) \<in> set kvs \<Longrightarrow> field kvs k = v" for k v by (rule field_unique [OF assms(1)])
  have "has (JObj kvs) k" if "k \<in> set req" for k
    using that assms(3,4) field by (fastforce simp: has_def js_simps)
  moreover have "sat s (field kvs k)" if "(k, s) \<in> set ps" "has (JObj kvs) k" for k s
  proof -
    have "(k, field kvs k) \<in> set kvs" using that(2) by (simp add: has_def js_simps field_in_set)
    then obtain s' where s': "(k, s') \<in> set ps" "sat s' (field kvs k)" using assms(4) by blast
    have "s' = s" using eq_key_imp_eq_value [OF assms(2) s'(1) that(1)] .
    then show ?thesis using s'(2) by simp
  qed
  moreover have "\<not> undeclared [Type [''object''], Closed, Required req, Properties ps] k" if "k \<in> fst ` set kvs" for k
  proof -
    from that obtain q where q: "k = fst q" "q \<in> set kvs" by (rule imageE)
    then obtain s where "(k, s) \<in> set ps" using assms(4) [of "fst q" "snd q"] by auto
    then have "k \<in> fst ` set ps" by force
    then show ?thesis by (simp add: undeclared_def)
  qed
  ultimately show ?thesis by (auto simp: list_all_iff list_ex_iff js_simps)
qed

text \<open>The same, to be computed for a list of properties that is written out.\<close>

definition fits :: "(string \<times> schema) list \<Rightarrow> string \<times> jsval \<Rightarrow> bool" where
  "fits ps p \<longleftrightarrow> snd p \<noteq> JUndef \<and> (case map_of ps (fst p) of Some s \<Rightarrow> sat s (snd p) | None \<Rightarrow> False)"

lemma sat_fits:
  assumes "list_all (fits ps) kvs" "distinct (map fst kvs)" "distinct (map fst ps)" "set req \<subseteq> fst ` set kvs"
  shows "sat (Obj [Type [''object''], Closed, Required req, Properties ps]) (JObj kvs)"
proof (rule sat_closed [OF assms(2-4)])
  fix k v assume "(k, v) \<in> set kvs"
  then have "fits ps (k, v)" using assms(1) by (simp add: list_all_iff)
  then obtain s where "map_of ps k = Some s" "sat s v" "v \<noteq> JUndef" by (auto simp: fits_def split: option.splits)
  then show "v \<noteq> JUndef \<and> (\<exists>s. (k, s) \<in> set ps \<and> sat s v)" by (blast dest: map_of_SomeD)
qed

lemma all_opt_text [simp]: "list_all P (opt_text n c) \<longleftrightarrow> (\<forall>s. c = Some s \<longrightarrow> P (n, JStr s))"
  by (cases c) (simp_all add: opt_text_def)

lemma all_entry [simp]: "list_all P (entry n c) \<longleftrightarrow> (\<forall>x. c = Some x \<longrightarrow> P (n, JNum (Fin x)))"
  by (cases c) (simp_all add: entry_def)

lemma keys_opt_text [simp]: "map fst (opt_text n c) = (if c = None then [] else [n])"
  by (cases c) (simp_all add: opt_text_def)

lemma keys_entry [simp]: "map fst (entry n c) = (if c = None then [] else [n])"
  by (cases c) (simp_all add: entry_def)

lemma sat_texts [simp]:
  "sat Text (JStr s)" "sat Text1 (JStr s) \<longleftrightarrow> s \<noteq> []" "sat Ident (JStr s) \<longleftrightarrow> 8 \<le> length s \<and> length s \<le> 64"
  "sat Counter (JNum (Fin (of_int i))) \<longleftrightarrow> 0 \<le> i" "sat Counter (JNum (Fin (of_nat n)))"
  by (auto simp: Text_def Text1_def Ident_def Counter_def Suc_le_eq)

section \<open>The parts of a record\<close>

lemma timing_valid:
  assumes "100 \<le> year_of_day (t div 86400000)" "year_of_day (t div 86400000) \<le> 9999"
    and "\<forall>d. duration = Some d \<longrightarrow> 0 \<le> (d :: int)"
  shows "sat timing_schema (JObj ((''event_time'', JStr (to_iso t)) # entry ''duration_ms'' (map_option of_int duration)))"
proof -
  have "parse_timestamp (to_iso t) \<noteq> None" using parse_to_iso [OF assms(1,2)] by simp
  then have "matches pattern5 (to_iso t)" by (auto simp: parse_timestamp_def pattern5_def split: if_splits)
  then have "sat DateTime (JStr (to_iso t))" by (simp add: DateTime_def)
  then show ?thesis unfolding timing_schema_def
    by (intro sat_fits) (use assms(3) in \<open>auto simp: fits_def\<close>)
qed

definition run_of_span :: "exported_span \<Rightarrow> string \<Rightarrow> fields" where
  "run_of_span s error_code =
     [(''run_id'', JStr (traceId s))] @
     (if matches W3C_TRACE_ID (traceId s) then [(''trace_id'', JStr (traceId s))] else []) @
     [(''span_id'', JStr (sp_id s))] @ opt_text ''parent_span_id'' (some_text (sp_parent s)) @
     (if errorInfo s = JUndef then [] else [(''error_code'', JStr error_code)])"

lemma run_valid:
  assumes "8 \<le> length (traceId s)" "length (traceId s) \<le> 64" "sp_id s \<noteq> []" "error_code \<noteq> []"
  shows "sat run_schema (JObj (run_of_span s error_code))"
  unfolding run_schema_def run_of_span_def
  by (intro sat_fits) (use assms in \<open>simp_all add: fits_def some_text_iff\<close>)

section \<open>What is metered\<close>

text \<open>The shapes of a model's and of a tool's record.\<close>

definition model_shape :: "fields \<Rightarrow> fields \<Rightarrow> bool" where
  "model_shape R U \<longleftrightarrow>
     (field R ''operation'' = JStr ''generation'' \<or> field R ''operation'' = JStr ''embedding'' \<or>
      field R ''operation'' = JStr ''reranking'') \<and>
     field R ''type'' = JStr ''model'' \<and> field R ''modality'' \<noteq> JUndef \<and> field R ''namespace'' = JUndef \<and>
     field U ''llm'' \<noteq> JUndef \<and> field U ''tool'' = JUndef"

definition tool_shape :: "fields \<Rightarrow> fields \<Rightarrow> bool" where
  "tool_shape R U \<longleftrightarrow>
     field R ''operation'' = JStr ''tool_execution'' \<and> field R ''type'' = JStr ''tool'' \<and>
     field U ''tool'' \<noteq> JUndef \<and> field U ''llm'' = JUndef"

lemma branches_valid:
  assumes "jget d ''resource'' = JObj R" "jget d ''usage'' = JObj U"
    and "jget d ''cost'' = JUndef \<or> (\<exists>C. jget d ''cost'' = JObj C \<and> field C ''tool'' = JUndef \<and> model_shape R U)"
    and "model_shape R U \<or> tool_shape R U"
  shows "sat model_branch d" "sat tool_branch d"
  using assms(3,4)
  by (auto simp: model_branch_def tool_branch_def operation_if_def has_def js_simps assms(1,2) model_shape_def tool_shape_def)

definition contribution_ok :: "contribution \<Rightarrow> bool" where
  "contribution_ok c \<longleftrightarrow>
     sat resource_schema (JObj (fst c)) \<and> sat usage_schema (fst (snd c)) \<and> snd (snd c) \<noteq> [] \<and>
     json_plain (JObj (fst c)) \<and> json_plain (fst (snd c)) \<and>
     (\<exists>U. fst (snd c) = JObj U \<and> (model_shape (fst c) U \<or> tool_shape (fst c) U))"

lemma providerSlug_valid: "providerSlug v = Some p \<Longrightarrow> matches pattern7 p"
  using sdk_slug_valid by (auto simp: providerSlug_def SLUG_pattern7 split: jsval.splits)

lemma usage_json_present [simp]: "usage_json u \<noteq> JUndef"
  by (simp add: usage_json_def)

lemma opt_or_Some: "opt_or a b = Some x \<longleftrightarrow> a = Some x \<or> a = None \<and> b = Some x"
  by (cases a) auto

lemma usage_plain: "json_plain (usage_json u)"
  by (simp add: usage_json_def)

lemma span_usage_valid: "sat usage_schema (span_usage attributes)"
proof -
  have "sat usage_schema (JObj [(''llm'', usage_json (mastra_usage v))])" for v
  proof -
    have "list_all (\<lambda>k. \<not> undeclared [Type [''object''], Closed,
        Properties [(''llm'', usage_llm_schema), (''tool'', usage_tool_schema)]] k) [''llm'']" by code_simp
    then show ?thesis using mastra_usage_valid [of v]
      by (simp add: usage_schema_def jget_simps keys_simps has_def)
  qed
  then show ?thesis by (simp add: span_usage_def)
qed

lemma model_contribution_ok:
  assumes "matches pattern7 p" "name \<noteq> []" "operation \<in> {''generation'', ''embedding''}"
  shows "contribution_ok (model_resource p name operation, span_usage attributes, MODEL_ERROR_CODE)"
proof -
  have "sat resource_schema (JObj (model_resource p name operation))"
    unfolding resource_schema_def model_resource_def
    by (intro sat_fits) (use assms in \<open>auto simp: fits_def\<close>)
  moreover have "json_plain (span_usage attributes)" by (simp add: span_usage_def usage_plain)
  moreover have "\<exists>U. span_usage attributes = JObj U \<and> model_shape (model_resource p name operation) U"
    using assms(3) by (auto simp: span_usage_def model_shape_def model_resource_def)
  ultimately show ?thesis
    by (auto simp: contribution_ok_def span_usage_valid MODEL_ERROR_CODE_def) (simp add: model_resource_def)
qed

lemma tool_contribution_ok:
  assumes "name \<noteq> []" "\<forall>n. namespace = Some n \<longrightarrow> n \<noteq> []"
  shows "contribution_ok ([(''provider'', JStr TOOL_PROVIDER), (''type'', JStr ''tool'')] @ opt_text ''namespace'' namespace @
      [(''name'', JStr name), (''operation'', JStr ''tool_execution'')],
    JObj [(''tool'', JObj [(''type'', JStr ''invocation''), (''call_count'', JNum (Fin 1))])], TOOL_ERROR_CODE)"
    (is "contribution_ok (?R, ?u, _)")
proof -
  have "matches pattern7 TOOL_PROVIDER" by code_simp
  then have "sat resource_schema (JObj ?R)" unfolding resource_schema_def
    by (intro sat_fits) (use assms in \<open>auto simp: fits_def\<close>)
  moreover have "sat usage_schema ?u" by code_simp
  moreover have "tool_shape ?R [(''tool'', JObj [(''type'', JStr ''invocation''), (''call_count'', JNum (Fin 1))])]"
    by (cases namespace) (simp_all add: tool_shape_def opt_text_def)
  moreover have "TOOL_ERROR_CODE \<noteq> []" by (simp add: TOOL_ERROR_CODE_def)
  ultimately show ?thesis by (simp add: contribution_ok_def)
qed

lemma meter_ok:
  assumes "meter s st = (Some c, st')" "sp_type s \<in> set METERED_SPAN_TYPES"
  shows "contribution_ok c"
proof -
  consider "sp_type s = ''model_inference''" | "sp_type s = ''rag_embedding''"
    | "sp_type s \<noteq> ''model_inference''" "sp_type s \<noteq> ''rag_embedding''" by blast
  then show ?thesis
  proof cases
    case 1
    then obtain p name where p: "providerSlug (jget (sp_attributes s) ''provider'') = Some p"
      and name: "opt_or (some_text (jget (sp_attributes s) ''responseModel'')) (some_text (jget (sp_attributes s) ''model'')) = Some name"
      and c: "c = (model_resource p name ''generation'', span_usage (sp_attributes s), MODEL_ERROR_CODE)"
      using assms(1) by (auto simp: meter_def meter_model_def resource_unresolved_def Let_def split: option.splits)
    have "name \<noteq> []" using name by (auto simp: opt_or_Some some_text_iff)
    then show ?thesis using model_contribution_ok providerSlug_valid [OF p] c by simp
  next
    case 2
    then obtain p name where p: "providerSlug (jget (sp_attributes s) ''provider'') = Some p"
      and name: "some_text (jget (sp_attributes s) ''model'') = Some name"
      and c: "c = (model_resource p name ''embedding'', span_usage (sp_attributes s), MODEL_ERROR_CODE)"
      using assms(1) by (auto simp: meter_def meter_embedding_def resource_unresolved_def Let_def split: option.splits)
    then show ?thesis using model_contribution_ok providerSlug_valid [OF p] by (simp add: some_text_iff)
  next
    case 3
    then obtain name where name: "some_text (entityName s) = Some name"
      using assms(1) by (auto simp: meter_def meter_tool_def resource_unresolved_def split: option.splits)
    then have "name \<noteq> []" by (simp add: some_text_iff)
    moreover have "c = ([(''provider'', JStr TOOL_PROVIDER), (''type'', JStr ''tool'')] @
        opt_text ''namespace'' (if sp_type s = ''mcp_tool_call'' then some_text (jget (sp_attributes s) ''mcpServer'') else None) @
        [(''name'', JStr name), (''operation'', JStr ''tool_execution'')],
        JObj [(''tool'', JObj [(''type'', JStr ''invocation''), (''call_count'', JNum (Fin 1))])], TOOL_ERROR_CODE)"
      using assms(1) 3 name by (simp add: meter_def meter_tool_def Let_def split: if_splits)
    ultimately show ?thesis using tool_contribution_ok [of name] by (auto simp: some_text_iff split: if_splits)
  qed
qed

section \<open>The whole record\<close>

definition attribution_ok :: "fields \<Rightarrow> bool" where
  "attribution_ok who \<longleftrightarrow>
     sat attribution_schema (JObj who) \<and> json_plain (JObj who) \<and>
     (\<forall>i. field who ''user_id'' = JStr i \<longrightarrow> CHR ''@'' \<notin> set i)"

definition emitter_ok :: "jsval \<Rightarrow> bool" where
  "emitter_ok em \<longleftrightarrow> sat emitter_schema em \<and> json_plain em"

definition time_ok :: "int \<Rightarrow> int \<Rightarrow> bool" where
  "time_ok now t \<longleftrightarrow>
     100 \<le> year_of_day (t div 86400000) \<and> year_of_day (t div 86400000) \<le> 9999 \<and> t \<le> now + FUTURE_SKEW_MS"

text \<open>The record of a span, with its parts named.\<close>

definition assembled :: "exporter_env \<Rightarrow> exported_span \<Rightarrow> contribution \<Rightarrow> fields \<Rightarrow> fields" where
  "assembled e s c who =
     (let timing = spanTiming e (startTime s) (endTime s)
      in [(''resource'', JObj (fst c)), (''usage'', fst (snd c)), (''run'', JObj (run_of_span s (snd (snd c)))),
          (''attribution'', JObj who), (''spec_version'', JStr SPEC_VERSION), (''record_id'', JStr (new_uuid e)),
          (''timing'', JObj ((''event_time'', JStr (to_iso (fst timing))) #
             entry ''duration_ms'' (map_option of_int (snd timing))))])"

lemma created_assembled: "createRecord now (new_uuid e) (span_record e s c who) = Some (assembled e s c who)"
  by (simp add: createRecord_def span_record_def assembled_def run_of_span_def Let_def js_simps remove_key_def
      nullish_def coalesce_def)

lemma UUID7_length: "matches UUID7 u \<Longrightarrow> length u = 36"
  unfolding UUID7_def hex_def matches_Cat_Cons matches_Cat_Nil matches_Rep_Cls matches_Str matches_Cls by auto

lemma sat_AllOf:
  assumes "sat (Obj [Type ts, Closed, Required req, Properties ps]) v" "list_all (\<lambda>s. sat s v) ss"
  shows "sat (Obj [Type ts, Closed, Required req, Properties ps, AllOf ss]) v"
proof -
  have "undeclared [Type ts, Closed, Required req, Properties ps, AllOf ss] =
      undeclared [Type ts, Closed, Required req, Properties ps]"
    by (rule ext) (simp add: undeclared_def)
  then show ?thesis using assms by simp
qed

lemma spanTiming_duration: "snd (spanTiming e a b) = Some d \<Longrightarrow> 0 \<le> d"
  by (auto simp: spanTiming_def Let_def split: option.splits if_splits)

text \<open>The properties of a record, and what a record that is put together from valid parts meets.\<close>

definition root_properties :: "(string \<times> schema) list" where
  "root_properties =
    [(''spec_version'', Obj [Type [''string''], Pattern pattern4]), (''record_id'', Ident),
     (''emitter'', emitter_schema), (''corrects'', Ident), (''timing'', timing_schema),
     (''resource'', resource_schema), (''run'', run_schema),
     (''attribution'', attribution_schema), (''usage'', usage_schema), (''cost'', cost_schema)]"

lemma root_schema:
  "schema31 = Obj [Type [''object''], Closed, Required root_required, Properties root_properties, AllOf [model_branch, tool_branch]]"
  by (simp add: schema31_def root_properties_def)

lemma distinct_root_properties: "distinct (map fst root_properties)"
  by (simp add: root_properties_def)

lemma record_conforms:
  assumes parts: "list_all (fits root_properties) kvs" "distinct (map fst kvs)" "set root_required \<subseteq> fst ` set kvs"
    and shape: "field kvs ''resource'' = JObj R" "field kvs ''usage'' = JObj U"
      "field kvs ''cost'' = JUndef \<or> (\<exists>C. field kvs ''cost'' = JObj C \<and> field C ''tool'' = JUndef \<and> model_shape R U)"
      "model_shape R U \<or> tool_shape R U"
    and identity: "field kvs ''record_id'' = JStr u" "matches UUID7 u" "field kvs ''corrects'' = JUndef"
    and time: "field kvs ''timing'' = JObj T" "field T ''event_time'' = JStr (to_iso t)" "field T ''received_time'' = JUndef"
      "time_ok now t"
    and trace: "\<forall>i. text_field (field kvs ''run'') ''trace_id'' = Some i \<longrightarrow> matches TRACE_ID i"
    and who: "field kvs ''attribution'' = JObj who" "attribution_ok who" "field who ''environment'' \<noteq> JUndef"
  shows "conforms (JObj kvs) (Some now)"
proof -
  have d: "jget (JObj kvs) k = field kvs k" for k by (simp add: js_simps)
  have root: "sat (Obj [Type [''object''], Closed, Required root_required, Properties root_properties]) (JObj kvs)"
    by (rule sat_fits [OF parts(1,2) distinct_root_properties parts(3)])
  from branches_valid [of "JObj kvs" R U, unfolded d, OF shape] have valid: "sat schema31 (JObj kvs)"
    unfolding root_schema by (intro sat_AllOf root) simp
  have parse: "parse_timestamp (to_iso t) = Some \<lparr>epochMs = t, fraction = p3 (nat (t mod 86400000) mod 1000)\<rparr>"
    by (rule parse_to_iso) (use time(4) in \<open>simp_all add: time_ok_def\<close>)
  have event: "jget (jget (JObj kvs) ''timing'') ''event_time'' = JStr (to_iso t)" by (simp add: d time(1,2) js_simps)
  have "formats_ok (JObj kvs)"
    unfolding formats_ok_def d using trace identity time(1-3) parse by (simp add: text_field_def d js_simps)
  moreover have "event_time_of (JObj kvs) = Some \<lparr>epochMs = t, fraction = p3 (nat (t mod 86400000) mod 1000)\<rparr>"
    by (simp add: event_time_of_def event parse)
  then have "prose_ok (JObj kvs) (Some now)"
    unfolding prose_ok_def d who(1) using who(2,3) time(4)
    by (auto simp: time_ok_def attribution_ok_def text_field_def js_simps p3_facts(1) split: jsval.splits)
  ultimately show ?thesis using valid by (simp add: conforms_def)
qed

text \<open>The parts the client and \<open>createRecord\<close> fill in.\<close>

lemma filled_parts:
  assumes "matches UUID7 u"
  shows "sat Ident (JStr u)" "sat (Obj [Type [''string''], Pattern pattern4]) (JStr SPEC_VERSION)"
proof -
  show "sat Ident (JStr u)" using UUID7_length [OF assms] by simp
  show "sat (Obj [Type [''string''], Pattern pattern4]) (JStr SPEC_VERSION)" by code_simp
qed

lemma assembled_conforms:
  assumes c: "contribution_ok c" and who: "attribution_ok who" "field who ''environment'' \<noteq> JUndef" and em: "emitter_ok em"
    and span: "8 \<le> length (traceId s)" "length (traceId s) \<le> 64" "sp_id s \<noteq> []"
    and u: "matches UUID7 (new_uuid e)" and t: "time_ok now (fst (spanTiming e (startTime s) (endTime s)))"
  shows "conforms (JObj (assembled e s c who @ [(''emitter'', em)])) (Some now)"
proof -
  let ?t = "fst (spanTiming e (startTime s) (endTime s))"
  let ?T = "(''event_time'', JStr (to_iso ?t)) # entry ''duration_ms'' (map_option of_int (snd (spanTiming e (startTime s) (endTime s))))"
  have timing: "sat timing_schema (JObj ?T)"
    by (rule timing_valid) (use t spanTiming_duration in \<open>auto simp: time_ok_def\<close>)
  have run: "sat run_schema (JObj (run_of_span s (snd (snd c))))"
    by (rule run_valid [OF span]) (use c in \<open>simp add: contribution_ok_def\<close>)
  have trace: "matches TRACE_ID i" if "text_field (JObj (run_of_span s x)) ''trace_id'' = Some i" for i x
    using that by (cases "some_text (sp_parent s)"; cases "errorInfo s = JUndef")
      (auto simp: text_field_def run_of_span_def js_simps opt_text_def TRACE_ID_def W3C_TRACE_ID_def hex_def split: if_splits)
  obtain U where U: "fst (snd c) = JObj U" "model_shape (fst c) U \<or> tool_shape (fst c) U"
    using c by (auto simp: contribution_ok_def)
  have "em \<noteq> JUndef" using em by (auto simp: emitter_ok_def)
  then have fits: "list_all (fits root_properties) (assembled e s c who @ [(''emitter'', em)])"
    using c who em timing run filled_parts [OF u]
    by (simp del: sat.simps sat_texts add: fits_def assembled_def Let_def contribution_ok_def attribution_ok_def
      emitter_ok_def root_properties_def) auto
  show ?thesis
    by (rule record_conforms [OF fits _ _ _ _ _ U(2), where T = ?T and t = ?t and u = "new_uuid e" and who = who])
      (use U(1) u t who trace in \<open>simp_all add: assembled_def Let_def root_required_def entry_def split: option.split\<close>)
qed

lemma handed_assembled:
  assumes "exports (exportTracingEvent e ''span_ended'' s st) = exports st @ [r]"
  shows "\<exists>c who. contribution_ok c \<and> resolveAttribution (sp_metadata s) (attribution_defaults st) = Some who \<and>
    r = assembled e s c who"
proof -
  define st0 where "st0 = trackDelegationChild s st"
  have st0: "exports st0 = exports st" "attribution_defaults st0 = attribution_defaults st"
    by (simp_all add: st0_def trackDelegationChild_sets)
  have new: "exports (fst (record_span e s st0)) = exports st0 @ [r]"
    using assms export_ended(3) [of e s st "fst (record_span e s st0)" "snd (record_span e s st0)"] st0
    by (simp add: st0_def)
  then have type: "sp_type s \<in> set METERED_SPAN_TYPES" by (simp add: record_span_def split: if_splits)
  obtain m st1 where m: "meter s st0 = (m, st1)" by fastforce
  have "m \<noteq> None" using new type meter_frame [OF m] by (cases m) (simp_all add: record_span_def m)
  then obtain c where c: "meter s st0 = (Some c, st1)" using m by blast
  note f = meter_frame [OF c]
  obtain who where who: "resolveAttribution (sp_metadata s) (attribution_defaults st) = Some who"
    using new f st0(2) type c
    by (cases "resolveAttribution (sp_metadata s) (attribution_defaults st)") (auto simp: record_span_def)
  have "exports (fst (record_span e s st0)) = exports st0 @ [assembled e s c who]"
    using f st0(2) type c who by (simp add: record_span_def created_assembled Let_def split: answered.split)
  then have "r = assembled e s c who" using new by simp
  then show ?thesis using who meter_ok [OF c type] by blast
qed



end
