(* ===== verification/Telemetry.thy ===== *)
theory Telemetry
  imports Diagnostics
begin

text \<open>
  \<open>adapters/vercel-ai/typescript/src/runs.ts\<close> and \<open>telemetry.ts\<close>: the telemetry hooks of the
  AI SDK as a state machine. An event carries the fields the hook reads. What the hook takes
  from its surroundings is in an \<open>env\<close>: the clock, a fresh UUID, \<open>performance.now()\<close>, what the
  host's client answers, and the tool spans of the async context. The step counter that a run's calls share is an address in the store
  \<open>next_step\<close>.
\<close>

section \<open>Calls\<close>

record tracked =
  callId :: string
  runId :: string
  operationId :: string
  parentSpanId :: "string option"
  call_attribution :: fields
  runType :: string
  call_name :: "string option"
  steps_at :: nat
  modelCalls :: nat
  rerankCalls :: nat
  toolCalls :: nat
  openToolSpans :: "(string \<times> string) list"
  embedStartTimes :: "(string \<times> rat) list"
  rerankStartedAt :: "rat option"

record tool_span =
  span_call :: tracked
  span_id :: string

text \<open>
  \<open>next_step\<close> is the store of step counters. \<open>submitted\<close> lists what was handed to
  \<open>client.record()\<close>, each with the address of its run's counter, and \<open>issued\<close> the spans
  \<open>executeTool\<close> ever ran a tool in: both for the proofs only, the code keeps neither.
\<close>

record telemetry =
  calls :: "(string \<times> tracked) list"
  next_step :: "nat list"
  warned :: "string list"
  diagnostics :: "string list"
  submitted :: "(nat \<times> fields) list"
  issued :: "tool_span list"

definition new_telemetry :: telemetry where
  "new_telemetry = \<lparr>calls = [], next_step = [], warned = [], diagnostics = [], submitted = [], issued = []\<rparr>"

definition report :: "string \<Rightarrow> (string \<times> string) list \<Rightarrow> telemetry \<Rightarrow> telemetry" where
  "report what details st = st\<lparr>diagnostics := diagnostics st @ [vercel_diagnostic what details]\<rparr>"

record env =
  clock :: int
  uuid :: string
  perf :: rat
  answer :: answered
  active :: "(bool \<times> tool_span) list"

record telemetry_options =
  attributionDefaults :: "fields option"
  mapResource :: "(string \<Rightarrow> string \<Rightarrow> host_error + jsval) option"

definition get_call :: "string \<Rightarrow> telemetry \<Rightarrow> tracked option" where
  "get_call i st = map_of (calls st) i"

definition set_call :: "tracked \<Rightarrow> telemetry \<Rightarrow> telemetry" where
  "set_call c st = st\<lparr>calls := put (calls st) (callId c) c\<rparr>"

definition end_call :: "string \<Rightarrow> telemetry \<Rightarrow> telemetry" where
  "end_call i st = st\<lparr>calls := filter (\<lambda>p. fst p \<noteq> i) (calls st)\<rparr>"

definition fresh_call :: "string \<Rightarrow> string \<Rightarrow> string \<Rightarrow> string option \<Rightarrow> fields \<Rightarrow> string \<Rightarrow> string option \<Rightarrow> nat \<Rightarrow> tracked" where
  "fresh_call i run operation parent who kind name at_counter =
     \<lparr>callId = i, runId = run, operationId = operation, parentSpanId = parent, call_attribution = who,
      runType = kind, call_name = name, steps_at = at_counter, modelCalls = 0, rerankCalls = 0,
      toolCalls = 0, openToolSpans = [], embedStartTimes = [], rerankStartedAt = None\<rparr>"

definition startRoot :: "string \<Rightarrow> string \<Rightarrow> fields \<Rightarrow> string \<Rightarrow> string option \<Rightarrow> telemetry \<Rightarrow> telemetry" where
  "startRoot i operation who kind name st =
     set_call (fresh_call i i operation None who kind name (length (next_step st)))
       (st\<lparr>next_step := next_step st @ [0]\<rparr>)"

definition startChild :: "string \<Rightarrow> string \<Rightarrow> tool_span \<Rightarrow> telemetry \<Rightarrow> telemetry" where
  "startChild i operation sp st =
     (let parent = span_call sp
      in set_call (fresh_call i (runId parent) operation (Some (span_id sp)) (call_attribution parent)
           (runType parent) (call_name parent) (steps_at parent)) st)"

text \<open>\<open>currentToolSpan\<close>: the innermost span of this tracker. A flag says whether a span is its own.\<close>

definition currentToolSpan :: "(bool \<times> tool_span) list \<Rightarrow> tool_span option" where
  "currentToolSpan spans = map_option snd (find fst (rev spans))"

definition runInToolSpan :: "tool_span \<Rightarrow> (bool \<times> tool_span) list \<Rightarrow> (bool \<times> tool_span) list" where
  "runInToolSpan sp spans = spans @ [(True, sp)]"

definition modelSpanId :: "string \<Rightarrow> nat \<Rightarrow> string" where
  "modelSpanId i index = ''model:'' @ i @ '':'' @ nat_str index"

definition toolSpanId :: "string \<Rightarrow> nat \<Rightarrow> string \<Rightarrow> string" where
  "toolSpanId i index tool = ''tool:'' @ i @ '':'' @ nat_str index @ '':'' @ tool"

definition embedSpanId :: "string \<Rightarrow> string" where
  "embedSpanId i = ''embed:'' @ i"

definition rerankSpanId :: "string \<Rightarrow> nat \<Rightarrow> string" where
  "rerankSpanId i index = ''rerank:'' @ i @ '':'' @ nat_str index"

text \<open>A span identifier, and the call with what changed in it.\<close>

definition openToolSpan :: "tracked \<Rightarrow> string \<Rightarrow> string \<times> tracked" where
  "openToolSpan c tool =
     (let s = toolSpanId (callId c) (toolCalls c) tool
      in (s, c\<lparr>toolCalls := toolCalls c + 1, openToolSpans := put (openToolSpans c) tool s\<rparr>))"

definition toolSpanFor :: "tracked \<Rightarrow> string \<Rightarrow> string \<times> tracked" where
  "toolSpanFor c tool =
     (case map_of (openToolSpans c) tool of Some s \<Rightarrow> (s, c) | None \<Rightarrow> openToolSpan c tool)"

definition closeToolSpan :: "tracked \<Rightarrow> string \<Rightarrow> string \<times> tracked" where
  "closeToolSpan c tool =
     (case toolSpanFor c tool of
        (s, c) \<Rightarrow> (s, c\<lparr>openToolSpans := filter (\<lambda>p. fst p \<noteq> tool) (openToolSpans c)\<rparr>))"

section \<open>Records\<close>

definition UNSUPPORTED_OPERATIONS :: "string list" where
  "UNSUPPORTED_OPERATIONS = [''ai.generateObject'', ''ai.streamObject'']"

definition runTypeFor :: "string \<Rightarrow> string" where
  "runTypeFor operation =
     (if operation \<in> {''ai.generateText'', ''ai.streamText''} then ''agent_run'' else ''single_call'')"

text \<open>\<open>#modelResource\<close>; \<open>mapResource\<close> throws a left value.\<close>

definition modelResource :: "telemetry_options \<Rightarrow> tracked \<Rightarrow> string \<Rightarrow> string \<Rightarrow> string \<Rightarrow> telemetry \<Rightarrow>
    fields option \<times> telemetry" where
  "modelResource opts c provider modelId operation st =
     (case (case mapResource opts of None \<Rightarrow> Inr JUndef | Some f \<Rightarrow> f provider modelId) of
        Inl e \<Rightarrow> (None, report ''MAP_RESOURCE_FAILED'' [(''operation'', operationId c), (''error'', adapterErrorName e)] st)
      | Inr mapped \<Rightarrow>
          (let slug = (if nullish mapped then (case sdk_slug provider of None \<Rightarrow> JUndef | Some s \<Rightarrow> JStr s)
                 else jget mapped ''provider'')
           in if \<not> isProviderSlug slug
              then (None, report ''PROVIDER_UNMAPPED'' [(''operation'', operationId c)] st)
              else (Some [(''provider'', slug), (''type'', JStr ''model''),
                      (''name'', coalesce (jget mapped ''name'') (JStr modelId)),
                      (''operation'', JStr operation)], st)))"

text \<open>The input of \<open>createRecord\<close>, with the step the counter gives.\<close>

definition record_input :: "tracked \<Rightarrow> nat \<Rightarrow> string \<Rightarrow> rat option \<Rightarrow> fields \<Rightarrow> jsval \<Rightarrow> string option \<Rightarrow> fields" where
  "record_input c step sp duration resource usage errorCode =
     [(''timing'', JObj (entry ''duration_ms'' duration)), (''resource'', JObj resource), (''usage'', usage),
      (''run'', JObj
        ([(''run_id'', JStr (runId c)), (''span_id'', JStr sp), (''step'', JNum (Fin (of_nat step))),
          (''run_type'', JStr (runType c))] @
         opt_text ''parent_span_id'' (parentSpanId c) @ opt_text ''name'' (call_name c) @
         opt_text ''error_code'' errorCode)),
      (''attribution'', JObj (call_attribution c))]"

text \<open>\<open>#record\<close>; an error is the second component.\<close>

definition submit_record :: "env \<Rightarrow> tracked \<Rightarrow> string \<Rightarrow> rat option \<Rightarrow> fields \<Rightarrow> jsval \<Rightarrow> string option \<Rightarrow>
    telemetry \<Rightarrow> telemetry \<times> host_error option" where
  "submit_record e c sp duration resource usage errorCode st =
     (let step = next_step st ! steps_at c;
          st = st\<lparr>next_step := (next_step st)[steps_at c := step + 1]\<rparr>
      in case createRecord (clock e) (uuid e) (record_input c step sp duration resource usage errorCode) of
           None \<Rightarrow> (st, Some TYPE_ERROR)
         | Some r \<Rightarrow>
             (let st = st\<lparr>submitted := submitted st @ [(steps_at c, r)]\<rparr>
              in case answer e of
                   RecordThrew w \<Rightarrow> (st, Some w)
                 | RecordAnswered queued outcome found \<Rightarrow>
                     (if queued then st
                      else report ''RECORD_NOT_QUEUED''
                        ((''operation'', operationId c) # not_queued outcome found) st,
                      None)))"

section \<open>Hooks\<close>

datatype hook =
    Start string string "string option" jsval
  | ModelCallEnd string string string jsval jsval
  | ToolStart string string
  | ToolEnd string string string jsval bool
  | EmbedStart string string
  | EmbedEnd string string string string jsval
  | RerankStart string
  | RerankEnd string string string
  | Finished string
  | ExecuteTool string string

definition nonEmpty :: "string option \<Rightarrow> string option" where
  "nonEmpty v = (case v of Some s \<Rightarrow> if s = [] then None else Some s | None \<Rightarrow> None)"

definition on_start :: "telemetry_options \<Rightarrow> env \<Rightarrow> string \<Rightarrow> string \<Rightarrow> string option \<Rightarrow> jsval \<Rightarrow> telemetry \<Rightarrow> telemetry" where
  "on_start opts e i operation function_id context' st =
     (if operation \<in> set UNSUPPORTED_OPERATIONS
      then if operation \<in> set (warned st) then st
           else report ''OPERATION_UNSUPPORTED'' [(''operation'', operation)] (st\<lparr>warned := warned st @ [operation]\<rparr>)
      else case currentToolSpan (active e) of
        Some sp \<Rightarrow> startChild i operation sp st
      | None \<Rightarrow>
          (case resolveAttribution context' (attributionDefaults opts) of
             None \<Rightarrow> report ''ATTRIBUTION_UNRESOLVED'' [(''operation'', operation)] st
           | Some who \<Rightarrow> startRoot i operation who (runTypeFor operation) (nonEmpty function_id) st))"

definition llm_block :: "jsval \<Rightarrow> jsval" where
  "llm_block u = JObj [(''llm'', u)]"

definition text_model :: "fields \<Rightarrow> fields" where
  "text_model resource = resource @ [(''modality'', JStr ''text'')]"

definition on_model_end :: "telemetry_options \<Rightarrow> env \<Rightarrow> string \<Rightarrow> string \<Rightarrow> string \<Rightarrow> jsval \<Rightarrow> jsval \<Rightarrow>
    telemetry \<Rightarrow> telemetry \<times> host_error option" where
  "on_model_end opts e i provider modelId response_time usage st =
     (case get_call i st of
        None \<Rightarrow> (st, None)
      | Some c \<Rightarrow>
          (case modelResource opts c provider modelId ''generation'' st of
             (None, st) \<Rightarrow> (st, None)
           | (Some resource, st) \<Rightarrow>
               (let sp = modelSpanId i (modelCalls c);
                    c = c\<lparr>modelCalls := modelCalls c + 1\<rparr>;
                    st = set_call c st
                in case vercel_usage usage of
                     None \<Rightarrow> (st, Some TYPE_ERROR)
                   | Some u \<Rightarrow> submit_record e c sp (durationMs response_time) (text_model resource)
                       (llm_block (usage_json u)) None st)))"

definition on_tool_start :: "string \<Rightarrow> string \<Rightarrow> telemetry \<Rightarrow> telemetry" where
  "on_tool_start i tool st =
     (case get_call i st of None \<Rightarrow> st | Some c \<Rightarrow> set_call (snd (openToolSpan c tool)) st)"

definition tool_block :: jsval where
  "tool_block = JObj [(''tool'', JObj [(''type'', JStr ''invocation''), (''call_count'', JNum (Fin 1))])]"

definition tool_resource :: "string \<Rightarrow> fields" where
  "tool_resource name = [(''provider'', JStr ''self-hosted''), (''type'', JStr ''tool''), (''name'', JStr name),
     (''operation'', JStr ''tool_execution'')]"

definition on_tool_end :: "env \<Rightarrow> string \<Rightarrow> string \<Rightarrow> string \<Rightarrow> jsval \<Rightarrow> bool \<Rightarrow> telemetry \<Rightarrow> telemetry \<times> host_error option" where
  "on_tool_end e i tool name took is_error st =
     (case get_call i st of
        None \<Rightarrow> (st, None)
      | Some c \<Rightarrow>
          (case closeToolSpan c tool of
             (sp, c) \<Rightarrow>
               submit_record e c sp (durationMs took) (tool_resource name) tool_block
                 (if is_error then Some ''VERCEL_AI_TOOL_ERROR'' else None) (set_call c st)))"

definition elapsedSince :: "env \<Rightarrow> rat option \<Rightarrow> rat option" where
  "elapsedSince e started = (case started of None \<Rightarrow> None | Some t \<Rightarrow> durationMs (JNum (Fin (perf e - t))))"

definition on_embed_start :: "env \<Rightarrow> string \<Rightarrow> string \<Rightarrow> telemetry \<Rightarrow> telemetry" where
  "on_embed_start e i embedding st =
     (case get_call i st of
        None \<Rightarrow> st
      | Some c \<Rightarrow> set_call (c\<lparr>embedStartTimes := put (embedStartTimes c) embedding (perf e)\<rparr>) st)"

definition on_embed_end :: "telemetry_options \<Rightarrow> env \<Rightarrow> string \<Rightarrow> string \<Rightarrow> string \<Rightarrow> string \<Rightarrow> jsval \<Rightarrow>
    telemetry \<Rightarrow> telemetry \<times> host_error option" where
  "on_embed_end opts e i embedding provider modelId tokens st =
     (case get_call i st of
        None \<Rightarrow> (st, None)
      | Some c \<Rightarrow>
          (let started = map_of (embedStartTimes c) embedding;
               c = c\<lparr>embedStartTimes := filter (\<lambda>p. fst p \<noteq> embedding) (embedStartTimes c)\<rparr>;
               st = set_call c st
           in case modelResource opts c provider modelId ''embedding'' st of
                (None, st) \<Rightarrow> (st, None)
              | (Some resource, st) \<Rightarrow>
                  submit_record e c (embedSpanId embedding) (elapsedSince e started) (text_model resource)
                    (llm_block (usage_json (no_usage\<lparr>input_tokens := counter tokens\<rparr>))) None st))"

definition on_rerank_start :: "env \<Rightarrow> string \<Rightarrow> telemetry \<Rightarrow> telemetry" where
  "on_rerank_start e i st =
     (case get_call i st of None \<Rightarrow> st | Some c \<Rightarrow> set_call (c\<lparr>rerankStartedAt := Some (perf e)\<rparr>) st)"

definition on_rerank_end :: "telemetry_options \<Rightarrow> env \<Rightarrow> string \<Rightarrow> string \<Rightarrow> string \<Rightarrow>
    telemetry \<Rightarrow> telemetry \<times> host_error option" where
  "on_rerank_end opts e i provider modelId st =
     (case get_call i st of
        None \<Rightarrow> (st, None)
      | Some c \<Rightarrow>
          (let started = rerankStartedAt c;
               c = c\<lparr>rerankStartedAt := None\<rparr>;
               st = set_call c st
           in case modelResource opts c provider modelId ''reranking'' st of
                (None, st) \<Rightarrow> (st, None)
              | (Some resource, st) \<Rightarrow>
                  (let sp = rerankSpanId i (rerankCalls c); c = c\<lparr>rerankCalls := rerankCalls c + 1\<rparr>
                   in submit_record e c sp (elapsedSince e started) (text_model resource)
                        (llm_block (usage_json no_usage)) None (set_call c st))))"

text \<open>\<open>executeTool\<close>: the context the tool runs in, with its span when the call is tracked.\<close>

definition execute_tool :: "env \<Rightarrow> string \<Rightarrow> string \<Rightarrow> telemetry \<Rightarrow> (bool \<times> tool_span) list \<times> telemetry" where
  "execute_tool e i tool st =
     (case get_call i st of
        None \<Rightarrow> (active e, st)
      | Some c \<Rightarrow>
          (case toolSpanFor c tool of
             (s, c) \<Rightarrow>
               (let sp = \<lparr>span_call = c, span_id = s\<rparr>
                in (runInToolSpan sp  (active e), (set_call c st)\<lparr>issued := issued st @ [sp]\<rparr>))))"

text \<open>\<open>#guard\<close>: an error is reported under the name of its hook and goes no further.\<close>

definition guard :: "string \<Rightarrow> telemetry \<times> host_error option \<Rightarrow> telemetry" where
  "guard name r =
     (case r of (st, None) \<Rightarrow> st
      | (st, Some w) \<Rightarrow> report ''HOOK_FAILED'' [(''hook'', name), (''error'', adapterErrorName w)] st)"

fun perform_hook :: "telemetry_options \<Rightarrow> env \<Rightarrow> hook \<Rightarrow> telemetry \<Rightarrow> telemetry" where
  "perform_hook opts e (Start i operation function_id context') st = on_start opts e i operation function_id context' st"
| "perform_hook opts e (ModelCallEnd i provider modelId time usage) st =
     guard ''onLanguageModelCallEnd'' (on_model_end opts e i provider modelId time usage st)"
| "perform_hook opts e (ToolStart i tool) st = on_tool_start i tool st"
| "perform_hook opts e (ToolEnd i tool name took is_error) st =
     guard ''onToolExecutionEnd'' (on_tool_end e i tool name took is_error st)"
| "perform_hook opts e (EmbedStart i embedding) st = on_embed_start e i embedding st"
| "perform_hook opts e (EmbedEnd i embedding provider modelId tokens) st =
     guard ''onEmbedEnd'' (on_embed_end opts e i embedding provider modelId tokens st)"
| "perform_hook opts e (RerankStart i) st = on_rerank_start e i st"
| "perform_hook opts e (RerankEnd i provider modelId) st =
     guard ''onRerankEnd'' (on_rerank_end opts e i provider modelId st)"
| "perform_hook opts e (Finished i) st = end_call i st"
| "perform_hook opts e (ExecuteTool i tool) st = snd (execute_tool e i tool st)"

text \<open>
  What the adapter can come to: any hooks in any order and any surroundings, where a span of
  the async context that is the tracker's own is one it has issued.
\<close>

inductive telemetry_run :: "telemetry_options \<Rightarrow> telemetry \<Rightarrow> bool" for opts where
  new: "telemetry_run opts new_telemetry"
| hook: "telemetry_run opts st \<Longrightarrow> \<forall>(mine, s) \<in> set (active e). mine \<longrightarrow> s \<in> set (issued st) \<Longrightarrow>
    telemetry_run opts (perform_hook opts e h st)"

section \<open>Runs\<close>

text \<open>What all records of a run have in common, beside the address of its counter.\<close>

type_synonym run_key = "nat \<times> jsval \<times> jsval \<times> jsval \<times> jsval"

definition call_key :: "tracked \<Rightarrow> run_key" where
  "call_key c = (steps_at c, JStr (runId c), JObj (call_attribution c), JStr (runType c),
     (case call_name c of None \<Rightarrow> JUndef | Some n \<Rightarrow> JStr n))"

definition record_key :: "nat \<times> fields \<Rightarrow> run_key" where
  "record_key q =
     (let run = field (snd q) ''run''
      in (fst q, jget run ''run_id'', field (snd q) ''attribution'', jget run ''run_type'', jget run ''name''))"

definition run_keys :: "telemetry \<Rightarrow> run_key set" where
  "run_keys st = call_key ` (snd ` set (calls st) \<union> span_call ` set (issued st)) \<union> record_key ` set (submitted st)"

definition run_steps :: "nat \<Rightarrow> telemetry \<Rightarrow> jsval list" where
  "run_steps a st = map (\<lambda>q. jget (field (snd q) ''run'') ''step'') (filter (\<lambda>q. fst q = a) (submitted st))"

definition count_up :: "nat \<Rightarrow> jsval list" where
  "count_up n = map (\<lambda>i. JNum (Fin (of_nat i))) [0..<n]"

definition runs_ok :: "telemetry \<Rightarrow> bool" where
  "runs_ok st \<longleftrightarrow>
     inj_on fst (run_keys st) \<and> fst ` run_keys st \<subseteq> {..<length (next_step st)} \<and>
     (\<forall>a < length (next_step st). run_steps a st = count_up (next_step st ! a))"

lemma runs_ok_quiet:
  assumes "runs_ok st" "run_keys st' \<subseteq> run_keys st" "next_step st' = next_step st" "submitted st' = submitted st"
  shows "runs_ok st'"
  using assms by (auto simp: runs_ok_def run_steps_def intro: inj_on_subset)

lemma report_frame [simp]:
  "run_keys (report what details st) = run_keys st" "next_step (report what details st) = next_step st"
  "submitted (report what details st) = submitted st" "calls (report what details st) = calls st"
  "issued (report what details st) = issued st"
  by (simp_all add: report_def run_keys_def)

lemma runs_ok_report [simp]: "runs_ok (report what details st) = runs_ok st"
  by (simp add: runs_ok_def run_steps_def)

lemma runs_ok_guard: "runs_ok (fst r) \<Longrightarrow> runs_ok (guard name r)"
  by (auto simp: guard_def split: prod.splits option.splits)

lemma set_put_subset: "set (put kvs k v) \<subseteq> insert (k, v) (set kvs)"
  by (induction kvs k v rule: put.induct) auto

lemma set_call_frame [simp]:
  "next_step (set_call c st) = next_step st" "submitted (set_call c st) = submitted st"
  by (simp_all add: set_call_def)

lemma set_put_values: "snd ` set (put kvs k v) \<subseteq> insert v (snd ` set kvs)"
  using image_mono [OF set_put_subset, of snd kvs k v] by simp

lemma run_keys_set_call: "run_keys (set_call c st) \<subseteq> insert (call_key c) (run_keys st)"
proof -
  let ?issued = "call_key ` span_call ` set (issued st) \<union> record_key ` set (submitted st)"
  have "run_keys (set_call c st) = call_key ` snd ` set (put (calls st) (callId c) c) \<union> ?issued"
    by (simp add: run_keys_def set_call_def image_Un Un_assoc del: Un_iff)
  also have "\<dots> \<subseteq> insert (call_key c) (call_key ` snd ` set (calls st)) \<union> ?issued"
    using image_mono [OF set_put_values, of call_key "calls st" "callId c" c] by (intro Un_mono) simp_all
  also have "\<dots> = insert (call_key c) (run_keys st)"
    by (simp only: run_keys_def image_Un Un_insert_left Un_assoc)
  finally show ?thesis .
qed

lemma get_call_key: "get_call i st = Some c \<Longrightarrow> call_key c \<in> run_keys st"
  by (force simp: get_call_def run_keys_def dest: map_of_SomeD)

lemma runs_ok_set_call:
  assumes "runs_ok st" "call_key c \<in> run_keys st"
  shows "runs_ok (set_call c st)"
  by (rule runs_ok_quiet [OF assms(1)]) (use run_keys_set_call [of c st] assms(2) in auto)

text \<open>What changes in a call leaves its key as it is.\<close>

lemma call_key_updates [simp]:
  "call_key (c\<lparr>modelCalls := n\<rparr>) = call_key c" "call_key (c\<lparr>rerankCalls := n\<rparr>) = call_key c"
  "call_key (c\<lparr>toolCalls := n\<rparr>) = call_key c" "call_key (c\<lparr>openToolSpans := kvs\<rparr>) = call_key c"
  "call_key (c\<lparr>embedStartTimes := ts\<rparr>) = call_key c" "call_key (c\<lparr>rerankStartedAt := t\<rparr>) = call_key c"
  by (simp_all add: call_key_def)

lemma tool_span_key [simp]:
  "call_key (snd (openToolSpan c tool)) = call_key c" "call_key (snd (toolSpanFor c tool)) = call_key c"
  "call_key (snd (closeToolSpan c tool)) = call_key c"
  by (simp_all add: openToolSpan_def toolSpanFor_def closeToolSpan_def Let_def split: option.splits prod.splits)
   
lemma modelResource_state: "modelResource opts c provider modelId operation st = (r, st') \<Longrightarrow>
    run_keys st' = run_keys st \<and> next_step st' = next_step st \<and> submitted st' = submitted st \<and> runs_ok st' = runs_ok st"
  by (auto simp: modelResource_def Let_def split: sum.splits if_splits)

subsection \<open>A record of a run\<close>

lemma createRecord_input:
  "\<exists>r. createRecord now u (record_input c step sp d resource usage ec) = Some r \<and>
    (\<forall>k. k \<notin> {''spec_version'', ''record_id'', ''timing''} \<longrightarrow>
      field r k = field (record_input c step sp d resource usage ec) k)"
proof -
  have "jget (field (record_input c step sp d resource usage ec) ''timing'') ''event_time'' = JUndef"
    by (cases d) (simp_all add: record_input_def entry_def jget_simps)
  then show ?thesis by (auto simp: createRecord_def Let_def nullish_def)
qed

lemma input_key:
  assumes "\<forall>k. k \<notin> {''spec_version'', ''record_id'', ''timing''} \<longrightarrow>
      field r k = field (record_input c step sp d resource usage ec) k"
  shows "record_key (steps_at c, r) = call_key c" "jget (field r ''run'') ''step'' = JNum (Fin (of_nat step))"
proof -
  have run: "field r ''run'' = field (record_input c step sp d resource usage ec) ''run''"
    and attribution: "field r ''attribution'' = JObj (call_attribution c)"
    using assms by (simp_all add: record_input_def)
  show "record_key (steps_at c, r) = call_key c" "jget (field r ''run'') ''step'' = JNum (Fin (of_nat step))"
    unfolding record_key_def call_key_def Let_def fst_conv snd_conv run attribution
    by (cases "parentSpanId c"; cases "call_name c"; cases ec; simp add: record_input_def opt_text_def jget_simps)+
qed

lemma runs_ok_counter:
  assumes "runs_ok st" "call_key c \<in> run_keys st"
  shows "steps_at c < length (next_step st)"
proof -
  have "fst (call_key c) \<in> {..<length (next_step st)}"
    using assms(1) imageI [OF assms(2), of fst] unfolding runs_ok_def by (elim conjE) (rule subsetD)
  then show ?thesis by (simp add: call_key_def)
qed

lemma submit_record_ok:
  assumes "runs_ok st" "call_key c \<in> run_keys st"
  shows "runs_ok (fst (submit_record e c sp d resource usage ec st))"
proof -
  let ?a = "steps_at c"
  let ?step = "next_step st ! ?a"
  obtain r where r: "createRecord (clock e) (uuid e) (record_input c ?step sp d resource usage ec) = Some r"
    and same: "\<forall>k. k \<notin> {''spec_version'', ''record_id'', ''timing''} \<longrightarrow>
      field r k = field (record_input c ?step sp d resource usage ec) k"
    using createRecord_input [of "clock e" "uuid e" c ?step sp d resource usage ec] by (elim exE conjE)
  note k = input_key [OF same]
  define st' where "st' = st\<lparr>next_step := (next_step st)[?a := ?step + 1], submitted := submitted st @ [(?a, r)]\<rparr>"
  have a: "?a < length (next_step st)" by (rule runs_ok_counter [OF assms])
  have "run_keys st' = insert (record_key (?a, r)) (run_keys st)"
    by (simp add: run_keys_def st'_def)
  then have "run_keys st' = run_keys st" using assms(2) unfolding k(1) by (simp add: insert_absorb)
  moreover have "run_steps b st' = count_up (next_step st' ! b)" if "b < length (next_step st)" for b
  proof -
    have "run_steps b st' = run_steps b st @ (if b = ?a then [JNum (Fin (of_nat ?step))] else [])"
      using k(2) by (simp add: run_steps_def st'_def)
    moreover have "run_steps b st = count_up (next_step st ! b)" using assms(1) that by (simp add: runs_ok_def)
    ultimately show ?thesis using a by (simp add: st'_def count_up_def)
  qed
  ultimately have "runs_ok st'" using assms(1) by (simp add: runs_ok_def st'_def)
  then show ?thesis
    unfolding submit_record_def Let_def r by (simp add: st'_def split: answered.splits option.splits)
qed

subsection \<open>Runs that start\<close>

lemma runs_ok_new_run:
  assumes ok: "runs_ok st" and c: "steps_at c = length (next_step st)"
  shows "runs_ok (set_call c (st\<lparr>next_step := next_step st @ [0]\<rparr>))"
proof -
  let ?n = "length (next_step st)"
  define st0 where "st0 = st\<lparr>next_step := next_step st @ [0]\<rparr>"
  define st' where "st' = set_call c st0"
  have frame: "next_step st' = next_step st @ [0]" "submitted st' = submitted st" "run_keys st0 = run_keys st"
    by (simp_all add: st'_def st0_def run_keys_def)
  have keys: "run_keys st' \<subseteq> insert (call_key c) (run_keys st)"
    using run_keys_set_call [of c st0] unfolding st'_def frame(3) .
  have old: "fst ` run_keys st \<subseteq> {..<?n}" and inj: "inj_on fst (run_keys st)"
    and steps: "\<forall>a < ?n. run_steps a st = count_up (next_step st ! a)"
    using ok by (simp_all add: runs_ok_def)
  have "fst (call_key c) \<notin> fst ` run_keys st" using old c by (auto simp: call_key_def)
  then have "inj_on fst (insert (call_key c) (run_keys st))"
    using inj inj_on_insert [of fst "call_key c" "run_keys st"]
      image_mono [of "run_keys st - {call_key c}" "run_keys st" fst] by (simp add: subset_iff) blast
  then have inj': "inj_on fst (run_keys st')" by (rule inj_on_subset [OF _ keys])
  have "fst ` run_keys st' \<subseteq> insert (fst (call_key c)) (fst ` run_keys st)"
    using image_mono [OF keys, of fst] by (simp only: image_insert)
  also have "\<dots> \<subseteq> {..<length (next_step st')}"
    using old c by (auto simp: frame(1) call_key_def)
  finally have range: "fst ` run_keys st' \<subseteq> {..<length (next_step st')}" .
  have "run_steps ?n st = []"
  proof -
    have old_run: "fst q < ?n" if "q \<in> set (submitted st)" for q
    proof -
      have "fst (record_key q) \<in> fst ` run_keys st" using that by (simp add: run_keys_def)
      then have "fst (record_key q) \<in> {..<?n}" by (rule subsetD [OF old])
      then show ?thesis by (simp add: record_key_def Let_def)
    qed
    have "filter (\<lambda>q. fst q = ?n) (submitted st) = []"
      unfolding filter_empty_conv using old_run by (metis less_irrefl)
    then show ?thesis by (simp add: run_steps_def)
  qed
  then have "run_steps a st' = count_up (next_step st' ! a)" if "a < length (next_step st')" for a
    using steps that by (cases "a < ?n") (simp_all add: run_steps_def frame count_up_def nth_append less_Suc_eq)
  then show ?thesis using inj' range unfolding st0_def [symmetric] st'_def [symmetric] runs_ok_def by blast
qed

lemma startRoot_ok: "runs_ok st \<Longrightarrow> runs_ok (startRoot i operation who kind name st)"
  unfolding startRoot_def by (rule runs_ok_new_run) (simp_all add: fresh_call_def)

lemma startChild_ok:
  assumes "runs_ok st" "sp \<in> set (issued st)"
  shows "runs_ok (startChild i operation sp st)"
proof -
  have "call_key (fresh_call i (runId (span_call sp)) operation (Some (span_id sp)) (call_attribution (span_call sp))
      (runType (span_call sp)) (call_name (span_call sp)) (steps_at (span_call sp))) = call_key (span_call sp)"
    by (simp add: call_key_def fresh_call_def)
  moreover have "call_key (span_call sp) \<in> run_keys st"
    using assms(2) by (auto simp: run_keys_def)
  ultimately show ?thesis unfolding startChild_def Let_def by (intro runs_ok_set_call assms(1)) simp
qed

subsection \<open>Every hook\<close>

text \<open>A hook that finds its call, changes it and then submits a record.\<close>

lemma put_value: "v \<in> snd ` set (put kvs k v)"
  by (induction kvs k v rule: put.induct) simp_all

lemma set_call_key:
  assumes "call_key c' = call_key c"
  shows "call_key c \<in> run_keys (set_call c' st)"
proof -
  have "call_key c' \<in> call_key ` snd ` set (put (calls st) (callId c') c')"
    by (rule imageI) (rule put_value)
  then show ?thesis unfolding run_keys_def set_call_def image_Un assms by (intro UnI1) simp
qed

lemma get_call_ok: "runs_ok st \<Longrightarrow> get_call i st = Some c \<Longrightarrow> call_key c' = call_key c \<Longrightarrow> runs_ok (set_call c' st)"
  by (rule runs_ok_set_call) (simp_all add: get_call_key)

lemma modelResource_ok:
  assumes "modelResource opts c provider modelId operation st = (r, st')"
  shows "runs_ok st' = runs_ok st" "run_keys st' = run_keys st"
  using modelResource_state [OF assms] by simp_all

lemma on_start_ok:
  assumes "runs_ok st" "\<forall>(mine, s) \<in> set (active e). mine \<longrightarrow> s \<in> set (issued st)"
  shows "runs_ok (on_start opts e i operation function_id context' st)"
proof -
  have "s \<in> set (issued st)" if "currentToolSpan (active e) = Some s" for s
  proof -
    obtain p where p: "find fst (rev (active e)) = Some p" and s: "s = snd p"
      using \<open>currentToolSpan (active e) = Some s\<close>
      by (cases "find fst (rev (active e))") (simp_all add: currentToolSpan_def)
    have "p \<in> set (active e)" using find_member [OF p] by simp
    moreover have "fst p" using p by (metis find_Some_iff)
    ultimately show ?thesis using bspec [OF assms(2), of p] unfolding s by (simp add: case_prod_beta)
  qed
  moreover have "runs_ok (st\<lparr>warned := ws\<rparr>)" for ws
    by (rule runs_ok_quiet [OF assms(1)]) (simp_all add: run_keys_def)
  ultimately show ?thesis using assms(1)
    by (simp add: on_start_def startRoot_ok startChild_ok split: option.split)
qed

lemma on_model_end_ok:
  assumes ok: "runs_ok st"
  shows "runs_ok (fst (on_model_end opts e i provider modelId time usage st))"
proof (cases "get_call i st")
  case None then show ?thesis using ok by (simp add: on_model_end_def)
next
  case (Some c)
  obtain r st1 where m: "modelResource opts c provider modelId ''generation'' st = (r, st1)" by fastforce
  have ok1: "runs_ok st1" "call_key c \<in> run_keys st1"
    using modelResource_ok [OF m] ok get_call_key [OF Some] by simp_all
  have "runs_ok (set_call (c\<lparr>modelCalls := n\<rparr>) st1)" for n
    by (rule runs_ok_set_call) (use ok1 in simp_all)
  then show ?thesis using ok1 by (simp add: on_model_end_def Some m Let_def submit_record_ok set_call_key split: option.split)
qed

lemma on_tool_end_ok:
  assumes ok: "runs_ok st"
  shows "runs_ok (fst (on_tool_end e i tool name took is_error st))"
proof (cases "get_call i st")
  case None then show ?thesis using ok by (simp add: on_tool_end_def)
next
  case (Some c)
  obtain sp c' where closed: "closeToolSpan c tool = (sp, c')" by fastforce
  have "call_key c' = call_key c" using tool_span_key(3) [of c tool] by (simp add: closed)
  then show ?thesis
    by (simp add: on_tool_end_def Some closed submit_record_ok get_call_ok [OF ok Some] set_call_key)
qed

lemma on_embed_end_ok:
  assumes ok: "runs_ok st"
  shows "runs_ok (fst (on_embed_end opts e i embedding provider modelId tokens st))"
proof (cases "get_call i st")
  case None then show ?thesis using ok by (simp add: on_embed_end_def)
next
  case (Some c)
  let ?c = "c\<lparr>embedStartTimes := filter (\<lambda>p. fst p \<noteq> embedding) (embedStartTimes c)\<rparr>"
  obtain r st1 where m: "modelResource opts ?c provider modelId ''embedding'' (set_call ?c st) = (r, st1)" by fastforce
  have ok0: "runs_ok (set_call ?c st)" by (rule get_call_ok [OF ok Some]) simp
  have "runs_ok st1" "call_key ?c \<in> run_keys st1" using modelResource_ok [OF m] ok0 set_call_key [of ?c ?c st] by simp_all
  then show ?thesis by (simp add: on_embed_end_def Some m Let_def submit_record_ok split: option.split)
qed

lemma on_rerank_end_ok:
  assumes ok: "runs_ok st"
  shows "runs_ok (fst (on_rerank_end opts e i provider modelId st))"
proof (cases "get_call i st")
  case None then show ?thesis using ok by (simp add: on_rerank_end_def)
next
  case (Some c)
  let ?c = "c\<lparr>rerankStartedAt := None\<rparr>"
  obtain r st1 where m: "modelResource opts ?c provider modelId ''reranking'' (set_call ?c st) = (r, st1)" by fastforce
  have ok0: "runs_ok (set_call ?c st)" by (rule get_call_ok [OF ok Some]) simp
  have ok1: "runs_ok st1" "call_key ?c \<in> run_keys st1" using modelResource_ok [OF m] ok0 set_call_key [of ?c ?c st] by simp_all
  have "runs_ok (set_call (?c\<lparr>rerankCalls := n\<rparr>) st1)" for n
    by (rule runs_ok_set_call) (use ok1 in simp_all)
  then show ?thesis using ok1
    by (simp add: on_rerank_end_def Some m Let_def submit_record_ok set_call_key split: option.split)
qed

lemma execute_tool_ok:
  assumes ok: "runs_ok st"
  shows "runs_ok (snd (execute_tool e i tool st))"
proof (cases "get_call i st")
  case None then show ?thesis using ok by (simp add: execute_tool_def)
next
  case (Some c)
  obtain s c' where s: "toolSpanFor c tool = (s, c')" by fastforce
  have key: "call_key c' = call_key c" using tool_span_key(2) [of c tool] by (simp add: s)
  define sp where "sp = \<lparr>span_call = c', span_id = s\<rparr>"
  define st1 where "st1 = set_call c' st"
  have same: "issued st1 = issued st" by (simp add: st1_def set_call_def)
  have "runs_ok st1" unfolding st1_def by (rule get_call_ok [OF ok Some key])
  have "call_key c' \<in> run_keys st1" unfolding st1_def by (rule set_call_key) simp
  moreover have "run_keys (st1\<lparr>issued := issued st @ [sp]\<rparr>) = insert (call_key c') (run_keys st1)"
    by (simp add: run_keys_def same sp_def)
  ultimately have "run_keys (st1\<lparr>issued := issued st @ [sp]\<rparr>) = run_keys st1" by (simp only: insert_absorb)
  then have "runs_ok (st1\<lparr>issued := issued st @ [sp]\<rparr>)"
    by (intro runs_ok_quiet [OF \<open>runs_ok st1\<close>]) simp_all
  then show ?thesis by (simp add: execute_tool_def Some s Let_def sp_def st1_def)
qed

lemma perform_hook_ok:
  assumes "runs_ok st" "\<forall>(mine, s) \<in> set (active e). mine \<longrightarrow> s \<in> set (issued st)"
  shows "runs_ok (perform_hook opts e h st)"
proof (cases h)
  case (Finished i)
  have "snd ` set (filter (\<lambda>p. fst p \<noteq> i) (calls st)) \<subseteq> snd ` set (calls st)"
    by (rule image_mono) (rule filter_is_subset)
  then have "call_key ` snd ` set (filter (\<lambda>p. fst p \<noteq> i) (calls st)) \<subseteq> call_key ` snd ` set (calls st)"
    by (rule image_mono)
  then have "run_keys (end_call i st) \<subseteq> run_keys st"
    unfolding run_keys_def image_Un by (intro Un_mono) (simp_all add: end_call_def)
  then have "runs_ok (end_call i st)" by (rule runs_ok_quiet [OF assms(1)]) (simp_all add: end_call_def)
  then show ?thesis by (simp add: Finished)
qed (use assms in \<open>simp_all add: on_start_ok runs_ok_guard on_model_end_ok on_tool_end_ok on_embed_end_ok
    on_rerank_end_ok execute_tool_ok on_tool_start_def on_embed_start_def on_rerank_start_def get_call_ok split: option.split\<close>)

lemma telemetry_run_ok: "telemetry_run opts st \<Longrightarrow> runs_ok st"
proof (induction rule: telemetry_run.induct)
  case new
  then show ?case by (simp add: runs_ok_def new_telemetry_def run_keys_def)
next
  case (hook st e h)
  then show ?case by (intro perform_hook_ok)
qed


definition demo_options :: telemetry_options where
  "demo_options = \<lparr>attributionDefaults = Some [(''environment'', JStr ''test'')], mapResource = None\<rparr>"

definition demo_env :: env where
  "demo_env = \<lparr>clock = 0, uuid = ''u'', perf = 0, answer = RecordAnswered True ''queued'' [], active = []\<rparr>"

definition demo_start :: telemetry where
  "demo_start = perform_hook demo_options demo_env (Start ''run'' ''ai.generateText'' None JUndef) new_telemetry"

definition demo_tool :: hook where
  "demo_tool = ToolEnd ''run'' ''a'' ''search'' (JNum (Fin 3)) False"

definition demo_telemetry :: telemetry where
  "demo_telemetry = perform_hook demo_options demo_env demo_tool (perform_hook demo_options demo_env demo_tool demo_start)"

lemma demo_telemetry_run: "telemetry_run demo_options demo_telemetry"
  unfolding demo_telemetry_def demo_start_def
  by (intro telemetry_run.hook telemetry_run.new) (simp_all add: demo_env_def)

lemma get_call_set_call: "get_call i st \<noteq> None \<Longrightarrow> get_call i (set_call c st) \<noteq> None"
  by (cases "i = callId c") (simp_all add: get_call_def set_call_def)

lemma submit_record_effect:
  shows "length (submitted (fst (submit_record e c sp d resource usage ec st))) = Suc (length (submitted st))"
    "calls (fst (submit_record e c sp d resource usage ec st)) = calls st"
proof -
  obtain r where r: "createRecord (clock e) (uuid e) (record_input c (next_step st ! steps_at c) sp d resource usage ec) = Some r"
    using createRecord_input [of "clock e" "uuid e" c "next_step st ! steps_at c" sp d resource usage ec]
    by (elim exE conjE)
  show "length (submitted (fst (submit_record e c sp d resource usage ec st))) = Suc (length (submitted st))"
    "calls (fst (submit_record e c sp d resource usage ec st)) = calls st"
    by (simp_all add: submit_record_def Let_def r split: answered.split)
qed

lemma tool_end_effect:
  assumes "get_call i st \<noteq> None"
  shows "length (submitted (perform_hook opts e (ToolEnd i tool name took b) st)) = Suc (length (submitted st)) \<and>
    get_call i (perform_hook opts e (ToolEnd i tool name took b) st) \<noteq> None"
proof -
  obtain c where c: "get_call i st = Some c" using assms by blast
  obtain sp c' where closed: "closeToolSpan c tool = (sp, c')" by fastforce
  have frame: "submitted (guard n r) = submitted (fst r) \<and> calls (guard n r) = calls (fst r)" for n r
    by (auto simp: guard_def split: prod.splits option.splits)
  have "get_call i (set_call c' st) \<noteq> None" by (rule get_call_set_call [OF assms])
  moreover have "get_call i (guard n r) = map_of (calls (fst r)) i" for n r by (simp add: get_call_def frame)
  ultimately show ?thesis
    by (simp add: on_tool_end_def c closed frame submit_record_effect) (simp add: get_call_def)
qed


section \<open>What the records report\<close>

definition metered :: "fields \<Rightarrow> jsval \<Rightarrow> bool" where
  "metered resource usage \<longleftrightarrow>
     isProviderSlug (field resource ''provider'') \<and> sat usage_schema usage \<and>
     (field resource ''type'' = JStr ''tool'' \<and> keys usage = [''tool''] \<or>
      field resource ''type'' = JStr ''model'' \<and> keys usage = [''llm''])"

definition record_metered :: "fields \<Rightarrow> bool" where
  "record_metered r \<longleftrightarrow> (\<exists>resource. field r ''resource'' = JObj resource \<and> metered resource (field r ''usage''))"

definition all_metered :: "telemetry \<Rightarrow> bool" where
  "all_metered st \<longleftrightarrow> (\<forall>q \<in> set (submitted st). record_metered (snd q))"

lemma all_metered_same: "submitted st' = submitted st \<Longrightarrow> all_metered st' = all_metered st"
  by (simp add: all_metered_def)

lemma all_metered_report [simp]: "all_metered (report what details st) = all_metered st"
  "all_metered (set_call c st) = all_metered st"
  by (rule all_metered_same, simp)+

lemma all_metered_guard: "all_metered (fst r) \<Longrightarrow> all_metered (guard name r)"
  by (auto simp: guard_def split: prod.splits option.splits)

lemma submit_record_metered:
  assumes "all_metered st" "metered resource usage"
  shows "all_metered (fst (submit_record e c sp d resource usage ec st))"
proof -
  let ?step = "next_step st ! steps_at c"
  obtain r where r: "createRecord (clock e) (uuid e) (record_input c ?step sp d resource usage ec) = Some r"
    and same: "\<forall>k. k \<notin> {''spec_version'', ''record_id'', ''timing''} \<longrightarrow>
      field r k = field (record_input c ?step sp d resource usage ec) k"
    using createRecord_input [of "clock e" "uuid e" c ?step sp d resource usage ec] by (elim exE conjE)
  have "field r ''resource'' = JObj resource" "field r ''usage'' = usage"
    using same by (simp_all add: record_input_def)
  then have "record_metered r" using assms(2) by (simp add: record_metered_def)
  then show ?thesis using assms(1)
    by (simp add: submit_record_def Let_def r all_metered_def report_def split: answered.split)
qed

lemma metered_tool: "metered (tool_resource name) tool_block"
proof -
  have "isProviderSlug (JStr ''self-hosted'')" "sat usage_schema tool_block" "keys tool_block = [''tool'']" by code_simp+
  then show ?thesis by (simp add: metered_def tool_resource_def)
qed

lemma metered_model:
  assumes "modelResource opts c provider modelId operation st = (Some resource, st')" "sat usage_llm_schema u"
  shows "metered (text_model resource) (llm_block u)"
proof -
  have u: "keys (llm_block u) = [''llm'']" "jget (llm_block u) ''llm'' = u"
    by (simp_all add: llm_block_def jget_simps keys_simps)
  have "list_all (\<lambda>k. \<not> undeclared [Type [''object''], Closed,
      Properties [(''llm'', usage_llm_schema), (''tool'', usage_tool_schema)]] k) [''llm'']" by code_simp
  then have "sat usage_schema (llm_block u)"
    using assms(2) u by (simp add: usage_schema_def llm_block_def jget_simps keys_simps has_def)
  then show ?thesis using assms(1) u
    by (auto simp: modelResource_def metered_def text_model_def Let_def split: sum.splits if_splits)
qed

lemma modelResource_submitted:
  "modelResource opts c provider modelId operation st = (r, st') \<Longrightarrow> all_metered st' = all_metered st"
  using modelResource_state by (intro all_metered_same) blast

lemma on_model_end_metered:
  assumes "all_metered st"
  shows "all_metered (fst (on_model_end opts e i provider modelId time usage st))"
proof (cases "get_call i st")
  case None then show ?thesis using assms by (simp add: on_model_end_def)
next
  case (Some c)
  obtain r st1 where m: "modelResource opts c provider modelId ''generation'' st = (r, st1)" by fastforce
  have ok: "all_metered st1" using modelResource_submitted [OF m] assms by simp
  show ?thesis
  proof (cases r)
    case None then show ?thesis using ok by (simp add: on_model_end_def Some m)
  next
    case (Some resource)
    have "metered (text_model resource) (llm_block (usage_json u))" if "vercel_usage usage = Some u" for u
      using metered_model m vercel_usage_valid [OF that] unfolding Some by blast
    then show ?thesis using ok
      by (simp add: on_model_end_def \<open>get_call i st = Some c\<close> m Some Let_def submit_record_metered split: option.split)
  qed
qed

lemma no_usage_counted: "sat usage_llm_schema (usage_json (no_usage\<lparr>input_tokens := counter v\<rparr>))"
  "sat usage_llm_schema (usage_json no_usage)"
  by (rule usage_counts_valid; simp add: no_usage_def)+

lemma on_embed_end_metered:
  assumes "all_metered st"
  shows "all_metered (fst (on_embed_end opts e i embedding provider modelId tokens st))"
proof (cases "get_call i st")
  case None then show ?thesis using assms by (simp add: on_embed_end_def)
next
  case (Some c)
  let ?c = "c\<lparr>embedStartTimes := filter (\<lambda>p. fst p \<noteq> embedding) (embedStartTimes c)\<rparr>"
  obtain r st1 where m: "modelResource opts ?c provider modelId ''embedding'' (set_call ?c st) = (r, st1)" by fastforce
  have "all_metered st1" using modelResource_submitted [OF m] assms by simp
  moreover have "metered (text_model resource) (llm_block (usage_json (no_usage\<lparr>input_tokens := counter tokens\<rparr>)))"
    if "r = Some resource" for resource
    using metered_model m no_usage_counted(1) unfolding that by blast
  ultimately show ?thesis
    by (simp add: on_embed_end_def Some m Let_def submit_record_metered split: option.split)
qed

lemma on_rerank_end_metered:
  assumes "all_metered st"
  shows "all_metered (fst (on_rerank_end opts e i provider modelId st))"
proof (cases "get_call i st")
  case None then show ?thesis using assms by (simp add: on_rerank_end_def)
next
  case (Some c)
  let ?c = "c\<lparr>rerankStartedAt := None\<rparr>"
  obtain r st1 where m: "modelResource opts ?c provider modelId ''reranking'' (set_call ?c st) = (r, st1)" by fastforce
  have "all_metered st1" using modelResource_submitted [OF m] assms by simp
  moreover have "metered (text_model resource) (llm_block (usage_json no_usage))" if "r = Some resource" for resource
    using metered_model m no_usage_counted(2) unfolding that by blast
  ultimately show ?thesis
    by (simp add: on_rerank_end_def Some m Let_def submit_record_metered split: option.split)
qed

lemma on_tool_end_metered:
  assumes "all_metered st"
  shows "all_metered (fst (on_tool_end e i tool name took is_error st))"
  using assms by (simp add: on_tool_end_def submit_record_metered metered_tool split: option.split prod.split)

lemma all_metered_frame [simp]:
  "all_metered (st\<lparr>warned := ws\<rparr>) = all_metered st" "all_metered (st\<lparr>next_step := ns\<rparr>) = all_metered st"
  "all_metered (st\<lparr>issued := ss\<rparr>) = all_metered st" "all_metered (st\<lparr>calls := cs\<rparr>) = all_metered st"
  by (simp_all add: all_metered_def)

lemma perform_hook_metered: "all_metered st \<Longrightarrow> all_metered (perform_hook opts e h st)"
  by (cases h) (simp_all add: on_start_def startRoot_def startChild_def Let_def all_metered_guard on_model_end_metered
    on_tool_end_metered on_embed_end_metered on_rerank_end_metered on_tool_start_def on_embed_start_def
    on_rerank_start_def end_call_def execute_tool_def split: option.split prod.split)

text \<open>
  Every record the adapter ever submits names a provider that is a lower-case slug, has a
  usage block that satisfies the schema, and reports tool usage exactly when its resource is a
  tool and model usage exactly when it is a model; so neither a token count the SDK got wrong
  nor a \<open>mapResource\<close> of the host's makes a record that its own schema refuses there.
\<close>

theorem records_are_metered:
  assumes "telemetry_run opts st"
  shows "all_metered st"
  using assms
proof (induction rule: telemetry_run.induct)
  case new
  show ?case by (simp add: all_metered_def new_telemetry_def)
next
  case (hook st e h)
  show ?case by (rule perform_hook_metered) (rule hook.IH)
qed

theorem records_are_metered_witness:
  "submitted demo_telemetry \<noteq> [] \<and> record_metered (snd (hd (submitted demo_telemetry)))"
proof -
  have "get_call ''run'' demo_start \<noteq> None" by code_simp
  then have "submitted demo_telemetry \<noteq> []"
    using tool_end_effect [of "''run''"] by (metis demo_telemetry_def demo_tool_def length_0_conv nat.distinct(1))
  moreover have "all_metered demo_telemetry" by (rule records_are_metered [OF demo_telemetry_run])
  ultimately show ?thesis by (simp add: all_metered_def)
qed

end
