(* ===== verification/Acceptance.thy ===== *)
theory Acceptance
  imports Emission Telemetry
begin

text \<open>
  From the Vercel AI adapter to the client: along any run of the telemetry hooks whose inputs meet
  what the adapter cannot check, every record handed over is one the client accepts.
\<close>

section \<open>What the hooks are called with\<close>

definition usable_call :: "tracked \<Rightarrow> bool" where
  "usable_call c \<longleftrightarrow>
     8 \<le> length (runId c) \<and> length (runId c) \<le> 64 \<and> runType c \<in> {''agent_run'', ''single_call''} \<and>
     call_name c \<noteq> Some [] \<and> parentSpanId c \<noteq> Some [] \<and> attribution_ok (call_attribution c) \<and>
     field (call_attribution c) ''environment'' \<noteq> JUndef \<and> list_all (\<lambda>p. snd p \<noteq> []) (openToolSpans c)"

definition usable :: "telemetry \<Rightarrow> bool" where
  "usable st \<longleftrightarrow>
     list_all (\<lambda>p. usable_call (snd p)) (calls st) \<and>
     list_all (\<lambda>s. usable_call (span_call s) \<and> span_id s \<noteq> []) (issued st)"

text \<open>
  A call identifier of 8 to 64 characters, valid attribution, a model and a tool with a name; a clock
  that reads a year of our calendar, and a UUIDv7; a host's \<open>mapResource\<close> that gives a name as text.
\<close>

definition hook_ok :: "telemetry_options \<Rightarrow> hook \<Rightarrow> bool" where
  "hook_ok opts h \<longleftrightarrow>
     (case h of
        Start i operation function_id context' \<Rightarrow> 8 \<le> length i \<and> length i \<le> 64 \<and>
          (\<forall>who. resolveAttribution context' (attributionDefaults opts) = Some who \<longrightarrow> attribution_ok who)
      | ModelCallEnd i provider modelId time usage \<Rightarrow> modelId \<noteq> []
      | ToolEnd i tool name took is_error \<Rightarrow> name \<noteq> []
      | EmbedEnd i embedding provider modelId tokens \<Rightarrow> modelId \<noteq> []
      | RerankEnd i provider modelId \<Rightarrow> modelId \<noteq> []
      | _ \<Rightarrow> True)"

definition surroundings_ok :: "telemetry \<Rightarrow> env \<Rightarrow> bool" where
  "surroundings_ok st e \<longleftrightarrow>
     matches UUID7 (uuid e) \<and> time_ok (clock e) (clock e) \<and>
     (\<forall>(mine, s) \<in> set (active e). mine \<longrightarrow> s \<in> set (issued st))"

definition names_text :: "telemetry_options \<Rightarrow> bool" where
  "names_text opts \<longleftrightarrow>
     (\<forall>f. mapResource opts = Some f \<longrightarrow> (\<forall>p m v. f p m = Inr v \<longrightarrow>
        nullish (jget v ''name'') \<or> (\<exists>n. jget v ''name'' = JStr n \<and> n \<noteq> [])))"

inductive careful_run :: "telemetry_options \<Rightarrow> telemetry \<Rightarrow> bool" for opts where
  new: "careful_run opts new_telemetry"
| hook: "careful_run opts st \<Longrightarrow> surroundings_ok st e \<Longrightarrow> hook_ok opts h \<Longrightarrow> careful_run opts (perform_hook opts e h st)"

text \<open>A record the client accepts at the moment its event time names.\<close>

definition accepted :: "jsval \<Rightarrow> fields \<Rightarrow> bool" where
  "accepted em r \<longleftrightarrow>
     (\<exists>now. jget (field r ''timing'') ''event_time'' = JStr (to_iso now) \<and>
       judge_record em (JObj r) now = Valid (stamp em (JObj r)))"

definition all_accepted :: "jsval \<Rightarrow> telemetry \<Rightarrow> bool" where
  "all_accepted em st \<longleftrightarrow> (\<forall>q \<in> set (submitted st). accepted em (snd q))"

section \<open>A record of a usable call\<close>

definition run_of_call :: "tracked \<Rightarrow> nat \<Rightarrow> string \<Rightarrow> string option \<Rightarrow> fields" where
  "run_of_call c nth_step sp error_code =
     [(''run_id'', JStr (runId c)), (''span_id'', JStr sp), (''step'', JNum (Fin (of_nat nth_step))), (''run_type'', JStr (runType c))] @
     opt_text ''parent_span_id'' (parentSpanId c) @ opt_text ''name'' (call_name c) @ opt_text ''error_code'' error_code"

lemma run_of_call_valid:
  assumes "usable_call c" "sp \<noteq> []" "error_code \<noteq> Some []"
  shows "sat run_schema (JObj (run_of_call c nth_step sp error_code))"
  unfolding run_schema_def run_of_call_def
  by (intro sat_fits) (use assms in \<open>auto simp: fits_def usable_call_def\<close>)

definition call_record :: "env \<Rightarrow> tracked \<Rightarrow> nat \<Rightarrow> string \<Rightarrow> rat option \<Rightarrow> fields \<Rightarrow> jsval \<Rightarrow> string option \<Rightarrow> fields" where
  "call_record e c nth_step sp duration resource usage error_code =
     [(''resource'', JObj resource), (''usage'', usage), (''run'', JObj (run_of_call c nth_step sp error_code)),
      (''attribution'', JObj (call_attribution c)), (''spec_version'', JStr SPEC_VERSION), (''record_id'', JStr (uuid e)),
      (''timing'', JObj (entry ''duration_ms'' duration @ [(''event_time'', JStr (to_iso (clock e)))]))]"

lemma created_call_record:
  "createRecord (clock e) (uuid e) (record_input c nth_step sp duration resource usage error_code) =
    Some (call_record e c nth_step sp duration resource usage error_code)"
  by (cases duration) (simp_all add: createRecord_def record_input_def call_record_def run_of_call_def Let_def js_simps
      remove_key_def nullish_def coalesce_def entry_def)

lemma duration_timing:
  assumes "time_ok t t" "\<forall>d. duration = Some d \<longrightarrow> (\<exists>n :: nat. d = of_nat n)"
  shows "sat timing_schema (JObj (entry ''duration_ms'' duration @ [(''event_time'', JStr (to_iso t))]))"
proof -
  have "parse_timestamp (to_iso t) \<noteq> None" using parse_to_iso assms(1) by (simp add: time_ok_def)
  then have "matches pattern5 (to_iso t)" by (auto simp: parse_timestamp_def pattern5_def split: if_splits)
  then have "sat DateTime (JStr (to_iso t))" by (simp add: DateTime_def)
  then show ?thesis unfolding timing_schema_def
    by (intro sat_fits) (use assms(2) in \<open>auto simp: fits_def\<close>)
qed

lemma duration_natural: "durationMs v = Some d \<Longrightarrow> \<exists>n :: nat. d = of_nat n"
proof -
  assume "durationMs v = Some d"
  then obtain x :: rat where "0 \<le> x" "d = of_int \<lfloor>x + 1 / 2\<rfloor>"
    by (auto simp: durationMs_def split: jsval.splits jsnum.splits if_splits)
  then have "d = of_nat (nat \<lfloor>x + 1 / 2\<rfloor>)" by (simp add: of_nat_nat)
  then show ?thesis by blast
qed

lemma elapsed_natural: "elapsedSince e t = Some d \<Longrightarrow> \<exists>n :: nat. d = of_nat n"
  by (cases t) (auto simp: elapsedSince_def dest: duration_natural)

text \<open>What a record says of a resource and its usage.\<close>

definition contribution :: "fields \<Rightarrow> jsval \<Rightarrow> bool" where
  "contribution R u \<longleftrightarrow>
     sat resource_schema (JObj R) \<and> sat usage_schema u \<and> json_plain (JObj R) \<and> json_plain u \<and>
     (\<exists>U. u = JObj U \<and> (model_shape R U \<or> tool_shape R U))"

lemma call_record_accepted:
  assumes c: "usable_call c" "sp \<noteq> []" "error_code \<noteq> Some []" and con: "contribution R u" and em: "emitter_ok em"
    and e: "matches UUID7 (uuid e)" "time_ok (clock e) (clock e)"
    and d: "\<forall>x. duration = Some x \<longrightarrow> (\<exists>n :: nat. x = of_nat n)"
  shows "accepted em (call_record e c nth_step sp duration R u error_code)"
proof -
  let ?r = "call_record e c nth_step sp duration R u error_code"
  let ?T = "entry ''duration_ms'' duration @ [(''event_time'', JStr (to_iso (clock e)))]"
  have who: "attribution_ok (call_attribution c)" "field (call_attribution c) ''environment'' \<noteq> JUndef"
    using c(1) by (simp_all add: usable_call_def)
  have event: "field ?T ''event_time'' = JStr (to_iso (clock e))" "field ?T ''received_time'' = JUndef"
    by (cases duration; simp add: entry_def)+
  have trace: "text_field (JObj (run_of_call c nth_step sp error_code)) ''trace_id'' = None"
    by (cases "parentSpanId c"; cases "call_name c"; cases error_code)
      (simp_all add: text_field_def run_of_call_def js_simps opt_text_def)
  have emu: "em \<noteq> JUndef" using em by (auto simp: emitter_ok_def)
  obtain U where U: "u = JObj U" "model_shape R U \<or> tool_shape R U" using con by (auto simp: contribution_def)
  have fits: "list_all (fits root_properties) (?r @ [(''emitter'', em)])"
    using con who em emu U(1) duration_timing [OF e(2) d] run_of_call_valid [OF c] filled_parts [OF e(1)]
    by (simp del: sat.simps sat_texts add: fits_def call_record_def contribution_def attribution_ok_def
      emitter_ok_def root_properties_def)
  have "conforms (JObj (?r @ [(''emitter'', em)])) (Some (clock e))"
    by (rule record_conforms [OF fits _ _ _ _ _ U(2), where T = ?T and t = "clock e" and u = "uuid e" and who = "call_attribution c"])
      (use U(1) e who trace event in \<open>simp_all add: call_record_def root_required_def\<close>)
  moreover have "stamp em (JObj ?r) = JObj (?r @ [(''emitter'', em)])"
    using emu by (simp add: stamp_def call_record_def js_simps)
  moreover have "json_plain (JObj (?r @ [(''emitter'', em)]))"
    using U(1) con who(1) em emu
    by (simp add: call_record_def run_of_call_def contribution_def attribution_ok_def emitter_ok_def)
  ultimately have "judge_record em (JObj ?r) (clock e) = Valid (stamp em (JObj ?r))"
    using judge_plain [of em "JObj ?r" "clock e"] by simp
  moreover have "jget (field ?r ''timing'') ''event_time'' = JStr (to_iso (clock e))"
    using event(1) by (simp add: call_record_def js_simps)
  ultimately show ?thesis unfolding accepted_def by blast
qed

section \<open>What the hooks report\<close>

lemma tool_contribution:
  assumes "name \<noteq> []"
  shows "contribution (tool_resource name) tool_block"
proof -
  have "matches pattern7 ''self-hosted''" by code_simp
  then have "sat resource_schema (JObj (tool_resource name))" unfolding resource_schema_def tool_resource_def
    by (intro sat_fits) (use assms in \<open>auto simp: fits_def\<close>)
  moreover have "sat usage_schema tool_block" by code_simp
  moreover have "tool_shape (tool_resource name) [(''tool'', JObj [(''type'', JStr ''invocation''), (''call_count'', JNum (Fin 1))])]"
    by (simp add: tool_shape_def tool_resource_def)
  ultimately show ?thesis by (simp add: contribution_def tool_block_def) (simp add: tool_resource_def)
qed

lemma model_contribution:
  assumes m: "modelResource opts c provider modelId operation st = (Some R, st')" and names: "names_text opts" "modelId \<noteq> []"
    and op: "operation \<in> {''generation'', ''embedding'', ''reranking''}" and u: "sat usage_llm_schema (usage_json u)"
  shows "contribution (text_model R) (llm_block (usage_json u))"
proof -
  obtain mapped p where mapped: "(case mapResource opts of None \<Rightarrow> Inr JUndef | Some f \<Rightarrow> f provider modelId) = Inr mapped"
    and p: "matches SLUG p" "R = [(''provider'', JStr p), (''type'', JStr ''model''),
      (''name'', coalesce (jget mapped ''name'') (JStr modelId)), (''operation'', JStr operation)]"
    using m by (auto simp: modelResource_def Let_def isProviderSlug_def split: sum.splits if_splits jsval.splits)
  have "nullish (jget mapped ''name'') \<or> (\<exists>n. jget mapped ''name'' = JStr n \<and> n \<noteq> [])"
    using names(1) mapped by (cases "mapResource opts") (auto simp: names_text_def nullish_def js_simps)
  then obtain n where n: "coalesce (jget mapped ''name'') (JStr modelId) = JStr n" "n \<noteq> []"
    using names(2) by (auto simp: coalesce_def nullish_def)
  have R: "text_model R = [(''provider'', JStr p), (''type'', JStr ''model''), (''name'', JStr n),
      (''operation'', JStr operation), (''modality'', JStr ''text'')]" by (simp add: text_model_def p(2) n(1))
  have "sat resource_schema (JObj (text_model R))" unfolding resource_schema_def R
    by (intro sat_fits) (use op n(2) p(1) in \<open>auto simp: fits_def SLUG_pattern7\<close>)
  moreover have "sat usage_schema (llm_block (usage_json u))"
    using metered_model [OF m u] by (simp add: metered_def)
  moreover have "model_shape (text_model R) [(''llm'', usage_json u)]" using op by (auto simp: model_shape_def R)
  ultimately show ?thesis by (simp add: contribution_def llm_block_def usage_plain) (simp add: R)
qed

section \<open>Every hook\<close>

lemma usable_cong: "calls st' = calls st \<Longrightarrow> issued st' = issued st \<Longrightarrow> usable st' = usable st"
  by (simp add: usable_def)

lemma usable_frame [simp]:
  "usable (report what details st) = usable st" "usable (st\<lparr>submitted := rs\<rparr>) = usable st"
  "usable (st\<lparr>next_step := ns\<rparr>) = usable st" "usable (st\<lparr>warned := ws\<rparr>) = usable st"
  by (simp_all add: usable_def)

lemma accepted_cong: "submitted st' = submitted st \<Longrightarrow> all_accepted em st' = all_accepted em st"
  by (simp add: all_accepted_def)

lemma accepted_frame [simp]:
  "all_accepted em (report what details st) = all_accepted em st" "all_accepted em (set_call c st) = all_accepted em st"
  "all_accepted em (st\<lparr>next_step := ns\<rparr>) = all_accepted em st" "all_accepted em (st\<lparr>warned := ws\<rparr>) = all_accepted em st"
  "all_accepted em (st\<lparr>issued := ss\<rparr>) = all_accepted em st" "all_accepted em (end_call i st) = all_accepted em st"
  by (simp_all add: all_accepted_def end_call_def)

lemma guard_frame [simp]:
  "usable (guard name r) = usable (fst r)" "all_accepted em (guard name r) = all_accepted em (fst r)"
  by (auto simp: guard_def split: prod.splits option.splits)

lemma list_all_put: "list_all P kvs \<Longrightarrow> P (k, v) \<Longrightarrow> list_all P (put kvs k v)"
  by (induction kvs k v rule: put.induct) auto

lemma list_all_map_of: "list_all P kvs \<Longrightarrow> map_of kvs k = Some v \<Longrightarrow> P (k, v)"
  by (auto simp: list_all_iff dest: map_of_SomeD)

lemma usable_set_call: "usable st \<Longrightarrow> usable_call c \<Longrightarrow> usable (set_call c st)"
  by (simp add: usable_def set_call_def list_all_put)

lemma usable_get_call: "usable st \<Longrightarrow> get_call i st = Some c \<Longrightarrow> usable_call c"
  by (auto simp: usable_def get_call_def dest: list_all_map_of)

lemma usable_updates [simp]:
  "usable_call (c\<lparr>modelCalls := n\<rparr>) = usable_call c" "usable_call (c\<lparr>rerankCalls := n\<rparr>) = usable_call c"
  "usable_call (c\<lparr>toolCalls := n\<rparr>) = usable_call c" "usable_call (c\<lparr>embedStartTimes := ts\<rparr>) = usable_call c"
  "usable_call (c\<lparr>rerankStartedAt := t\<rparr>) = usable_call c"
  by (simp_all add: usable_call_def)

lemma open_span_usable:
  assumes "usable_call c" "openToolSpan c tool = (sp, c')"
  shows "usable_call c'" "sp \<noteq> []"
  using assms by (auto simp: openToolSpan_def Let_def usable_call_def toolSpanId_def list_all_put)

lemma span_for_usable:
  assumes "usable_call c" "toolSpanFor c tool = (sp, c')"
  shows "usable_call c'" "sp \<noteq> []"
proof -
  have "sp \<noteq> [] \<and> usable_call c'"
  proof (cases "map_of (openToolSpans c) tool")
    case None
    then show ?thesis using assms open_span_usable by (auto simp: toolSpanFor_def)
  next
    case (Some s)
    with assms(1) have "s \<noteq> []" by (auto simp: usable_call_def dest: list_all_map_of)
    then show ?thesis using assms Some by (auto simp: toolSpanFor_def)
  qed
  then show "usable_call c'" "sp \<noteq> []" by auto
qed

lemma close_span_usable:
  assumes "usable_call c" "closeToolSpan c tool = (sp, c')"
  shows "usable_call c'" "sp \<noteq> []"
proof -
  obtain c1 where c1: "toolSpanFor c tool = (sp, c1)" "c' = c1\<lparr>openToolSpans := filter (\<lambda>p. fst p \<noteq> tool) (openToolSpans c1)\<rparr>"
    using assms(2) by (auto simp: closeToolSpan_def split: prod.splits)
  note span_for_usable [OF assms(1) c1(1)]
  then show "usable_call c'" "sp \<noteq> []" by (auto simp: c1(2) usable_call_def list_all_iff)
qed

definition good :: "jsval \<Rightarrow> telemetry \<Rightarrow> bool" where
  "good em st \<longleftrightarrow> usable st \<and> all_accepted em st"

lemma good_frame [simp]:
  "good em (report what details st) = good em st" "good em (guard name r) = good em (fst r)"
  "good em (st\<lparr>warned := ws\<rparr>) = good em st" "good em (st\<lparr>next_step := ns\<rparr>) = good em st"
  by (simp_all add: good_def)

lemma good_set_call: "good em st \<Longrightarrow> usable_call c \<Longrightarrow> good em (set_call c st)"
  by (simp add: good_def usable_set_call)

lemma good_get_call: "good em st \<Longrightarrow> get_call i st = Some c \<Longrightarrow> usable_call c"
  unfolding good_def by (elim conjE) (rule usable_get_call)

lemma submit_good:
  assumes "good em st" "usable_call c" "sp \<noteq> []" "error_code \<noteq> Some []" "contribution R u" "emitter_ok em" "surroundings_ok st0 e"
    and "\<forall>x. duration = Some x \<longrightarrow> (\<exists>n :: nat. x = of_nat n)"
  shows "good em (fst (submit_record e c sp duration R u error_code st))"
proof -
  have "accepted em (call_record e c n sp duration R u error_code)" for n
    by (rule call_record_accepted [OF assms(2-6) _ _ assms(8)]) (use assms(7) in \<open>simp_all add: surroundings_ok_def\<close>)
  then have "good em (st\<lparr>next_step := ns, submitted := submitted st @ [(a, call_record e c n sp duration R u error_code)]\<rparr>)" for ns a n
    using assms(1) by (auto simp: good_def all_accepted_def usable_def)
  then show ?thesis
    by (simp add: submit_record_def created_call_record Let_def split: answered.split)
qed

lemma current_span_issued:
  assumes "surroundings_ok st e" "currentToolSpan (active e) = Some s"
  shows "s \<in> set (issued st)"
proof -
  obtain p where p: "find fst (rev (active e)) = Some p" and s: "s = snd p"
    using assms(2) by (cases "find fst (rev (active e))") (simp_all add: currentToolSpan_def)
  have "p \<in> set (active e)" using find_member [OF p] by simp
  moreover have "fst p" using p by (metis find_Some_iff)
  ultimately show ?thesis
    using assms(1) by (auto simp: surroundings_ok_def s case_prod_beta dest: bspec)
qed

lemma on_start_good:
  assumes "good em st" "surroundings_ok st e" "hook_ok opts (Start i operation function_id context')"
  shows "good em (on_start opts e i operation function_id context' st)"
proof -
  have root: "good em (startRoot i operation who (runTypeFor operation) (nonEmpty function_id) st)"
    if "resolveAttribution context' (attributionDefaults opts) = Some who" for who
  proof -
    have "field who ''environment'' \<noteq> JUndef" using that by (auto simp: resolveAttribution_def Let_def split: if_splits)
    then have "usable_call (fresh_call i i operation None who (runTypeFor operation) (nonEmpty function_id) n)" for n
      using assms(3) that by (auto simp: usable_call_def fresh_call_def hook_ok_def runTypeFor_def nonEmpty_def split: option.splits)
    then show ?thesis using assms(1) by (simp add: startRoot_def good_set_call)
  qed
  have child: "good em (startChild i operation s st)" if "currentToolSpan (active e) = Some s" for s
  proof -
    have "usable_call (span_call s)" "span_id s \<noteq> []"
      using current_span_issued [OF assms(2) that] assms(1) by (auto simp: good_def usable_def list_all_iff)
    then have "usable_call (fresh_call i (runId (span_call s)) operation (Some (span_id s)) (call_attribution (span_call s))
        (runType (span_call s)) (call_name (span_call s)) (steps_at (span_call s)))"
      by (simp add: usable_call_def fresh_call_def)
    then show ?thesis using assms(1) by (simp add: startChild_def Let_def good_set_call)
  qed
  show ?thesis using root child assms(1) by (simp add: on_start_def split: option.split)
qed

lemma modelResource_good:
  assumes "modelResource opts c provider modelId operation st = (r, st')"
  shows "good em st' = good em st"
  using assms by (auto simp: modelResource_def Let_def split: sum.splits if_splits)

lemma on_model_end_good:
  assumes "good em st" "surroundings_ok st e" "emitter_ok em" "names_text opts" "modelId \<noteq> []"
  shows "good em (fst (on_model_end opts e i provider modelId time usage st))"
proof (cases "get_call i st")
  case None then show ?thesis using assms(1) by (simp add: on_model_end_def)
next
  case (Some c)
  have c: "usable_call c" using good_get_call [OF assms(1) Some] by simp
  obtain r st1 where m: "modelResource opts c provider modelId ''generation'' st = (r, st1)" by fastforce
  have st1: "good em st1" using modelResource_good [OF m] assms(1) by simp
  have "contribution (text_model R) (llm_block (usage_json u))" if "r = Some R" "vercel_usage usage = Some u" for R u
    using model_contribution [OF m [unfolded that(1)] assms(4,5)] vercel_usage_valid [OF that(2)] by simp
  moreover have "modelSpanId i n \<noteq> []" for n by (simp add: modelSpanId_def)
  ultimately show ?thesis
    using c st1 assms(2,3) duration_natural
    by (simp add: on_model_end_def Some m Let_def submit_good good_set_call split: option.split)
qed

lemma on_tool_end_good:
  assumes "good em st" "surroundings_ok st e" "emitter_ok em" "name \<noteq> []"
  shows "good em (fst (on_tool_end e i tool name took is_error st))"
proof (cases "get_call i st")
  case None then show ?thesis using assms(1) by (simp add: on_tool_end_def)
next
  case (Some c)
  have c: "usable_call c" using good_get_call [OF assms(1) Some] by simp
  obtain sp c' where closed: "closeToolSpan c tool = (sp, c')" by fastforce
  show ?thesis
    using close_span_usable [OF c closed] assms duration_natural
    by (simp add: on_tool_end_def Some closed submit_good good_set_call tool_contribution)
qed

lemma on_embed_end_good:
  assumes "good em st" "surroundings_ok st e" "emitter_ok em" "names_text opts" "modelId \<noteq> []"
  shows "good em (fst (on_embed_end opts e i embedding provider modelId tokens st))"
proof (cases "get_call i st")
  case None then show ?thesis using assms(1) by (simp add: on_embed_end_def)
next
  case (Some c)
  let ?c = "c\<lparr>embedStartTimes := filter (\<lambda>p. fst p \<noteq> embedding) (embedStartTimes c)\<rparr>"
  have c: "usable_call ?c" using good_get_call [OF assms(1) Some] by simp
  obtain r st1 where m: "modelResource opts ?c provider modelId ''embedding'' (set_call ?c st) = (r, st1)" by fastforce
  have st1: "good em st1" using modelResource_good [OF m] assms(1) c by (simp add: good_set_call)
  have "contribution (text_model R) (llm_block (usage_json (no_usage\<lparr>input_tokens := counter tokens\<rparr>)))" if "r = Some R" for R
    by (rule model_contribution [OF m [unfolded that] assms(4,5)]) (simp_all add: no_usage_counted)
  moreover have "embedSpanId embedding \<noteq> []" by (simp add: embedSpanId_def)
  ultimately show ?thesis
    using c st1 assms(2,3) elapsed_natural
    by (simp add: on_embed_end_def Some m Let_def submit_good split: option.split)
qed

lemma on_rerank_end_good:
  assumes "good em st" "surroundings_ok st e" "emitter_ok em" "names_text opts" "modelId \<noteq> []"
  shows "good em (fst (on_rerank_end opts e i provider modelId st))"
proof (cases "get_call i st")
  case None then show ?thesis using assms(1) by (simp add: on_rerank_end_def)
next
  case (Some c)
  let ?c = "c\<lparr>rerankStartedAt := None\<rparr>"
  have c: "usable_call ?c" using good_get_call [OF assms(1) Some] by simp
  obtain r st1 where m: "modelResource opts ?c provider modelId ''reranking'' (set_call ?c st) = (r, st1)" by fastforce
  have st1: "good em st1" using modelResource_good [OF m] assms(1) c by (simp add: good_set_call)
  have "contribution (text_model R) (llm_block (usage_json no_usage))" if "r = Some R" for R
    by (rule model_contribution [OF m [unfolded that] assms(4,5)]) (simp_all add: no_usage_counted)
  moreover have "rerankSpanId i n \<noteq> []" for n by (simp add: rerankSpanId_def)
  ultimately show ?thesis
    using c st1 assms(2,3) elapsed_natural
    by (simp add: on_rerank_end_def Some m Let_def submit_good good_set_call split: option.split)
qed

lemma end_call_good: "good em st \<Longrightarrow> good em (end_call i st)"
  by (simp add: good_def) (auto simp: usable_def end_call_def list_all_iff)

lemma execute_tool_good:
  assumes "good em st"
  shows "good em (snd (execute_tool e i tool st))"
proof (cases "get_call i st")
  case None then show ?thesis using assms by (simp add: execute_tool_def)
next
  case (Some c)
  obtain s c' where span: "toolSpanFor c tool = (s, c')" by fastforce
  note ok = span_for_usable [OF good_get_call [OF assms Some] span]
  have "good em (set_call c' st)" by (rule good_set_call [OF assms ok(1)])
  then have "good em ((set_call c' st)\<lparr>issued := issued st @ [\<lparr>span_call = c', span_id = s\<rparr>]\<rparr>)"
    using ok assms by (auto simp: good_def usable_def set_call_def all_accepted_def)
  then show ?thesis by (simp add: execute_tool_def Some span Let_def)
qed

lemma opened_good:
  assumes "good em st" "get_call i st = Some c"
  shows "good em (set_call (snd (openToolSpan c tool)) st)"
proof -
  obtain s c' where span: "openToolSpan c tool = (s, c')" by fastforce
  show ?thesis
    using open_span_usable [OF good_get_call [OF assms] span] good_set_call [OF assms(1)] by (simp add: span)
qed

lemma touched_good:
  assumes "good em st" "get_call i st = Some c"
  shows "good em (set_call (c\<lparr>embedStartTimes := ts\<rparr>) st)" "good em (set_call (c\<lparr>rerankStartedAt := t\<rparr>) st)"
  using good_get_call [OF assms] by (simp_all add: good_set_call assms(1))

lemma perform_hook_good:
  assumes "good em st" "surroundings_ok st e" "hook_ok opts h" "emitter_ok em" "names_text opts"
  shows "good em (perform_hook opts e h st)"
proof (cases h)
  case (Start i operation function_id context')
  then show ?thesis using on_start_good [OF assms(1,2)] assms(3) by simp
next
  case (ToolStart i tool)
  then show ?thesis using opened_good assms(1) by (simp add: on_tool_start_def split: option.split)
next
  case (EmbedStart i embedding)
  then show ?thesis using touched_good assms(1) by (simp add: on_embed_start_def split: option.split)
next
  case (RerankStart i)
  then show ?thesis using touched_good assms(1) by (simp add: on_rerank_start_def split: option.split)
qed (use assms in \<open>simp_all add: hook_ok_def on_model_end_good on_tool_end_good on_embed_end_good on_rerank_end_good
    end_call_good execute_tool_good\<close>)


definition real_env :: env where
  "real_env = \<lparr>clock = 1709164800005, uuid = ''01890a5d-ac96-774b-bcce-b302099a8057'', perf = 0,
     answer = RecordAnswered True ''queued'' [], active = []\<rparr>"


end
