(* ===== verification/Streams.thy ===== *)
theory Streams
  imports Diagnostics
begin

text \<open>
  The metered streams of the two router adapters: \<open>meterStream\<close> of
  \<open>adapters/openrouter/typescript/src/proxy.ts\<close> and \<open>#meterStream\<close> of
  \<open>adapters/merge-gateway/typescript/src/gateway.ts\<close>. A host may take any number of iterators from
  the proxy; each is an asynchronous generator that runs up to its next \<open>await\<close> or \<open>yield\<close> in one
  step. What the host and the native stream do is a sequence of signals.
\<close>

section \<open>Iterators\<close>

text \<open>
  An iterator that has not started; that waits for the native stream; that waits for the
  inspection of a frame; that has yielded; that ran to its end, its \<open>finally\<close> included; and one
  that was closed before it started, whose body never ran.
\<close>

datatype iterator_phase = Unstarted | Pulling | Inspecting jsval | At_yield | Over | Dropped

record iterator =
  phase_of :: iterator_phase
  failure_seen :: bool
  pulled :: "jsval list"
  yielded :: "jsval list"

datatype outcome = Recorded jsval | Incomplete string

record stream =
  is_open :: bool
  iterators :: "iterator list"
  outcomes :: "outcome list"

definition new_iterator :: iterator where
  "new_iterator = \<lparr>phase_of = Unstarted, failure_seen = False, pulled = [], yielded = []\<rparr>"

definition new_stream :: stream where
  "new_stream = \<lparr>is_open = True, iterators = [], outcomes = []\<rparr>"

text \<open>\<open>end\<close> of the OpenRouter and \<open>incomplete\<close> of the Merge Gateway adapter.\<close>

definition end_stream :: "string \<Rightarrow> stream \<Rightarrow> stream" where
  "end_stream why st =
     (if is_open st then st\<lparr>is_open := False, outcomes := outcomes st @ [Incomplete why]\<rparr> else st)"

definition put_iterator :: "nat \<Rightarrow> iterator \<Rightarrow> stream \<Rightarrow> stream" where
  "put_iterator g it st = st\<lparr>iterators := (iterators st)[g := it]\<rparr>"

text \<open>An iterator that ends calls \<open>end\<close> for its reason, and \<open>finally\<close> as abandoned.\<close>

definition leave :: "nat \<Rightarrow> string list \<Rightarrow> stream \<Rightarrow> stream" where
  "leave g reasons st =
     foldl (\<lambda>st why. end_stream why st) (put_iterator g ((iterators st ! g)\<lparr>phase_of := Over\<rparr>) st) (reasons @ [''abandoned''])"

text \<open>
  The host asks for an iterator, for its next frame, returns from it or throws into it, and
  closes the stream; \<open>Return\<close> says whether closing the native iterator failed. The native stream
  gives a frame, ends or fails; an inspection comes to a verdict.
\<close>

datatype frame_verdict = Continue | Record_it | No_usage | Error_frame

datatype signal =
    Iterate
  | Next nat
  | Frame nat jsval
  | Judged nat frame_verdict
  | Native_end nat
  | Native_failure nat
  | Return nat bool
  | Throw nat
  | Close

text \<open>What both adapters do alike; \<open>None\<close> is a signal that cannot come in this state.\<close>

definition drive :: "bool \<Rightarrow> signal \<Rightarrow> stream \<Rightarrow> stream option" where
  "drive closable sig st =
     (let at_phase = (\<lambda>g phases. g < length (iterators st) \<and> phase_of (iterators st ! g) \<in> set phases);
          move = (\<lambda>g p. put_iterator g ((iterators st ! g)\<lparr>phase_of := p\<rparr>) st)
      in case sig of
           Iterate \<Rightarrow> Some (st\<lparr>iterators := iterators st @ [new_iterator]\<rparr>)
         | Next g \<Rightarrow> if at_phase g [Unstarted, At_yield] then Some (move g Pulling) else None
         | Native_end g \<Rightarrow>
             if at_phase g [Pulling]
             then Some (leave g [if failure_seen (iterators st ! g) then ''error_frame'' else ''ended''] st) else None
         | Native_failure g \<Rightarrow> if at_phase g [Pulling] then Some (leave g [''failed''] st) else None
         | Return g fails \<Rightarrow>
             if at_phase g [Unstarted] then Some (move g Dropped)
             else if at_phase g [At_yield] then Some (leave g (if fails then [''failed''] else []) st) else None
         | Throw g \<Rightarrow>
             if at_phase g [Unstarted] then Some (move g Dropped)
             else if at_phase g [At_yield] then Some (leave g [''failed''] st) else None
         | Close \<Rightarrow> if closable then Some (end_stream ''closed'' st) else None
         | _ \<Rightarrow> None)"

definition pass_on :: "jsval \<Rightarrow> iterator \<Rightarrow> iterator" where
  "pass_on f it = it\<lparr>phase_of := At_yield, yielded := yielded it @ [f]\<rparr>"

section \<open>The OpenRouter adapter\<close>

text \<open>
  \<open>meterStream\<close>: a frame is inspected only while the stream is open, and yielded when the
  inspection is over. A recording that is under way is not stopped by what ends the stream
  meanwhile.
\<close>

definition proxy_step :: "bool \<Rightarrow> signal \<Rightarrow> stream \<Rightarrow> stream option" where
  "proxy_step closable sig st =
     (case sig of
        Frame g f \<Rightarrow>
          if g < length (iterators st) \<and> phase_of (iterators st ! g) = Pulling
          then let it = (iterators st ! g)\<lparr>pulled := pulled (iterators st ! g) @ [f]\<rparr>
            in Some (put_iterator g (if is_open st then it\<lparr>phase_of := Inspecting f\<rparr> else pass_on f it) st)
          else None
      | Judged g v \<Rightarrow>
          if g < length (iterators st)
          then let it = iterators st ! g
            in case phase_of it of
                 Inspecting f \<Rightarrow> Some
                   (case v of
                      Continue \<Rightarrow> put_iterator g (pass_on f it) st
                    | Record_it \<Rightarrow> put_iterator g (pass_on f it) (st\<lparr>is_open := False, outcomes := outcomes st @ [Recorded f]\<rparr>)
                    | No_usage \<Rightarrow> put_iterator g (pass_on f it) (end_stream ''no_usage'' st)
                    | Error_frame \<Rightarrow> put_iterator g (pass_on f (it\<lparr>failure_seen := True\<rparr>)) st)
               | _ \<Rightarrow> None
          else None
      | _ \<Rightarrow> drive closable sig st)"

section \<open>The Merge Gateway adapter\<close>

text \<open>\<open>observe\<close>.\<close>

definition gateway_observe :: "jsval \<Rightarrow> stream \<Rightarrow> stream" where
  "gateway_observe f st =
     (if \<not> is_open st then st
      else if jget f ''object'' = JStr ''response.done''
      then st\<lparr>is_open := False, outcomes := outcomes st @ [Recorded f]\<rparr>
      else if jget f ''object'' = JStr ''response.error'' then end_stream ''error_frame'' st
      else st)"

text \<open>\<open>#meterStream\<close>: a frame is observed and yielded in one step, and no iterator keeps a failure.\<close>

definition gateway_step :: "bool \<Rightarrow> signal \<Rightarrow> stream \<Rightarrow> stream option" where
  "gateway_step closable sig st =
     (case sig of
        Frame g f \<Rightarrow>
          if g < length (iterators st) \<and> phase_of (iterators st ! g) = Pulling
          then Some (put_iterator g (pass_on f ((iterators st ! g)\<lparr>pulled := pulled (iterators st ! g) @ [f]\<rparr>))
            (gateway_observe f st))
          else None
      | Judged g v \<Rightarrow> None
      | _ \<Rightarrow> drive closable sig st)"

text \<open>The states a stream can come to, with the signals so far.\<close>

inductive reaches :: "(signal \<Rightarrow> stream \<Rightarrow> stream option) \<Rightarrow> signal list \<Rightarrow> stream \<Rightarrow> bool" for step where
  fresh: "reaches step [] new_stream"
| signal: "reaches step sigs st \<Longrightarrow> step sig st = Some st' \<Longrightarrow> reaches step (sigs @ [sig]) st'"

inductive_cases reachesE: "reaches step sigs st"

section \<open>What a stream comes to\<close>

definition is_incomplete :: "outcome \<Rightarrow> bool" where
  "is_incomplete x \<longleftrightarrow> (case x of Incomplete _ \<Rightarrow> True | Recorded _ \<Rightarrow> False)"

definition pending :: "iterator \<Rightarrow> jsval list" where
  "pending it = (case phase_of it of Inspecting f \<Rightarrow> [f] | _ \<Rightarrow> [])"

text \<open>An iterator that ended left an outcome, and what it yields is what it was given.\<close>

definition iterator_ok :: "bool \<Rightarrow> iterator \<Rightarrow> bool" where
  "iterator_ok opened it \<longleftrightarrow> (phase_of it = Over \<longrightarrow> \<not> opened) \<and> yielded it @ pending it = pulled it"

text \<open>With \<open>strict\<close>, there is at most one outcome of either kind.\<close>

definition stream_ok :: "bool \<Rightarrow> stream \<Rightarrow> bool" where
  "stream_ok strict st \<longleftrightarrow>
     (is_open st \<longleftrightarrow> outcomes st = []) \<and> length (filter is_incomplete (outcomes st)) \<le> 1 \<and>
     (strict \<longrightarrow> length (outcomes st) \<le> 1) \<and> list_all (iterator_ok (is_open st)) (iterators st)"

lemma iterator_ok_closed: "iterator_ok opened it \<Longrightarrow> iterator_ok False it"
  by (simp add: iterator_ok_def)

lemma iterators_ok_closed: "list_all (iterator_ok opened) its \<Longrightarrow> list_all (iterator_ok False) its"
  by (auto simp: list_all_iff iterator_ok_def)

lemma end_stream_frame [simp]:
  "iterators (end_stream why st) = iterators st" "\<not> is_open (end_stream why st)"
  by (simp_all add: end_stream_def)

lemma stream_ok_end: "stream_ok strict st \<Longrightarrow> stream_ok strict (end_stream why st)"
  using iterators_ok_closed by (auto simp: stream_ok_def end_stream_def is_incomplete_def)

lemma stream_ok_ends: "stream_ok strict st \<Longrightarrow> stream_ok strict (foldl (\<lambda>st why. end_stream why st) st reasons)"
  by (induction reasons arbitrary: st) (simp_all add: stream_ok_end)

lemma stream_ok_put:
  assumes "stream_ok strict st" "iterator_ok (is_open st) it"
  shows "stream_ok strict (put_iterator g it st)"
proof -
  have "set ((iterators st)[g := it]) \<subseteq> insert it (set (iterators st))" by (rule set_update_subset_insert)
  then show ?thesis using assms by (auto simp: stream_ok_def put_iterator_def list_all_iff)
qed

lemma stream_ok_iterator: "stream_ok strict st \<Longrightarrow> g < length (iterators st) \<Longrightarrow> iterator_ok (is_open st) (iterators st ! g)"
  unfolding stream_ok_def list_all_length by blast

lemma end_stream_put: "end_stream why (put_iterator g it st) = put_iterator g it (end_stream why st)"
  by (simp add: end_stream_def put_iterator_def)

lemma ends_put: "foldl (\<lambda>st why. end_stream why st) (put_iterator g it st) reasons =
    put_iterator g it (foldl (\<lambda>st why. end_stream why st) st reasons)"
  by (induction reasons arbitrary: st) (simp_all add: end_stream_put)

lemma iterator_ok_over: "iterator_ok opened it \<Longrightarrow> pending it = [] \<Longrightarrow> iterator_ok False (it\<lparr>phase_of := Over\<rparr>)"
  by (simp add: iterator_ok_def pending_def)

lemma iterator_ok_move:
  "iterator_ok opened it \<Longrightarrow> pending it = [] \<Longrightarrow> p \<in> {Pulling, Dropped, At_yield} \<Longrightarrow> iterator_ok opened (it\<lparr>phase_of := p\<rparr>)"
  by (auto simp: iterator_ok_def pending_def)

lemma stream_ok_leave:
  assumes "stream_ok strict st" "g < length (iterators st)" "pending (iterators st ! g) = []"
  shows "stream_ok strict (leave g reasons st)"
proof -
  let ?ends = "foldl (\<lambda>st why. end_stream why st) st (reasons @ [''abandoned''])"
  have "\<not> is_open ?ends" by simp
  moreover have "iterator_ok False ((iterators st ! g)\<lparr>phase_of := Over\<rparr>)"
    by (rule iterator_ok_over [OF stream_ok_iterator [OF assms(1,2)] assms(3)])
  ultimately show ?thesis unfolding leave_def ends_put
    by (intro stream_ok_put stream_ok_ends assms(1)) simp
qed

lemma pending_phase: "phase_of it \<in> {Unstarted, Pulling, At_yield} \<Longrightarrow> pending it = []"
  by (auto simp: pending_def)

lemma drive_ok:
  assumes ok: "stream_ok strict st" and "drive closable sig st = Some st'"
  shows "stream_ok strict st'"
proof -
  have fresh: "stream_ok strict (st\<lparr>iterators := iterators st @ [new_iterator]\<rparr>)"
  proof -
    have "iterator_ok opened new_iterator" for opened
      by (simp add: iterator_ok_def new_iterator_def pending_def)
    then show ?thesis using ok unfolding stream_ok_def by (elim conjE) simp
  qed
  have moved: "stream_ok strict (put_iterator g ((iterators st ! g)\<lparr>phase_of := p\<rparr>) st)"
    if "g < length (iterators st)" "pending (iterators st ! g) = []" "p \<in> {Pulling, Dropped, At_yield}" for g p
    by (intro stream_ok_put ok iterator_ok_move stream_ok_iterator [OF ok] that)
  show ?thesis
  proof (cases sig)
    case (Next g)
    then show ?thesis using assms(2) by (auto simp: drive_def moved pending_phase split: if_splits)
  next
    case (Return g fails)
    then show ?thesis using assms(2)
      by (auto simp: drive_def moved pending_phase stream_ok_leave ok split: if_splits)
  next
    case (Throw g)
    then show ?thesis using assms(2)
      by (auto simp: drive_def moved pending_phase stream_ok_leave ok split: if_splits)
  qed (use assms(2) fresh in \<open>auto simp: drive_def pending_phase stream_ok_leave stream_ok_end ok split: if_splits\<close>)
qed

lemma iterator_ok_pass:
  "yielded it @ [f] = pulled it \<Longrightarrow> iterator_ok opened (pass_on f it)"
  by (simp add: iterator_ok_def pass_on_def pending_def)

lemma stream_ok_record:
  assumes "stream_ok False st"
  shows "stream_ok False (st\<lparr>is_open := False, outcomes := outcomes st @ [Recorded f]\<rparr>)"
  using assms iterators_ok_closed by (auto simp: stream_ok_def is_incomplete_def)

lemma stream_ok_record_open:
  assumes "stream_ok strict st" "is_open st"
  shows "stream_ok strict (st\<lparr>is_open := False, outcomes := outcomes st @ [Recorded f]\<rparr>)"
  using assms iterators_ok_closed by (auto simp: stream_ok_def is_incomplete_def)

lemma gateway_observe_ok: "stream_ok strict st \<Longrightarrow> stream_ok strict (gateway_observe f st)"
  by (simp add: gateway_observe_def stream_ok_end stream_ok_record_open)

lemma gateway_observe_iterators [simp]: "iterators (gateway_observe f st) = iterators st"
  by (simp add: gateway_observe_def)

lemma gateway_step_ok:
  assumes ok: "stream_ok True st" and step: "gateway_step closable sig st = Some st'"
  shows "stream_ok True st'"
proof (cases sig)
  case (Frame g f)
  then have g: "g < length (iterators st)" "phase_of (iterators st ! g) = Pulling"
    and st': "st' = put_iterator g (pass_on f ((iterators st ! g)\<lparr>pulled := pulled (iterators st ! g) @ [f]\<rparr>)) (gateway_observe f st)"
    using step by (simp_all add: gateway_step_def split: if_splits)
  have "yielded (iterators st ! g) = pulled (iterators st ! g)"
    using stream_ok_iterator [OF ok g(1)] g(2) by (simp add: iterator_ok_def pending_def)
  then show ?thesis unfolding st' by (intro stream_ok_put gateway_observe_ok ok iterator_ok_pass) simp
qed (use step drive_ok [OF ok] in \<open>simp_all add: gateway_step_def\<close>)

lemma proxy_step_ok:
  assumes ok: "stream_ok False st" and step: "proxy_step closable sig st = Some st'"
  shows "stream_ok False st'"
proof (cases sig)
  case (Frame g f)
  define it where "it = (iterators st ! g)\<lparr>pulled := pulled (iterators st ! g) @ [f]\<rparr>"
  have g: "g < length (iterators st)" "phase_of (iterators st ! g) = Pulling"
    and st': "st' = put_iterator g (if is_open st then it\<lparr>phase_of := Inspecting f\<rparr> else pass_on f it) st"
    using step Frame by (simp_all add: proxy_step_def it_def Let_def split: if_splits)
  have "yielded (iterators st ! g) = pulled (iterators st ! g)"
    using stream_ok_iterator [OF ok g(1)] g(2) by (simp add: iterator_ok_def pending_def)
  then have "iterator_ok (is_open st) (if is_open st then it\<lparr>phase_of := Inspecting f\<rparr> else pass_on f it)"
    by (simp add: iterator_ok_def it_def pending_def pass_on_def)
  then show ?thesis unfolding st' by (intro stream_ok_put ok)
next
  case (Judged g v)
  define it where "it = iterators st ! g"
  obtain f where f: "phase_of it = Inspecting f" and g: "g < length (iterators st)"
    using step Judged by (auto simp: proxy_step_def it_def Let_def split: if_splits iterator_phase.splits)
  have "yielded it @ [f] = pulled it"
    using stream_ok_iterator [OF ok g] f by (simp add: iterator_ok_def pending_def it_def)
  then have pass: "iterator_ok opened (pass_on f it)" "iterator_ok opened (pass_on f (it\<lparr>failure_seen := True\<rparr>))" for opened
    by (simp_all add: iterator_ok_pass)
  show ?thesis using step f g
    by (cases v) (auto simp: Judged proxy_step_def it_def [symmetric] intro!: stream_ok_put pass ok stream_ok_end stream_ok_record)
qed (use step drive_ok [OF ok] in \<open>simp_all add: proxy_step_def\<close>)

lemma stream_ok_new: "stream_ok strict new_stream"
  by (simp add: stream_ok_def new_stream_def)

subsection \<open>One inspection at a time\<close>

text \<open>A host that does nothing with the proxy while a frame is inspected.\<close>

definition inspecting :: "iterator \<Rightarrow> bool" where
  "inspecting it \<longleftrightarrow> (case phase_of it of Inspecting _ \<Rightarrow> True | _ \<Rightarrow> False)"

definition calm_step :: "bool \<Rightarrow> signal \<Rightarrow> stream \<Rightarrow> stream option" where
  "calm_step closable sig st =
     (if list_ex inspecting (iterators st) \<and> \<not> (case sig of Judged _ _ \<Rightarrow> True | _ \<Rightarrow> False) then None
      else proxy_step closable sig st)"

text \<open>Nothing is inspected once the stream is closed, and at most one frame while it is open.\<close>

definition one_at_a_time :: "stream \<Rightarrow> bool" where
  "one_at_a_time st \<longleftrightarrow> stream_ok True st \<and> (\<forall>g < length (iterators st). inspecting (iterators st ! g) \<longrightarrow>
     is_open st \<and> (\<forall>h < length (iterators st). inspecting (iterators st ! h) \<longrightarrow> h = g))"

lemma not_inspecting [simp]:
  "\<not> inspecting (it\<lparr>phase_of := Pulling\<rparr>)" "\<not> inspecting (it\<lparr>phase_of := Over\<rparr>)" "\<not> inspecting (it\<lparr>phase_of := Dropped\<rparr>)"
  "\<not> inspecting (pass_on f it)" "\<not> inspecting new_iterator"
  by (simp_all add: inspecting_def pass_on_def new_iterator_def)

lemma quiet_put:
  assumes "\<not> list_ex inspecting (iterators st)" "\<not> inspecting it"
  shows "\<not> list_ex inspecting (iterators (put_iterator g it st))"
proof -
  have "set ((iterators st)[g := it]) \<subseteq> insert it (set (iterators st))" by (rule set_update_subset_insert)
  then show ?thesis using assms by (auto simp: list_ex_iff put_iterator_def)
qed

lemma iterators_ends [simp]: "iterators (foldl (\<lambda>st why. end_stream why st) st reasons) = iterators st"
  by (induction reasons arbitrary: st) simp_all

lemma drive_quiet:
  assumes "\<not> list_ex inspecting (iterators st)" "drive closable sig st = Some st'"
  shows "\<not> list_ex inspecting (iterators st')"
proof -
  have "\<not> list_ex inspecting (iterators (leave g reasons st))" for g reasons
    unfolding leave_def ends_put by (rule quiet_put) (simp_all add: assms(1))
  then show ?thesis using assms quiet_put [OF assms(1)]
    by (cases sig) (auto simp: drive_def Let_def split: if_splits)
qed

lemma quiet_calm: "stream_ok True st \<Longrightarrow> \<not> list_ex inspecting (iterators st) \<Longrightarrow> one_at_a_time st"
  by (auto simp: one_at_a_time_def list_ex_iff dest: nth_mem)

lemma calm_step_calm:
  assumes "one_at_a_time st" and step: "calm_step closable sig st = Some st'"
  shows "one_at_a_time st'"
proof -
  have ok: "stream_ok True st" using assms(1) by (simp add: one_at_a_time_def)
  show ?thesis
  proof (cases "\<exists>g v. sig = Judged g v")
    case False
    then have quiet: "\<not> list_ex inspecting (iterators st)" and p: "proxy_step closable sig st = Some st'"
      using step by (cases sig; simp add: calm_step_def split: if_splits)+
    show ?thesis
    proof (cases sig)
      case (Frame g f)
      define it where "it = (iterators st ! g)\<lparr>pulled := pulled (iterators st ! g) @ [f]\<rparr>"
      have g: "g < length (iterators st)" "phase_of (iterators st ! g) = Pulling"
        and st': "st' = put_iterator g (if is_open st then it\<lparr>phase_of := Inspecting f\<rparr> else pass_on f it) st"
        using p Frame by (simp_all add: proxy_step_def it_def Let_def split: if_splits)
      have "yielded (iterators st ! g) = pulled (iterators st ! g)"
        using stream_ok_iterator [OF ok g(1)] g(2) by (simp add: iterator_ok_def pending_def)
      then have "iterator_ok (is_open st) (if is_open st then it\<lparr>phase_of := Inspecting f\<rparr> else pass_on f it)"
        by (simp add: iterator_ok_def it_def pending_def pass_on_def)
      then have ok': "stream_ok True st'" unfolding st' by (intro stream_ok_put ok)
      have "\<not> inspecting (iterators st ! h)" if "h < length (iterators st)" for h
        using quiet nth_mem [OF that] by (auto simp: list_ex_iff)
      then have only: "h = g \<and> inspecting x" if "h < length (iterators st)" "inspecting ((iterators st)[g := x] ! h)" for h x
        using that by (cases "h = g") simp_all
      have "is_open st' \<and> h = g" if h: "h < length (iterators st')" "inspecting (iterators st' ! h)" for h
      proof -
        define x where "x = (if is_open st then it\<lparr>phase_of := Inspecting f\<rparr> else pass_on f it)"
        have "h = g \<and> inspecting x"
          by (rule only) (use h in \<open>simp_all add: st' put_iterator_def x_def [symmetric]\<close>)
        then show ?thesis by (cases "is_open st") (simp_all add: st' put_iterator_def x_def)
      qed
      then show ?thesis unfolding one_at_a_time_def using ok' by metis
    next
      case (Judged g v)
      then show ?thesis using False by blast
    qed (use p drive_ok [OF ok] drive_quiet [OF quiet] in \<open>auto simp: proxy_step_def intro!: quiet_calm\<close>)
  next
    case True
    then obtain g v where sig: "sig = Judged g v" by blast
    define it where "it = iterators st ! g"
    have p: "proxy_step closable (Judged g v) st = Some st'" using step sig by (simp add: calm_step_def)
    obtain f where f: "phase_of it = Inspecting f" and g: "g < length (iterators st)"
      using p by (auto simp: proxy_step_def it_def Let_def split: if_splits iterator_phase.splits)
    have "inspecting (iterators st ! g)" using f by (simp add: inspecting_def it_def)
    then have opened: "is_open st" and only: "h < length (iterators st) \<Longrightarrow> inspecting (iterators st ! h) \<Longrightarrow> h = g" for h
      using assms(1) g by (auto simp: one_at_a_time_def)
    have "yielded it @ [f] = pulled it"
      using stream_ok_iterator [OF ok g] f by (simp add: iterator_ok_def pending_def it_def)
    then have pass: "iterator_ok b (pass_on f it)" "iterator_ok b (pass_on f (it\<lparr>failure_seen := True\<rparr>))" for b
      by (simp_all add: iterator_ok_pass)
    have "stream_ok True st'" using p f g
      by (cases v) (auto simp: proxy_step_def it_def [symmetric] opened
          intro!: stream_ok_put pass ok stream_ok_end stream_ok_record_open)
    moreover have "\<not> list_ex inspecting ((iterators st)[g := pass_on f i])" for i
    proof -
      have "\<not> inspecting ((iterators st)[g := pass_on f i] ! h)" if "h < length (iterators st)" for h
        using only [OF that] that by (cases "h = g") auto
      then show ?thesis by (simp add: list_ex_length)
    qed
    then have "\<not> list_ex inspecting (iterators st')" using p f g
      by (cases v) (auto simp: proxy_step_def it_def [symmetric] put_iterator_def)
    ultimately show ?thesis by (rule quiet_calm)
  qed
qed

lemma calm_new: "one_at_a_time new_stream"
  by (simp add: one_at_a_time_def stream_ok_new) (simp add: new_stream_def)

subsection \<open>What every metered stream promises\<close>

text \<open>
  The contract both adapters meet: some invariant of the stream, which holds of a fresh one, is
  kept by every signal and bounds the reports.
\<close>

locale metered_stream =
  fixes step :: "signal \<Rightarrow> stream \<Rightarrow> stream option" and good :: "stream \<Rightarrow> bool"
  assumes good_new: "good new_stream"
    and good_step: "good st \<Longrightarrow> step sig st = Some st' \<Longrightarrow> good st'"
    and good_ok: "good st \<Longrightarrow> stream_ok False st"
begin

lemma reached_good: "reaches step sigs st \<Longrightarrow> good st"
  by (induction rule: reaches.induct) (use good_new good_step in blast)+

lemma one_report: "reaches step sigs st \<Longrightarrow> length (filter is_incomplete (outcomes st)) \<le> 1"
  using good_ok [OF reached_good] by (simp add: stream_ok_def)

lemma open_iff: "reaches step sigs st \<Longrightarrow> is_open st \<longleftrightarrow> outcomes st = []"
  using good_ok [OF reached_good] by (simp add: stream_ok_def)

lemma iterator_reached:
  assumes "reaches step sigs st" "it \<in> set (iterators st)"
  shows "(phase_of it = Over \<longrightarrow> outcomes st \<noteq> []) \<and> yielded it @ pending it = pulled it"
proof -
  have "iterator_ok (is_open st) it"
    using good_ok [OF reached_good [OF assms(1)]] assms(2) unfolding stream_ok_def list_all_iff by blast
  then show ?thesis using open_iff [OF assms(1)] by (simp add: iterator_ok_def)
qed

end

lemma stream_ok_strict: "stream_ok True st \<Longrightarrow> stream_ok False st"
  unfolding stream_ok_def by blast

interpretation metered: metered_stream "gateway_step closable" "stream_ok True"
  by unfold_locales (auto simp: stream_ok_new intro: gateway_step_ok stream_ok_strict)

interpretation proxied: metered_stream "proxy_step closable" "stream_ok False"
  by unfold_locales (auto simp: stream_ok_new intro: proxy_step_ok)

interpretation calm: metered_stream "calm_step closable" one_at_a_time
  by unfold_locales (auto simp: calm_new intro: calm_step_calm, simp add: one_at_a_time_def stream_ok_strict)

subsection \<open>The two adapters\<close>

text \<open>
  C29: a stream of Merge Gateway comes to at most one outcome, a record or one report that it
  is incomplete, whatever the host does with it and however many iterators it takes: none as
  long as it is open, and one as soon as any iterator has run to its end. Every iterator yields
  the very frames the native stream gave it, in their order.
\<close>

theorem gateway_stream_one_outcome:
  assumes "reaches (gateway_step closable) sigs st"
  shows "length (outcomes st) \<le> 1 \<and> (is_open st \<longleftrightarrow> outcomes st = []) \<and>
    (\<forall>it \<in> set (iterators st). (phase_of it = Over \<longrightarrow> outcomes st \<noteq> []) \<and> yielded it @ pending it = pulled it)"
proof -
  have "length (outcomes st) \<le> 1" using metered.reached_good [OF assms] by (simp add: stream_ok_def)
  then show ?thesis using metered.open_iff [OF assms] metered.iterator_reached [OF assms] by blast
qed

definition demo_done :: jsval where
  "demo_done = JObj [(''object'', JStr ''response.done'')]"

text \<open>The state after some signals, when all of them can come.\<close>

definition after :: "(signal \<Rightarrow> stream \<Rightarrow> stream option) \<Rightarrow> signal list \<Rightarrow> stream option" where
  "after step sigs = foldl (\<lambda>st sig. case st of None \<Rightarrow> None | Some s \<Rightarrow> step sig s) (Some new_stream) sigs"

lemma after_reaches: "after step sigs = Some st \<Longrightarrow> reaches step sigs st"
proof (induction sigs arbitrary: st rule: rev_induct)
  case Nil
  then show ?case by (simp add: after_def reaches.fresh)
next
  case (snoc sig sigs)
  then obtain s where "after step sigs = Some s" "step sig s = Some st"
    by (auto simp: after_def split: option.splits)
  then show ?case using snoc.IH by (blast intro: reaches.signal)
qed

theorem gateway_stream_one_outcome_witness:
  "\<exists>st. after (gateway_step True) [Iterate, Next 0, Frame 0 demo_done, Close, Next 0, Native_end 0] = Some st \<and>
    outcomes st = [Recorded demo_done] \<and> length (outcomes st) \<le> 1"
proof -
  let ?sigs = "[Iterate, Next 0, Frame 0 demo_done, Close, Next 0, Native_end 0]"
  have "map_option outcomes (after (gateway_step True) ?sigs) = Some [Recorded demo_done]" by code_simp
  then obtain st where st: "after (gateway_step True) ?sigs = Some st" "outcomes st = [Recorded demo_done]" by auto
  from gateway_stream_one_outcome [OF after_reaches [OF st(1)]] st show ?thesis by blast
qed

text \<open>
  C28: a stream of OpenRouter is reported incomplete at most once, and only while nothing else
  was reported, whatever the host does; an iterator that ran to its end left an outcome, and
  every iterator yields the very frames it was given, in their order, each after its inspection.
  If the host leaves the proxy alone while a frame is inspected, there is at most one outcome.
\<close>

theorem openrouter_stream_outcomes:
  assumes "reaches (proxy_step closable) sigs st"
  shows "length (filter is_incomplete (outcomes st)) \<le> 1 \<and> (is_open st \<longleftrightarrow> outcomes st = []) \<and>
    (\<forall>it \<in> set (iterators st). (phase_of it = Over \<longrightarrow> outcomes st \<noteq> []) \<and> yielded it @ pending it = pulled it) \<and>
    (reaches (calm_step closable) sigs st \<longrightarrow> length (outcomes st) \<le> 1)"
proof -
  have "length (outcomes st) \<le> 1" if "reaches (calm_step closable) sigs st"
    using calm.reached_good [OF that] by (simp add: one_at_a_time_def stream_ok_def)
  then show ?thesis
    using proxied.one_report [OF assms] proxied.open_iff [OF assms] proxied.iterator_reached [OF assms] by blast
qed

theorem openrouter_stream_outcomes_witness:
  "\<exists>st. after (proxy_step True) [Iterate, Next 0, Frame 0 JNull, Judged 0 Record_it, Return 0 False] = Some st \<and>
    after (calm_step True) [Iterate, Next 0, Frame 0 JNull, Judged 0 Record_it, Return 0 False] = Some st \<and>
    outcomes st = [Recorded JNull] \<and> length (outcomes st) \<le> 1"
proof -
  let ?sigs = "[Iterate, Next 0, Frame 0 JNull, Judged 0 Record_it, Return 0 False]"
  have "map_option outcomes (after (proxy_step True) ?sigs) = Some [Recorded JNull]"
    "after (calm_step True) ?sigs = after (proxy_step True) ?sigs" by code_simp+
  then obtain st where st: "after (proxy_step True) ?sigs = Some st" "after (calm_step True) ?sigs = Some st"
    "outcomes st = [Recorded JNull]" by auto
  from openrouter_stream_outcomes [OF after_reaches [OF st(1)]] after_reaches [OF st(2)] st show ?thesis by blast
qed

text \<open>
  A host that cancels a stream while its last frame is still inspected, as it may be for as
  long as a lookup takes, is told the stream produced no record, and it is recorded all the same.
\<close>

lemma cancel_while_recording:
  "map_option outcomes (after (proxy_step True) [Iterate, Next 0, Frame 0 JNull, Close, Judged 0 Record_it]) =
    Some [Incomplete ''closed'', Recorded JNull]"
  by code_simp

end
