(* ===== verification/Gateway.thy ===== *)
theory Gateway
  imports Streams Client
begin

text \<open>
  \<open>adapters/merge-gateway/typescript/src/gateway.ts\<close>: what the facade of a Merge Gateway client does
  with a call. The scope a call starts in is an argument, an identifier or a status of a result
  is a string or absent; the proxy that forwards to the native client is in \<open>Facade\<close>.
\<close>

section \<open>A call\<close>

definition GATEWAY_VERSION :: string where
  "GATEWAY_VERSION = ''0.2.0''"

definition GATEWAY_EMITTER :: jsval where
  "GATEWAY_EMITTER = JObj
     [(''component'', JStr ''router''), (''name'', JStr ''@openaudr/audr-adapter-merge-gateway''),
      (''version'', JStr GATEWAY_VERSION)]"

definition GATEWAY_PROVIDER :: string where
  "GATEWAY_PROVIDER = ''merge-gateway''"

definition GATEWAY_FAILED_CODE :: string where
  "GATEWAY_FAILED_CODE = ''MERGE_GATEWAY_RESPONSE_FAILED''"

definition responseModality :: "jsval \<Rightarrow> string" where
  "responseModality params =
     (case jget params ''modalities'' of
        JArr modalities \<Rightarrow>
          (let text = JStr ''text'' \<in> set modalities; image = JStr ''image'' \<in> set modalities;
               audio = JStr ''audio'' \<in> set modalities
           in if 1 < length (filter id [text, image, audio]) then ''multimodal''
              else if image then ''image'' else if audio then ''audio'' else ''text'')
      | _ \<Rightarrow> ''text'')"

record gateway_call =
  gc_operation :: string
  gc_modality :: string
  gc_attribution :: jsval
  gc_run :: "jsval option"
  gc_started :: rat

record gateway_options =
  gw_defaults :: jsval
  gw_mapResource :: "(jsval \<Rightarrow> jsval \<Rightarrow> host_error + jsval) option"

text \<open>The constructor, of whether the client has \<open>record()\<close>; \<open>Inl\<close> is the message of a \<open>ConfigurationError\<close>.\<close>

definition new_gateway :: "bool \<Rightarrow> jsval \<Rightarrow> (jsval \<Rightarrow> jsval \<Rightarrow> host_error + jsval) option \<Rightarrow> string + gateway_options" where
  "new_gateway has_record defaults mapped =
     (if \<not> has_record then Inl ''client must implement record()''
      else Inr \<lparr>gw_defaults = mergeScoped (JObj []) defaults, gw_mapResource = mapped\<rparr>)"

text \<open>The surroundings of a step: the clocks, fresh UUIDs for the span, the run and the record, and the client's answer.\<close>

record router_env =
  wall_ms :: int
  perf_ms :: rat
  uuid_span :: string
  uuid_run :: string
  uuid_record :: string
  client_answer :: answered

definition begin_gateway :: "gateway_options \<Rightarrow> scope \<Rightarrow> rat \<Rightarrow> string \<Rightarrow> string \<Rightarrow> metering \<Rightarrow> gateway_call option \<times> metering" where
  "begin_gateway opts sc started operation modality m =
     (let who = mergeScoped (gw_defaults opts) (sc_attribution sc)
      in if jget who ''environment'' = JUndef
         then (None, log_line (gateway_diagnostic ''ATTRIBUTION_UNRESOLVED'' [(''operation'', operation)]) m)
         else (Some \<lparr>gc_operation = operation, gc_modality = modality, gc_attribution = who, gc_run = sc_run sc,
           gc_started = started\<rparr>, m))"

section \<open>Its record\<close>

definition opt_value :: "string \<Rightarrow> jsval \<Rightarrow> fields" where
  "opt_value k v = (if v = JUndef then [] else [(k, v)])"

definition run_part :: "jsval option \<Rightarrow> string \<Rightarrow> jsval" where
  "run_part host_run k = (case host_run of None \<Rightarrow> JUndef | Some r \<Rightarrow> jget r k)"

text \<open>The \<open>run\<close> block of both router adapters, of the scope's run and the identifier of the call.\<close>

definition run_block :: "jsval option \<Rightarrow> string \<Rightarrow> string \<Rightarrow> string \<Rightarrow> string option \<Rightarrow> jsval" where
  "run_block host_run span_kind i fresh_run error_code = JObj
     ([(''run_id'', coalesce (run_part host_run ''run_id'') (JStr (if fitsRunId i then i else fresh_run))),
       (''span_id'', JStr (span_kind @ '':'' @ i))] @
      opt_value ''parent_span_id'' (run_part host_run ''parent_span_id'') @ opt_value ''name'' (run_part host_run ''name'') @
      [(''run_type'', JStr (if host_run = None then ''single_call'' else ''agent_run''))] @
      opt_text ''error_code'' error_code)"

definition math_round :: "rat \<Rightarrow> rat" where
  "math_round x = of_int \<lfloor>x + 1 / 2\<rfloor>"

definition id_or :: "jsval \<Rightarrow> string \<Rightarrow> string" where
  "id_or v new_id = (case v of JStr s \<Rightarrow> s | _ \<Rightarrow> new_id)"

definition gateway_input :: "router_env \<Rightarrow> gateway_call \<Rightarrow> jsval \<Rightarrow> jsval \<Rightarrow> fields" where
  "gateway_input e c resource result =
     (let generation = (gc_operation c = ''responses.create''); usage = jget result ''usage'';
          i = id_or (jget result ''id'') (uuid_span e)
      in [(''emitter'', GATEWAY_EMITTER),
          (''timing'', JObj [(''duration_ms'', JNum (Fin (math_round (perf_ms e - gc_started c))))]),
          (''resource'', JObj (opt_value ''provider'' (jget resource ''provider'') @
            [(''type'', JStr ''model''), (''name'', jget resource ''name''),
             (''operation'', JStr (if generation then ''generation'' else ''embedding'')),
             (''modality'', JStr (gc_modality c))])),
          (''usage'', JObj [(''llm'', usage_json (if generation then responseUsage usage else embeddingUsage usage))])] @
         (case toCost usage of None \<Rightarrow> [] | Some cost \<Rightarrow> [(''cost'', cost)]) @
         [(''run'', run_block (gc_run c) (if generation then ''response'' else ''embedding'') i (uuid_run e)
            (if jget result ''status'' = JStr ''failed'' then Some GATEWAY_FAILED_CODE else None)),
          (''attribution'', gc_attribution c)])"

definition gateway_resource :: "gateway_options \<Rightarrow> jsval \<Rightarrow> host_error + jsval" where
  "gateway_resource opts result =
     (let model = jget result ''model'';
          default = JObj [(''provider'', JStr GATEWAY_PROVIDER), (''name'', model)]
      in case gw_mapResource opts of
           None \<Rightarrow> Inr default
         | Some f \<Rightarrow> (case f model (jget result ''vendor'') of Inl w \<Rightarrow> Inl w | Inr v \<Rightarrow> Inr (coalesce v default)))"

text \<open>What both router adapters do with a record: hand it over, and report when it is not queued.\<close>

definition submit_router :: "(string \<Rightarrow> (string \<times> string) list \<Rightarrow> string) \<Rightarrow> router_env \<Rightarrow> string \<Rightarrow> fields \<Rightarrow> metering \<Rightarrow>
    metering \<times> host_error option" where
  "submit_router diagnostic e operation input m =
     (case createRecord (wall_ms e) (uuid_record e) input of
        None \<Rightarrow> (m, Some TYPE_ERROR)
      | Some r \<Rightarrow>
          (let m = hand_over r m
           in case client_answer e of
                RecordThrew w \<Rightarrow> (m, Some w)
              | RecordAnswered queued outcome found \<Rightarrow>
                  (if queued then m
                   else log_line (diagnostic ''RECORD_NOT_QUEUED'' ((''operation'', operation) # not_queued outcome found)) m,
                   None)))"

text \<open>\<open>#record\<close>; taking a result that is \<open>null\<close> or absent apart throws.\<close>

definition gateway_record :: "gateway_options \<Rightarrow> router_env \<Rightarrow> gateway_call \<Rightarrow> jsval \<Rightarrow> metering \<Rightarrow> metering \<times> host_error option" where
  "gateway_record opts e c result m =
     (if nullish result then (m, Some TYPE_ERROR)
      else case gateway_resource opts result of
        Inl w \<Rightarrow> (m, Some w)
      | Inr resource \<Rightarrow>
          (if \<not> truthy (jget resource ''name'')
           then (log_line (gateway_diagnostic ''MODEL_UNREPORTED'' [(''operation'', gc_operation c)]) m, None)
           else submit_router gateway_diagnostic e (gc_operation c) (gateway_input e c resource result) m))"

text \<open>\<open>#guard\<close> with \<open>#hookFailed\<close>.\<close>

definition guarded :: "(string \<Rightarrow> (string \<times> string) list \<Rightarrow> string) \<Rightarrow> string \<Rightarrow> metering \<times> host_error option \<Rightarrow> metering" where
  "guarded diagnostic operation r =
     (case snd r of None \<Rightarrow> fst r
      | Some w \<Rightarrow> log_line (diagnostic ''HOOK_FAILED'' [(''operation'', operation), (''error'', errorKind w)]) (fst r))"

text \<open>
  \<open>measure\<close>, of a result that is no stream; and of one that is, where the frame \<open>f\<close> is one the
  stream records.
\<close>

definition measure_gateway :: "gateway_options \<Rightarrow> router_env \<Rightarrow> gateway_call option \<Rightarrow> jsval \<Rightarrow> metering \<Rightarrow> metering" where
  "measure_gateway opts e call result m =
     (case call of None \<Rightarrow> m
      | Some c \<Rightarrow> guarded gateway_diagnostic (gc_operation c) (gateway_record opts e c result m))"

text \<open>What an outcome of a metered stream does beside closing it.\<close>

definition gateway_outcome :: "gateway_options \<Rightarrow> router_env \<Rightarrow> gateway_call \<Rightarrow> outcome \<Rightarrow> metering \<Rightarrow> metering" where
  "gateway_outcome opts e c x m =
     (case x of
        Recorded f \<Rightarrow> guarded gateway_diagnostic (gc_operation c) (gateway_record opts e c f m)
      | Incomplete why \<Rightarrow>
          log_line (gateway_diagnostic ''STREAM_INCOMPLETE'' [(''operation'', gc_operation c), (''reason'', why)]) m)"

section \<open>No call is lost silently\<close>

text \<open>
  A step either hands one record over, or hands over none and leaves a reason as the last line
  of the log.
\<close>

definition call_accounted :: "(string \<Rightarrow> bool) \<Rightarrow> metering \<Rightarrow> metering \<Rightarrow> bool" where
  "call_accounted reason m m' \<longleftrightarrow>
     (\<exists>r. given_out m' = given_out m @ [r]) \<or>
     given_out m' = given_out m \<and> (\<exists>ls l. log_lines m' = log_lines m @ ls @ [l] \<and> reason l)"

definition is_reason :: "(string \<Rightarrow> (string \<times> string) list \<Rightarrow> string) \<Rightarrow> string \<Rightarrow> string \<Rightarrow> bool" where
  "is_reason diagnostic operation l \<longleftrightarrow>
     l = diagnostic ''MODEL_UNREPORTED'' [(''operation'', operation)] \<or>
     l = diagnostic ''USAGE_UNREPORTED'' [(''operation'', operation)] \<or>
     (\<exists>w. l = diagnostic ''HOOK_FAILED'' [(''operation'', operation), (''error'', errorKind w)])"

text \<open>What a step may do before it is guarded: the same, or throw having handed nothing over.\<close>

definition accounted_or_threw :: "(string \<Rightarrow> bool) \<Rightarrow> metering \<Rightarrow> metering \<times> host_error option \<Rightarrow> bool" where
  "accounted_or_threw reason m r \<longleftrightarrow>
     (\<exists>x. given_out (fst r) = given_out m @ [x]) \<or>
     given_out (fst r) = given_out m \<and>
       (\<exists>ls. log_lines (fst r) = log_lines m @ ls \<and> (snd r = None \<longrightarrow> ls \<noteq> [] \<and> reason (last ls)))"

lemma accounted_guarded:
  assumes "accounted_or_threw (is_reason diagnostic operation) m r"
  shows "call_accounted (is_reason diagnostic operation) m (guarded diagnostic operation r)"
proof (cases "\<exists>x. given_out (fst r) = given_out m @ [x]")
  case True
  then show ?thesis by (auto simp: call_accounted_def guarded_def split: option.split)
next
  case False
  then obtain ls where same: "given_out (fst r) = given_out m" and ls: "log_lines (fst r) = log_lines m @ ls"
    and reason: "snd r = None \<Longrightarrow> ls \<noteq> [] \<and> is_reason diagnostic operation (last ls)"
    using assms by (auto simp: accounted_or_threw_def)
  show ?thesis
  proof (cases "snd r")
    case None
    then have "ls = butlast ls @ [last ls]" "is_reason diagnostic operation (last ls)" using reason by simp_all
    then have "\<exists>ls' l. log_lines (fst r) = log_lines m @ ls' @ [l] \<and> is_reason diagnostic operation l"
      unfolding ls by metis
    then show ?thesis using None same by (simp add: call_accounted_def guarded_def)
  next
    case (Some w)
    have "is_reason diagnostic operation (diagnostic ''HOOK_FAILED'' [(''operation'', operation), (''error'', errorKind w)])"
      by (auto simp: is_reason_def)
    then show ?thesis using Some same ls by (auto simp: call_accounted_def guarded_def)
  qed
qed

text \<open>Lines were added to the log, and nothing else was done.\<close>

definition logged_only :: "metering \<Rightarrow> metering \<Rightarrow> bool" where
  "logged_only m m' \<longleftrightarrow> given_out m' = given_out m \<and> (\<exists>ls. log_lines m' = log_lines m @ ls)"

lemma logged_only_refl [simp]: "logged_only m m"
  by (simp add: logged_only_def)

lemma logged_only_line: "logged_only m m' \<Longrightarrow> logged_only m (log_line l m')"
  by (auto simp: logged_only_def)

lemma submit_accounted:
  "logged_only m m' \<Longrightarrow> accounted_or_threw reason m (submit_router diagnostic e operation input m')"
  by (simp add: logged_only_def accounted_or_threw_def submit_router_def Let_def split: option.split answered.split)

lemma threw_accounted: "logged_only m m' \<Longrightarrow> accounted_or_threw reason m (m', Some w)"
  by (simp add: logged_only_def accounted_or_threw_def)

lemma reason_accounted: "logged_only m m' \<Longrightarrow> reason l \<Longrightarrow> accounted_or_threw reason m (log_line l m', None)"
  by (auto simp: logged_only_def accounted_or_threw_def)

lemma gateway_record_accounted:
  "accounted_or_threw (is_reason gateway_diagnostic (gc_operation c)) m (gateway_record opts e c result m)"
  by (simp add: gateway_record_def submit_accounted threw_accounted reason_accounted is_reason_def split: sum.split)

end
