(* ===== verification/Lookup.thy ===== *)
theory Lookup
  imports Diagnostics
begin

text \<open>
  \<open>adapters/openrouter/typescript/src/lookup.ts\<close>: the retried request that names the vendor of a
  generation, within a budget. A script gives what the loop reads in each round: \<open>performance.now()\<close>
  before the request and after it failed, and what \<open>getGeneration\<close> does. The loop is a partial
  function, \<open>None\<close> where it does not return; that it returns is proved.
\<close>

section \<open>Failures\<close>

text \<open>What is read of an error: its status code, if any, and its name when it is an \<open>Error\<close>.\<close>

record request_failure =
  statusCode :: jsval
  error_name :: "string option"
  unreadable :: bool

definition RETRYABLE_STATUSES :: "rat list" where
  "RETRYABLE_STATUSES = [404, 408, 429]"

definition PERMANENT_ERRORS :: "string list" where
  "PERMANENT_ERRORS = [''InvalidRequestError'', ''SDKValidationError'']"

definition retryable :: "request_failure \<Rightarrow> bool" where
  "retryable f =
     (if unreadable f then False
      else case statusCode f of
        JNum (Fin status) \<Rightarrow> status \<in> set RETRYABLE_STATUSES \<or> 500 \<le> status
      | JNum x \<Rightarrow> x = PosInf
      | _ \<Rightarrow> \<not> (case error_name f of None \<Rightarrow> False | Some name \<Rightarrow> name \<in> set PERMANENT_ERRORS))"

text \<open>\<open>GENERATION_ID\<close>.\<close>

definition isGenerationId :: "string \<Rightarrow> bool" where
  "isGenerationId i \<longleftrightarrow>
     take 4 i = ''gen-'' \<and> 1 \<le> length (drop 4 i) \<and> length (drop 4 i) \<le> 124 \<and>
     list_all (in_cls [(CHR ''0'', CHR ''9''), (CHR ''A'', CHR ''Z''), (CHR ''a'', CHR ''z''), (CHR ''-'', CHR ''-'')]) (drop 4 i)"

section \<open>The budget\<close>

definition bound :: "jsval \<Rightarrow> rat \<Rightarrow> rat" where
  "bound v fallback = (case v of JNum (Fin x) \<Rightarrow> if 0 \<le> x then x else fallback | _ \<Rightarrow> fallback)"

record budget =
  maxWaitMs :: rat
  initialDelayMs :: rat
  maxDelayMs :: rat

definition DEFAULT_MAX_WAIT_MS :: rat where "DEFAULT_MAX_WAIT_MS = 0"
definition DEFAULT_INITIAL_DELAY_MS :: rat where "DEFAULT_INITIAL_DELAY_MS = 250"
definition DEFAULT_MAX_DELAY_MS :: rat where "DEFAULT_MAX_DELAY_MS = 1000"

definition new_lookup :: "jsval \<Rightarrow> budget" where
  "new_lookup options =
     \<lparr>maxWaitMs = bound (jget options ''maxWaitMs'') DEFAULT_MAX_WAIT_MS,
      initialDelayMs = bound (jget options ''initialDelayMs'') DEFAULT_INITIAL_DELAY_MS,
      maxDelayMs = bound (jget options ''maxDelayMs'') DEFAULT_MAX_DELAY_MS\<rparr>"

section \<open>The loop\<close>

datatype lookup_outcome = Found facts | Disabled | Exhausted | Rejected

datatype lookup_answer = Responded jsval | Failed request_failure

record round =
  before_request :: rat
  answer_of :: lookup_answer
  after_failure :: rat

text \<open>
  The result carries what was done: the timeout of every request, and every wait with the time
  it started at.
\<close>

type_synonym lookup_result = "lookup_outcome \<times> int list \<times> (rat \<times> rat) list"

partial_function (option) find_loop ::
  "budget \<Rightarrow> rat \<Rightarrow> (nat \<Rightarrow> round) \<Rightarrow> nat \<Rightarrow> rat \<Rightarrow> int list \<Rightarrow> (rat \<times> rat) list \<Rightarrow> lookup_result option" where
  "find_loop b deadline script n delay timeouts waits =
     (let remaining = deadline - before_request (script n)
      in if remaining \<le> 0 then Some (Exhausted, timeouts, waits)
         else
           let timeouts = timeouts @ [\<lceil>remaining\<rceil>]
           in case answer_of (script n) of
                Responded response \<Rightarrow> Some (Found (readFacts response), timeouts, waits)
              | Failed f \<Rightarrow>
                  (if \<not> retryable f then Some (Rejected, timeouts, waits)
                   else
                     let wait = min delay (maxDelayMs b); now = after_failure (script n)
                     in if deadline - now \<le> wait then Some (Exhausted, timeouts, waits)
                        else find_loop b deadline script (n + 1) (delay * 2) timeouts (waits @ [(now, wait)])))"

text \<open>\<open>find\<close>; a client without \<open>getGeneration\<close> makes it throw, the result \<open>Inl\<close>.\<close>

definition find_generation :: "budget \<Rightarrow> bool \<Rightarrow> rat \<Rightarrow> (nat \<Rightarrow> round) \<Rightarrow> host_error + lookup_result option" where
  "find_generation b has_getter started script =
     (if maxWaitMs b = 0 then Inr (Some (Disabled, [], []))
      else if \<not> has_getter then Inl TYPE_ERROR
      else Inr (find_loop b (started + maxWaitMs b) script 0 (initialDelayMs b) [] []))"

section \<open>The loop returns in time\<close>

text \<open>
  The clock does not run backwards, and a wait takes some time: \<open>setTimeout\<close> waits a millisecond
  at least, whatever it is given.
\<close>

definition paced :: "rat \<Rightarrow> rat \<Rightarrow> (nat \<Rightarrow> round) \<Rightarrow> bool" where
  "paced started gap script \<longleftrightarrow>
     started \<le> before_request (script 0) \<and>
     (\<forall>n. before_request (script n) \<le> after_failure (script n)) \<and>
     (\<forall>n. after_failure (script n) + gap \<le> before_request (script (n + 1)))"

lemma paced_clock:
  assumes "paced started gap script" "0 \<le> gap"
  shows "started + of_nat n * gap \<le> before_request (script n)"
proof (induction n)
  case 0
  then show ?case using assms by (simp add: paced_def)
next
  case (Suc n)
  have "before_request (script n) \<le> after_failure (script n)"
    "after_failure (script n) + gap \<le> before_request (script (n + 1))"
    using assms by (simp_all add: paced_def)
  then show ?case using Suc by (simp add: algebra_simps)
qed

text \<open>What holds of the requests and the waits so far.\<close>

definition in_budget :: "budget \<Rightarrow> rat \<Rightarrow> rat \<Rightarrow> int list \<Rightarrow> (rat \<times> rat) list \<Rightarrow> bool" where
  "in_budget b gap deadline timeouts waits \<longleftrightarrow>
     (timeouts \<noteq> [] \<longrightarrow> of_nat (length timeouts - 1) * gap < maxWaitMs b) \<and>
     map snd waits = map (\<lambda>i. min (initialDelayMs b * 2 ^ i) (maxDelayMs b)) [0..<length waits] \<and>
     (\<forall>t \<in> set timeouts. 0 < t \<and> t \<le> \<lceil>maxWaitMs b\<rceil>) \<and> (\<forall>w \<in> set waits. fst w + snd w < deadline)"

lemma in_budget_request:
  assumes "in_budget b gap deadline timeouts waits" "of_nat (length timeouts) * gap < maxWaitMs b"
    "0 < remaining" "remaining \<le> maxWaitMs b"
  shows "in_budget b gap deadline (timeouts @ [\<lceil>remaining\<rceil>]) waits"
  using assms by (auto simp: in_budget_def ceiling_mono)

lemma in_budget_wait:
  assumes "in_budget b gap deadline timeouts waits" "now + wait < deadline"
    "wait = min (initialDelayMs b * 2 ^ length waits) (maxDelayMs b)"
  shows "in_budget b gap deadline timeouts (waits @ [(now, wait)])"
  using assms by (auto simp: in_budget_def)

lemma find_loop_returns:
  assumes paced: "paced started gap script" and gap: "0 < gap" and deadline: "deadline = started + maxWaitMs b"
    and so_far: "in_budget b gap deadline timeouts waits" "length timeouts = n" "length waits = n"
      "delay = initialDelayMs b * 2 ^ n"
  shows "\<exists>out timeouts' waits'. find_loop b deadline script n delay timeouts waits = Some (out, timeouts', waits') \<and>
    in_budget b gap deadline timeouts' waits' \<and> length waits' \<le> length timeouts'"
  using so_far
proof (induction "nat \<lceil>(deadline - before_request (script n)) / gap\<rceil>" arbitrary: n delay timeouts waits rule: less_induct)
  case less
  let ?remaining = "deadline - before_request (script n)"
  let ?now = "after_failure (script n)"
  let ?wait = "min delay (maxDelayMs b)"
  have clock: "started + of_nat n * gap \<le> before_request (script n)"
    using paced_clock [OF paced] gap by simp
  show ?case
  proof (cases "?remaining \<le> 0")
    case True
    then show ?thesis using less.prems by (subst find_loop.simps) (simp add: Let_def)
  next
    case False
    have "0 \<le> of_nat n * gap" using gap by simp
    then have "in_budget b gap deadline (timeouts @ [\<lceil>?remaining\<rceil>]) waits"
      using False clock deadline by (intro in_budget_request less.prems(1)) (simp_all add: less.prems(2))
    note asked = this
    show ?thesis
    proof (cases "\<exists>f. answer_of (script n) = Failed f \<and> retryable f \<and> ?wait < deadline - ?now")
      case False
      then show ?thesis using \<open>\<not> ?remaining \<le> 0\<close> asked less.prems(2,3)
        by (subst find_loop.simps) (auto simp: Let_def not_less split: lookup_answer.split)
    next
      case True
      then obtain f where f: "answer_of (script n) = Failed f" "retryable f" "?wait < deadline - ?now" by blast
      have next': "find_loop b deadline script n delay timeouts waits =
          find_loop b deadline script (n + 1) (delay * 2) (timeouts @ [\<lceil>?remaining\<rceil>]) (waits @ [(?now, ?wait)])"
      proof -
        have "\<not> deadline - ?now \<le> ?wait" using f(3) by linarith
        then show ?thesis using f(1,2) \<open>\<not> ?remaining \<le> 0\<close>
          by (subst find_loop.simps) (simp add: Let_def del: min.bounded_iff)
      qed
      have "in_budget b gap deadline (timeouts @ [\<lceil>?remaining\<rceil>]) (waits @ [(?now, ?wait)])"
        by (rule in_budget_wait [OF asked]) (use f(3) less.prems(3,4) in simp_all)
      moreover have "before_request (script n) + gap \<le> before_request (script (n + 1))"
        using paced unfolding paced_def by (metis add_right_mono order_trans)
      then have "(deadline - before_request (script (n + 1)) + gap) / gap \<le> ?remaining / gap"
        using gap by (intro divide_right_mono) simp_all
      then have "(deadline - before_request (script (n + 1))) / gap + 1 \<le> ?remaining / gap"
        using gap by (simp add: add_divide_distrib)
      then have "\<lceil>(deadline - before_request (script (n + 1))) / gap\<rceil> < \<lceil>?remaining / gap\<rceil>"
        by linarith
      moreover have "0 < \<lceil>?remaining / gap\<rceil>" using \<open>\<not> ?remaining \<le> 0\<close> gap by simp
      ultimately show ?thesis unfolding next' using less.prems
        by (intro less.hyps) simp_all
    qed
  qed
qed

text \<open>
  C30: a lookup always returns, in time. With a clock that advances by some \<open>gap\<close> in every wait, the
  loop ends whatever the service answers, after fewer than \<open>maxWaitMs / gap + 1\<close> requests. Every
  request is given a timeout that is positive and no longer than the whole budget, the waits
  double from \<open>initialDelayMs\<close> up to \<open>maxDelayMs\<close>, and none starts that would outlast the budget;
  with a budget of 0 nothing is asked at all.
\<close>

theorem lookup_within_budget:
  assumes "paced started gap script" "0 < gap"
  shows "\<exists>out timeouts waits. find_generation b True started script = Inr (Some (out, timeouts, waits)) \<and>
    (timeouts \<noteq> [] \<longrightarrow> of_nat (length timeouts - 1) * gap < maxWaitMs b) \<and>
    (\<forall>t \<in> set timeouts. 0 < t \<and> t \<le> \<lceil>maxWaitMs b\<rceil>) \<and>
    map snd waits = map (\<lambda>i. min (initialDelayMs b * 2 ^ i) (maxDelayMs b)) [0..<length waits] \<and>
    (\<forall>w \<in> set waits. fst w + snd w < started + maxWaitMs b) \<and>
    (maxWaitMs b = 0 \<longrightarrow> out = Disabled \<and> timeouts = [] \<and> waits = [])"
proof (cases "maxWaitMs b = 0")
  case True
  then show ?thesis by (simp add: find_generation_def)
next
  case False
  have "in_budget b gap (started + maxWaitMs b) [] []" by (simp add: in_budget_def)
  from find_loop_returns [OF assms refl this, of 0 "initialDelayMs b"]
  obtain out timeouts waits where
    "find_loop b (started + maxWaitMs b) script 0 (initialDelayMs b) [] [] = Some (out, timeouts, waits)"
    "in_budget b gap (started + maxWaitMs b) timeouts waits" by auto
  then show ?thesis using False
    by (intro exI [of _ out] exI [of _ timeouts] exI [of _ waits]) (simp add: find_generation_def in_budget_def)
qed

definition demo_script :: "nat \<Rightarrow> round" where
  "demo_script n = \<lparr>before_request = 500 * of_nat n,
     answer_of = Failed \<lparr>statusCode = JNum (Fin 404), error_name = None, unreadable = False\<rparr>,
     after_failure = 500 * of_nat n + 100\<rparr>"

definition demo_budget :: budget where
  "demo_budget = \<lparr>maxWaitMs = 1000, initialDelayMs = 250, maxDelayMs = 1000\<rparr>"

theorem lookup_within_budget_witness:
  "find_generation demo_budget True 0 demo_script = Inr (Some (Exhausted, [1000, 500], [(100, 250)])) \<and>
    of_nat (length [1000 :: int, 500] - 1) * 400 < maxWaitMs demo_budget"
proof -
  have "paced 0 400 demo_script" by (simp add: paced_def demo_script_def algebra_simps)
  moreover have "find_generation demo_budget True 0 demo_script = Inr (Some (Exhausted, [1000, 500], [(100, 250)]))"
    by (simp add: find_generation_def find_loop.simps demo_script_def demo_budget_def Let_def retryable_def
        RETRYABLE_STATUSES_def)
  ultimately show ?thesis using lookup_within_budget [of 0 400 demo_script demo_budget] by simp
qed

end
