(* ===== verification/OpenRouter.thy ===== *)
theory OpenRouter
  imports Gateway Lookup
begin

text \<open>
  \<open>adapters/openrouter/typescript/src/openrouter.ts\<close>: what the facade of an OpenRouter client does
  with a call and with the frames of its stream. What the lookup of an identifier comes to is an
  argument; \<open>Lookup\<close> shows that it comes to something. The scope of a call is one too; the
  proxy that forwards to the native client is in \<open>Facade\<close>.
\<close>

section \<open>A call\<close>

definition OPENROUTER_VERSION :: string where
  "OPENROUTER_VERSION = ''0.2.0''"

definition OPENROUTER_EMITTER :: jsval where
  "OPENROUTER_EMITTER = JObj
     [(''component'', JStr ''router''), (''name'', JStr ''@openaudr/audr-adapter-openrouter''),
      (''version'', JStr OPENROUTER_VERSION)]"

definition CHAT_FAILED_CODE :: string where
  "CHAT_FAILED_CODE = ''OPENROUTER_CHAT_FAILED''"

datatype family = Chat | Responses | Embeddings

text \<open>\<open>OPERATIONS\<close>.\<close>

fun operation_name :: "family \<Rightarrow> string" where
  "operation_name Chat = ''chat.send''"
| "operation_name Responses = ''responses.send''"
| "operation_name Embeddings = ''embeddings.generate''"

fun span_kind :: "family \<Rightarrow> string" where
  "span_kind Chat = ''chat''"
| "span_kind Responses = ''response''"
| "span_kind Embeddings = ''embedding''"

fun operation_kind :: "family \<Rightarrow> string" where
  "operation_kind Chat = ''generation''"
| "operation_kind Responses = ''generation''"
| "operation_kind Embeddings = ''embedding''"

fun requestBody :: "family \<Rightarrow> string option" where
  "requestBody Chat = Some ''chatRequest''"
| "requestBody Responses = Some ''responsesRequest''"
| "requestBody Embeddings = None"

definition requestedKinds :: "jsval \<Rightarrow> string option \<Rightarrow> kind list" where
  "requestedKinds request body =
     (let inner = (case body of None \<Rightarrow> JUndef | Some k \<Rightarrow> jget request k)
      in declaredKinds (jget inner ''modalities''))"

record openrouter_call =
  oc_family :: family
  oc_declared :: "kind list"
  oc_attribution :: jsval
  oc_run :: "jsval option"
  oc_started :: rat

record openrouter_options =
  or_defaults :: jsval
  or_mapResource :: "(string option \<Rightarrow> string option \<Rightarrow> host_error + jsval) option"

definition new_openrouter :: "bool \<Rightarrow> jsval \<Rightarrow> (string option \<Rightarrow> string option \<Rightarrow> host_error + jsval) option \<Rightarrow>
    string + openrouter_options" where
  "new_openrouter has_record defaults mapped =
     (if \<not> has_record then Inl ''client must implement record()''
      else Inr \<lparr>or_defaults = mergeScoped (JObj []) defaults, or_mapResource = mapped\<rparr>)"

definition begin_openrouter :: "openrouter_options \<Rightarrow> scope \<Rightarrow> rat \<Rightarrow> family \<Rightarrow> jsval \<Rightarrow> metering \<Rightarrow> openrouter_call option \<times> metering" where
  "begin_openrouter opts sc started fam request m =
     (let who = mergeScoped (or_defaults opts) (sc_attribution sc)
      in if jget who ''environment'' = JUndef
         then (None, log_line (openrouter_diagnostic ''ATTRIBUTION_UNRESOLVED'' [(''operation'', operation_name fam)]) m)
         else (Some \<lparr>oc_family = fam, oc_declared = requestedKinds request (requestBody fam), oc_attribution = who,
           oc_run = sc_run sc, oc_started = started\<rparr>, m))"

section \<open>Its record\<close>

text \<open>What is logged of an operation.\<close>

definition warn_of :: "family \<Rightarrow> string \<Rightarrow> (string \<times> string) list \<Rightarrow> metering \<Rightarrow> metering" where
  "warn_of fam what details = log_line (openrouter_diagnostic what ((''operation'', operation_name fam) # details))"

text \<open>\<open>#find\<close>: the facts; \<open>found\<close> is what \<open>find\<close> comes to, and a lookup that throws ends the step.\<close>

fun failure_reason :: "lookup_outcome \<Rightarrow> string" where
  "failure_reason Disabled = ''disabled''"
| "failure_reason Exhausted = ''exhausted''"
| "failure_reason Rejected = ''rejected''"
| "failure_reason (Found _) = []"

definition find_facts :: "(string \<Rightarrow> host_error + lookup_outcome) \<Rightarrow> family \<Rightarrow> observation \<Rightarrow> metering \<Rightarrow>
    host_error + (facts option \<times> metering)" where
  "find_facts found fam ob m =
     (case ob_id ob of
        Some i \<Rightarrow>
          (if \<not> isGenerationId i then Inr (None, warn_of fam ''LOOKUP_FAILED'' [(''reason'', ''no_id'')] m)
           else case found i of
             Inl w \<Rightarrow> Inl w
           | Inr (Found fs) \<Rightarrow> Inr (Some fs, m)
           | Inr x \<Rightarrow> Inr (None, warn_of fam ''LOOKUP_FAILED'' [(''reason'', failure_reason x)] m))
      | None \<Rightarrow> Inr (None, warn_of fam ''LOOKUP_FAILED'' [(''reason'', ''no_id'')] m))"

definition text_value :: "string option \<Rightarrow> jsval" where
  "text_value v = (case v of None \<Rightarrow> JUndef | Some s \<Rightarrow> JStr s)"

text \<open>The time a call completed at, on the wall clock, and how long it took.\<close>

type_synonym elapsed = "int \<times> rat"

definition openrouter_input :: "router_env \<Rightarrow> openrouter_call \<Rightarrow> elapsed \<Rightarrow> observation \<Rightarrow> jsval \<Rightarrow> jsval \<Rightarrow> jsval option \<Rightarrow> fields" where
  "openrouter_input e c timing ob provider name cost =
     (let i = (case ob_id ob of Some i \<Rightarrow> i | None \<Rightarrow> uuid_span e)
      in [(''emitter'', OPENROUTER_EMITTER),
          (''timing'', JObj [(''event_time'', JDate (Some (fst timing))), (''duration_ms'', JNum (Fin (snd timing)))]),
          (''resource'', JObj [(''provider'', provider), (''type'', JStr ''model''), (''name'', name),
             (''operation'', JStr (operation_kind (oc_family c))), (''modality'', JStr (ob_modality ob))]),
          (''usage'', JObj [(''llm'', usage_json (ob_usage ob))])] @
         (case cost of None \<Rightarrow> [] | Some v \<Rightarrow> [(''cost'', v)]) @
         [(''run'', run_block (oc_run c) (span_kind (oc_family c)) i (uuid_run e) (ob_error ob)),
          (''attribution'', oc_attribution c)])"

text \<open>\<open>#record\<close> once the facts are known.\<close>

definition record_known :: "openrouter_options \<Rightarrow> router_env \<Rightarrow> openrouter_call \<Rightarrow> elapsed \<Rightarrow> observation \<Rightarrow> facts option \<Rightarrow>
    metering \<Rightarrow> metering \<times> host_error option" where
  "record_known opts e c timing ob known m =
     (let fam = oc_family c; served = servedProvider ob known
      in case (case or_mapResource opts of None \<Rightarrow> Inr JUndef | Some f \<Rightarrow> f (ob_model ob) served) of
           Inl w \<Rightarrow> (m, Some w)
         | Inr mapped \<Rightarrow>
             (let name = coalesce (jget mapped ''name'') (text_value (ob_model ob))
              in if \<not> truthy name then (warn_of fam ''MODEL_UNREPORTED'' [] m, None)
                 else
                   let slug = coalesce (jget mapped ''provider'')
                         (text_value (case served of None \<Rightarrow> None | Some s \<Rightarrow> vendor_slug s));
                       m = (if slug = JUndef then warn_of fam ''PROVIDER_UNRESOLVED'' [] m else m);
                       provider = coalesce slug (JStr OPENROUTER_PROVIDER);
                       (cost, incomplete) = resolveCost (charge ob)
                         (opt_or (ob_byok ob) (case known of None \<Rightarrow> None | Some f \<Rightarrow> f_byok f))
                         (opt_or (upstream ob) (case known of None \<Rightarrow> None | Some f \<Rightarrow> f_upstream f));
                       m = (if incomplete then warn_of fam ''BYOK_COST_INCOMPLETE'' [] m else m)
                   in submit_router openrouter_diagnostic e (operation_name fam) (openrouter_input e c timing ob provider name cost) m))"

definition record_observed :: "openrouter_options \<Rightarrow> (string \<Rightarrow> host_error + lookup_outcome) \<Rightarrow> router_env \<Rightarrow> openrouter_call \<Rightarrow>
    elapsed \<Rightarrow> observation option \<Rightarrow> metering \<Rightarrow> metering \<times> host_error option" where
  "record_observed opts found e c timing observed m =
     (case observed of
        None \<Rightarrow> (warn_of (oc_family c) ''USAGE_UNREPORTED'' [] m, None)
      | Some ob \<Rightarrow>
          (case (if needsLookup ob then find_facts found (oc_family c) ob m else Inr (None, m)) of
             Inl w \<Rightarrow> (m, Some w)
           | Inr (known, m) \<Rightarrow> record_known opts e c timing ob known m))"

definition elapsed_of :: "router_env \<Rightarrow> openrouter_call \<Rightarrow> elapsed" where
  "elapsed_of e c = (wall_ms e, math_round (perf_ms e - oc_started c))"

text \<open>\<open>#observe\<close>.\<close>

definition observe_result :: "openrouter_call \<Rightarrow> jsval \<Rightarrow> observation option" where
  "observe_result c result =
     (case oc_family c of
        Chat \<Rightarrow> chatObservation result (oc_declared c) None None
      | Responses \<Rightarrow> responsesObservation result (oc_declared c) (statusErrorCode (jget result ''status''))
      | Embeddings \<Rightarrow> embeddingsObservation result)"

text \<open>\<open>#guard\<close> around \<open>#record\<close>.\<close>

definition guarded_record :: "openrouter_options \<Rightarrow> (string \<Rightarrow> host_error + lookup_outcome) \<Rightarrow> router_env \<Rightarrow> openrouter_call \<Rightarrow>
    elapsed \<Rightarrow> observation option \<Rightarrow> metering \<Rightarrow> metering" where
  "guarded_record opts found e c timing observed m =
     guarded openrouter_diagnostic (operation_name (oc_family c)) (record_observed opts found e c timing observed m)"

text \<open>\<open>measure\<close>, of a result that is no stream to be inspected.\<close>

definition measure_openrouter :: "openrouter_options \<Rightarrow> (string \<Rightarrow> host_error + lookup_outcome) \<Rightarrow> router_env \<Rightarrow>
    openrouter_call option \<Rightarrow> jsval \<Rightarrow> metering \<Rightarrow> metering" where
  "measure_openrouter opts found e call result m =
     (case call of None \<Rightarrow> m
      | Some c \<Rightarrow> guarded_record opts found e c (elapsed_of e c) (observe_result c result) m)"

section \<open>Inspecting a stream\<close>

text \<open>The state \<open>#inspectChat\<close> keeps, its verdict on a frame and what it records.\<close>

record inspector =
  in_router :: "router option"
  in_failed :: bool

definition new_inspector :: inspector where
  "new_inspector = \<lparr>in_router = None, in_failed = False\<rparr>"

definition chat_inspect :: "kind list \<Rightarrow> jsval \<Rightarrow> inspector \<Rightarrow> frame_verdict \<times> observation option \<times> inspector" where
  "chat_inspect asked frame s =
     (if \<not> isRecord frame then (Continue, None, s)
      else
        let s = \<lparr>in_router = opt_or (readRouter (jget frame ''openrouterMetadata'')) (in_router s),
                 in_failed = (in_failed s \<or> \<not> nullish (jget frame ''error''))\<rparr>
        in if \<not> isRecord (jget frame ''usage'')
           then (if nullish (jget frame ''error'') then Continue else Error_frame, None, s)
           else (Record_it,
             chatObservation frame asked (in_router s) (if in_failed s then Some CHAT_FAILED_CODE else None), s))"

text \<open>\<open>#inspectResponses\<close>.\<close>

definition responses_inspect :: "kind list \<Rightarrow> jsval \<Rightarrow> frame_verdict \<times> observation option" where
  "responses_inspect asked frame =
     (if \<not> isRecord frame then (Continue, None)
      else
        let kind = jget frame ''type''
        in if kind = JStr ''error'' then (Error_frame, None)
           else if \<not> isTerminalType kind then (Continue, None)
           else case responsesObservation (jget frame ''response'') asked (terminalErrorCode kind) of
             None \<Rightarrow> (No_usage, None)
           | Some ob \<Rightarrow> (Record_it, Some ob))"

text \<open>\<open>#inspector\<close>: the frame of a stream, for a resource that streams.\<close>

definition inspect_frame :: "openrouter_call \<Rightarrow> jsval \<Rightarrow> inspector \<Rightarrow> (frame_verdict \<times> observation option \<times> inspector) option" where
  "inspect_frame c frame s =
     (case oc_family c of
        Chat \<Rightarrow> Some (chat_inspect (oc_declared c) frame s)
      | Responses \<Rightarrow> (case responses_inspect (oc_declared c) frame of (v, ob) \<Rightarrow> Some (v, ob, s))
      | Embeddings \<Rightarrow> None)"

text \<open>What a frame is metered as before it is yielded.\<close>

definition meter_stream_frame :: "openrouter_options \<Rightarrow> (string \<Rightarrow> host_error + lookup_outcome) \<Rightarrow> router_env \<Rightarrow> openrouter_call \<Rightarrow>
    jsval \<Rightarrow> inspector \<Rightarrow> metering \<Rightarrow> frame_verdict \<times> inspector \<times> metering" where
  "meter_stream_frame opts found e c frame s m =
     (case inspect_frame c frame s of
        None \<Rightarrow> (Continue, s, m)
      | Some (v, ob, s) \<Rightarrow> (v, s, if v = Record_it then guarded_record opts found e c (elapsed_of e c) ob m else m))"

section \<open>No call is lost silently\<close>

lemma logged_only_warn: "logged_only m m' \<Longrightarrow> logged_only m (warn_of fam what details m')"
  unfolding warn_of_def by (rule logged_only_line)

lemma warn_accounted:
  "logged_only m m' \<Longrightarrow> what \<in> {''MODEL_UNREPORTED'', ''USAGE_UNREPORTED''} \<Longrightarrow>
    accounted_or_threw (is_reason openrouter_diagnostic (operation_name fam)) m (warn_of fam what [] m', None)"
  unfolding warn_of_def by (rule reason_accounted) (auto simp: is_reason_def)

lemma find_facts_log: "find_facts found fam ob m = Inr (known, m') \<Longrightarrow> logged_only m m'"
  by (auto simp: find_facts_def logged_only_warn split: option.splits if_splits sum.splits lookup_outcome.splits)

lemma record_known_accounted:
  assumes "logged_only m m'"
  shows "accounted_or_threw (is_reason openrouter_diagnostic (operation_name (oc_family c))) m
    (record_known opts e c timing ob known m')"
  unfolding record_known_def Let_def
  by (simp split: sum.split prod.split)
    (simp add: assms submit_accounted logged_only_warn threw_accounted warn_accounted split: option.split)

lemma record_observed_accounted:
  "accounted_or_threw (is_reason openrouter_diagnostic (operation_name (oc_family c))) m
    (record_observed opts found e c timing observed m)"
  using find_facts_log
  by (auto simp: record_observed_def record_known_accounted threw_accounted warn_accounted
      split: option.split sum.split prod.split)

lemma guarded_record_accounted:
  "call_accounted (is_reason openrouter_diagnostic (operation_name (oc_family c))) m
    (guarded_record opts found e c timing observed m)"
  unfolding guarded_record_def by (rule accounted_guarded) (rule record_observed_accounted)


section \<open>A chat stream\<close>

text \<open>What the inspector holds after some frames.\<close>

definition inspected :: "kind list \<Rightarrow> jsval list \<Rightarrow> inspector" where
  "inspected asked frames = foldl (\<lambda>s f. snd (snd (chat_inspect asked f s))) new_inspector frames"

text \<open>The last router metadata some frames carried, and whether one of them reported an error.\<close>

fun last_router :: "jsval list \<Rightarrow> router option" where
  "last_router [] = None"
| "last_router (f # fs) = opt_or (last_router fs) (readRouter (jget f ''openrouterMetadata''))"

definition reported_error :: "jsval list \<Rightarrow> bool" where
  "reported_error frames \<longleftrightarrow> (\<exists>f \<in> set frames. isRecord f \<and> \<not> nullish (jget f ''error''))"

lemma jget_not_record: "\<not> isRecord f \<Longrightarrow> jget f k = JUndef"
  by (cases f) (auto simp: isRecord_def jget_def)

lemma last_router_snoc: "last_router (fs @ [f]) = opt_or (readRouter (jget f ''openrouterMetadata'')) (last_router fs)"
proof (induction fs)
  case (Cons g gs)
  then show ?case by (simp add: opt_or_assoc)
qed simp

lemma inspected_eq: "inspected asked frames = \<lparr>in_router = last_router frames, in_failed = reported_error frames\<rparr>"
proof (induction frames rule: rev_induct)
  case Nil
  then show ?case by (simp add: inspected_def new_inspector_def reported_error_def)
next
  case (snoc f fs)
  have "readRouter JUndef = None" by (simp add: readRouter_def isRecord_def)
  moreover have "inspected asked (fs @ [f]) = snd (snd (chat_inspect asked f (inspected asked fs)))"
    by (simp add: inspected_def)
  ultimately show ?case
    by (auto simp: snoc.IH chat_inspect_def Let_def last_router_snoc reported_error_def jget_not_record)
qed

text \<open>
  A chat stream is recorded from the frame that carries the usage, and from what the frames
  up to it carried: the router metadata of the last frame that had any, and the error code
  exactly when some frame, itself included, reported an error. A frame without usage is not
  recorded; it leaves the stream waiting, marked as failed when it reports an error.
\<close>

theorem chat_stream_recorded:
  shows "fst (chat_inspect asked frame (inspected asked before)) =
      (if isRecord frame \<and> isRecord (jget frame ''usage'') then Record_it
       else if isRecord frame \<and> \<not> nullish (jget frame ''error'') then Error_frame else Continue) \<and>
    fst (snd (chat_inspect asked frame (inspected asked before))) =
      (if isRecord frame \<and> isRecord (jget frame ''usage'')
       then chatObservation frame asked (last_router (before @ [frame]))
         (if reported_error (before @ [frame]) then Some CHAT_FAILED_CODE else None)
       else None)"
  by (auto simp: chat_inspect_def inspected_eq Let_def last_router_snoc reported_error_def)

end
