(* ===== verification/Facade.thy ===== *)
theory Facade
  imports OpenRouter
begin

text \<open>
  The facades of the two router adapters: \<open>instrumentOpenRouter\<close>, \<open>meterMethod\<close> and \<open>measure\<close> of
  \<open>adapters/openrouter/typescript/src/openrouter.ts\<close>, \<open>instrumentMergeGateway\<close>, \<open>meterCreate\<close> and \<open>measure\<close> of
  \<open>adapters/merge-gateway/typescript/src/gateway.ts\<close>, and \<open>forward\<close>, which both have. The native client is a
  graph of objects whose properties are data, objects and methods; what a method does is an
  argument, of the receiver it runs on, its name and its arguments.
\<close>

section \<open>Objects and proxies\<close>

datatype property = Missing | Datum jsval | Child nat | Function

type_synonym heap = "nat \<Rightarrow> string \<Rightarrow> property"

text \<open>
  What a host can hold: a native object; a facade of one, with the properties it answers itself,
  each a resource of the client, the method of it that is metered and the operation; and such
  a resource.
\<close>

datatype 'op ref =
    Native nat
  | Facade nat "(string \<times> nat \<times> string \<times> 'op) list"
  | Resource nat string 'op

text \<open>What reading a property gives: a method is bound to an object, or takes the receiver of its call.\<close>

datatype 'op got =
    Undefined
  | Got_data jsval
  | Got_object "'op ref"
  | Unbound nat string
  | Bound nat string
  | Metered nat string 'op

fun native_get :: "heap \<Rightarrow> nat \<Rightarrow> string \<Rightarrow> 'op got" where
  "native_get h a k =
     (case h a k of Missing \<Rightarrow> Undefined | Datum v \<Rightarrow> Got_data v | Child b \<Rightarrow> Got_object (Native b) | Function \<Rightarrow> Unbound a k)"

text \<open>\<open>forward\<close>, the \<open>get\<close> of the proxy.\<close>

definition forward :: "heap \<Rightarrow> nat \<Rightarrow> (string \<times> 'op got) list \<Rightarrow> string \<Rightarrow> 'op got" where
  "forward h a overrides k =
     (case map_of overrides k of
        Some g \<Rightarrow> g
      | None \<Rightarrow> (case native_get h a k of Unbound b n \<Rightarrow> Bound b n | g \<Rightarrow> g))"

text \<open>\<open>meterMethod\<close> and \<open>meterCreate\<close>.\<close>

definition meterMethod :: "heap \<Rightarrow> nat \<Rightarrow> string \<Rightarrow> 'op \<Rightarrow> string \<Rightarrow> 'op got" where
  "meterMethod h a mth op = forward h a [(mth, Metered a mth op)]"

fun get_property :: "heap \<Rightarrow> 'op ref \<Rightarrow> string \<Rightarrow> 'op got" where
  "get_property h (Native a) k = native_get h a k"
| "get_property h (Facade a overrides) k =
     forward h a (map (\<lambda>(p, b, mth, op). (p, Got_object (Resource b mth op))) overrides) k"
| "get_property h (Resource a mth op) k = meterMethod h a mth op k"

text \<open>\<open>client.a.b\<close>.\<close>

fun walk :: "heap \<Rightarrow> 'op ref \<Rightarrow> string list \<Rightarrow> 'op ref option" where
  "walk h x [] = Some x"
| "walk h x (k # ks) = (case get_property h x k of Got_object y \<Rightarrow> walk h y ks | _ \<Rightarrow> None)"

section \<open>Calls\<close>

text \<open>
  What a native method returns: a value; a stream; or a value that throws when it is asked whether
  it is a stream, or when the stream is wrapped. The host is handed the same, or a proxy of the
  stream.
\<close>

datatype native_result = Plain jsval | Streaming jsval | Resisting host_error jsval

datatype handed = Same native_result | Stream_proxy jsval

fun underlying :: "handed \<Rightarrow> native_result" where
  "underlying (Same r) = r"
| "underlying (Stream_proxy v) = Streaming v"

fun value_of :: "native_result \<Rightarrow> jsval" where
  "value_of (Plain v) = v"
| "value_of (Streaming v) = v"
| "value_of (Resisting w v) = v"

text \<open>One native call: the receiver, the object the method was read from, its name and the arguments.\<close>

record 'op invocation =
  receiver :: "'op ref"
  owner :: nat
  method_name :: string
  arguments :: "jsval list"

type_synonym 'op native = "'op invocation \<Rightarrow> host_error + native_result"

text \<open>What \<open>measure\<close> makes of an outcome, of an operation and the arguments of its call.\<close>

type_synonym 'op meter = "'op \<Rightarrow> jsval list \<Rightarrow> host_error + native_result \<Rightarrow> metering \<Rightarrow> (host_error + handed) \<times> metering"

record 'op host_state =
  native_calls :: "'op invocation list"
  metered_so_far :: metering

definition pass_through :: "host_error + native_result \<Rightarrow> host_error + handed" where
  "pass_through r = map_sum id Same r"

text \<open>
  \<open>x.k(\<dots>args)\<close>: reading \<open>k\<close>, then calling what was read; a value that is no function throws, and so does
  the native call of a metered method that is none by then.
\<close>

definition call_method :: "heap \<Rightarrow> 'op native \<Rightarrow> 'op meter \<Rightarrow> 'op ref \<Rightarrow> string \<Rightarrow> jsval list \<Rightarrow> 'op host_state \<Rightarrow>
    (host_error + handed) \<times> 'op host_state" where
  "call_method h native meter x k args st =
     (let invoke = (\<lambda>this a n. \<lparr>receiver = this, owner = a, method_name = n, arguments = args\<rparr>);
          after = (\<lambda>i m. \<lparr>native_calls = native_calls st @ [i], metered_so_far = m\<rparr>)
      in case get_property h x k of
           Unbound a n \<Rightarrow> (pass_through (native (invoke x a n)), after (invoke x a n) (metered_so_far st))
         | Bound a n \<Rightarrow> (pass_through (native (invoke (Native a) a n)), after (invoke (Native a) a n) (metered_so_far st))
         | Metered a n op \<Rightarrow>
             (let i = invoke (Native a) a n; callable = (h a n = Function);
                  (r, m) = meter op args (if callable then native i else Inl TYPE_ERROR) (metered_so_far st)
              in (r, if callable then after i m else st\<lparr>metered_so_far := m\<rparr>))
         | _ \<Rightarrow> (Inl TYPE_ERROR, st))"

definition host_call :: "heap \<Rightarrow> 'op native \<Rightarrow> 'op meter \<Rightarrow> 'op ref \<Rightarrow> string list \<Rightarrow> string \<Rightarrow> jsval list \<Rightarrow> 'op host_state \<Rightarrow>
    (host_error + handed) \<times> 'op host_state" where
  "host_call h native meter x path k args st =
     (case walk h x path of
        None \<Rightarrow> (Inl TYPE_ERROR, st)
      | Some y \<Rightarrow> call_method h native meter y k args st)"

section \<open>The two adapters\<close>

text \<open>
  Making a facade: one that is a facade already is refused, then a client without \<open>record()\<close>, then
  one whose resources are no objects, which no proxy can be made of; a resource has no such
  properties.
\<close>

definition capture :: "heap \<Rightarrow> nat \<Rightarrow> (string \<times> string \<times> 'op) list \<Rightarrow> (string \<times> nat \<times> string \<times> 'op) list option" where
  "capture h a metered =
     those (map (\<lambda>(p, mth, op). case h a p of Child b \<Rightarrow> Some (p, b, mth, op) | _ \<Rightarrow> None) metered)"

definition instrument :: "(string \<times> string \<times> 'op) list \<Rightarrow> string \<Rightarrow> heap \<Rightarrow> bool \<Rightarrow> 'op ref \<Rightarrow> 'op ref list \<Rightarrow>
    string + 'op ref \<times> 'op ref list" where
  "instrument metered what h has_record x instrumented =
     (if List.member instrumented x then Inl (what @ '' is already instrumented'')
      else if \<not> has_record then Inl ''client must implement record()''
      else case x of
        Native a \<Rightarrow>
          (case capture h a metered of
             None \<Rightarrow> Inl ''TypeError''
           | Some overrides \<Rightarrow> Inr (Facade a overrides, Facade a overrides # instrumented))
      | _ \<Rightarrow> Inl ''TypeError'')"

subsection \<open>OpenRouter\<close>

definition OPENROUTER_METERED :: "(string \<times> string \<times> family) list" where
  "OPENROUTER_METERED =
    [(''chat'', ''send'', Chat), (''responses'', ''send'', Responses), (''embeddings'', ''generate'', Embeddings)]"

definition instrumentOpenRouter :: "heap \<Rightarrow> bool \<Rightarrow> family ref \<Rightarrow> family ref list \<Rightarrow> string + family ref \<times> family ref list" where
  "instrumentOpenRouter = instrument OPENROUTER_METERED ''openrouter''"

definition first_argument :: "jsval list \<Rightarrow> jsval" where
  "first_argument args = (case args of [] \<Rightarrow> JUndef | x # _ \<Rightarrow> x)"

definition openrouter_measure :: "openrouter_options \<Rightarrow> (string \<Rightarrow> host_error + lookup_outcome) \<Rightarrow> router_env \<Rightarrow> scope \<Rightarrow> rat \<Rightarrow>
    family meter" where
  "openrouter_measure opts found e sc started fam args outcome m =
     (let (call, m) = begin_openrouter opts sc started fam (first_argument args) m
      in case outcome of
           Inl w \<Rightarrow> (Inl w, m)
         | Inr r \<Rightarrow>
             (case call of
                None \<Rightarrow> (Inr (Same r), m)
              | Some c \<Rightarrow>
                  (let recorded = (Inr (Same r), measure_openrouter opts found e call (value_of r) m)
                   in if fam = Embeddings then recorded
                      else case r of
                        Plain v \<Rightarrow> recorded
                      | Streaming v \<Rightarrow> (Inr (Stream_proxy v), m)
                      | Resisting w v \<Rightarrow> (Inr (Same r), guarded openrouter_diagnostic (operation_name fam) (m, Some w)))))"

subsection \<open>Merge Gateway\<close>

definition GATEWAY_METERED :: "(string \<times> string \<times> string) list" where
  "GATEWAY_METERED =
    [(''responses'', ''create'', ''responses.create''), (''embeddings'', ''create'', ''embeddings.create'')]"

definition instrumentMergeGateway :: "heap \<Rightarrow> bool \<Rightarrow> string ref \<Rightarrow> string ref list \<Rightarrow> string + string ref \<times> string ref list" where
  "instrumentMergeGateway = instrument GATEWAY_METERED ''gateway''"

definition gateway_measure :: "gateway_options \<Rightarrow> router_env \<Rightarrow> scope \<Rightarrow> rat \<Rightarrow> string meter" where
  "gateway_measure opts e sc started operation args outcome m =
     (let modality = (if operation = ''responses.create'' then responseModality (first_argument args) else ''text'');
          (call, m) = begin_gateway opts sc started operation modality m
      in case outcome of
           Inl w \<Rightarrow> (Inl w, m)
         | Inr r \<Rightarrow>
             (case call of
                None \<Rightarrow> (Inr (Same r), m)
              | Some c \<Rightarrow>
                  (case r of
                     Plain v \<Rightarrow> (Inr (Same r), measure_gateway opts e call v m)
                   | Streaming v \<Rightarrow> (Inr (Stream_proxy v), m)
                   | Resisting w v \<Rightarrow> (Inr (Same r), guarded gateway_diagnostic operation (m, Some w)))))"

section \<open>A facade is transparent\<close>

text \<open>
  The native object behind what a host holds, and a facade whose resources are still where they were,
  with their methods.
\<close>

fun erase :: "'op ref \<Rightarrow> 'op ref" where
  "erase (Native a) = Native a"
| "erase (Facade a overrides) = Native a"
| "erase (Resource a mth op) = Native a"

fun intact :: "heap \<Rightarrow> 'op ref \<Rightarrow> bool" where
  "intact h (Native a) = True"
| "intact h (Facade a overrides) = list_all (\<lambda>(p, b, mth, op). h a p = Child b \<and> h b mth = Function) overrides"
| "intact h (Resource a mth op) = (h a mth = Function)"

text \<open>
  What the facade asks of the code that meters: the host gets what the native method returned, or a
  proxy of it, and the exception it threw.
\<close>

locale transparent_meter =
  fixes meter :: "'op meter"
  assumes keeps: "map_sum id underlying (fst (meter op args r m)) = r"
begin

lemma overridden:
  assumes "intact h (Facade a overrides)"
    and "map_of (map (\<lambda>(p, b, mth, op). (p, Got_object (Resource b mth op))) overrides) k = Some g"
  shows "\<exists>b mth op. g = Got_object (Resource b mth op) \<and> h a k = Child b \<and> h b mth = Function"
proof -
  from map_of_SomeD [OF assms(2)] obtain p b mth op where
    "(p, b, mth, op) \<in> set overrides" "k = p" "g = Got_object (Resource b mth op)" by auto
  with assms(1) show ?thesis by (auto simp: list_all_iff)
qed

lemma step_erase:
  assumes "intact h x"
  shows "case get_property h x k of
      Got_object y \<Rightarrow> get_property h (erase x) k = Got_object (erase y) \<and> intact h y
    | _ \<Rightarrow> \<forall>z. get_property h (erase x) k \<noteq> Got_object z"
proof (cases x)
  case (Facade a overrides)
  then show ?thesis
    using overridden [of h a overrides k] assms
    by (auto simp: forward_def split: option.split property.split)
next
  case (Resource a mth op)
  then show ?thesis
    using assms by (auto simp: meterMethod_def forward_def split: property.split)
qed (auto split: property.split)

lemma walk_erase:
  "intact h x \<Longrightarrow> walk h (erase x) path = map_option erase (walk h x path) \<and>
    (\<forall>y. walk h x path = Some y \<longrightarrow> intact h y)"
proof (induction path arbitrary: x)
  case (Cons k ks)
  from step_erase [OF Cons.prems, of k] show ?case
    by (cases "get_property h x k"; cases "get_property h (erase x) k") (auto dest: Cons.IH)
qed simp

text \<open>Reading a method through a facade, and what its call comes to.\<close>

lemma call_erase:
  assumes "intact h x"
  shows "map_sum id underlying (fst (call_method h native meter x k args st)) =
      map_sum id underlying (fst (call_method h native meter (erase x) k args st)) \<and>
    native_calls (snd (call_method h native meter x k args st)) =
      native_calls (snd (call_method h native meter (erase x) k args st))"
proof -
  have kept: "map_sum id underlying r' = r" if "meter op a r m = (r', m')" for op a r m r' m'
    using keeps [of op a r m] that by simp
  have same: "map_sum id underlying (pass_through r) = r" for r
    by (cases r) (simp_all add: pass_through_def)
  show ?thesis
  proof (cases x)
    case (Facade a overrides)
    then show ?thesis
      using overridden [of h a overrides k] assms
      by (auto simp: call_method_def forward_def Let_def same split: option.split property.split)
  next
    case (Resource a mth op)
    then show ?thesis
      using assms kept by (auto simp: call_method_def meterMethod_def forward_def Let_def same split: property.split prod.split)
  qed simp
qed

lemma transparent:
  assumes "intact h x"
  shows "map_sum id underlying (fst (host_call h native meter x path k args st)) =
      map_sum id underlying (fst (host_call h native meter (erase x) path k args st)) \<and>
    native_calls (snd (host_call h native meter x path k args st)) =
      native_calls (snd (host_call h native meter (erase x) path k args st))"
  using walk_erase [OF assms, of path] call_erase by (auto simp: host_call_def split: option.split)

end

text \<open>A native client is called without metering.\<close>

lemma native_walk: "walk h (Native a) path = Some y \<Longrightarrow> \<exists>b. y = Native b"
proof (induction path arbitrary: a)
  case Nil
  then show ?case by (metis walk.simps(1) option.inject)
next
  case (Cons k ks)
  then show ?case by (auto split: property.splits)
qed

lemma native_unmetered:
  fixes native :: "'op native"
  shows "metered_so_far (snd (host_call h native meter (Native a) path k args st)) = metered_so_far st"
proof (cases "walk h (Native a :: 'op ref) path")
  case (Some y)
  then obtain b where "y = Native b" using native_walk by blast
  with Some show ?thesis by (simp add: host_call_def call_method_def Let_def split: property.split)
qed (simp add: host_call_def)

interpretation openrouter: transparent_meter "openrouter_measure opts found e sc started" for opts found e sc started
  by unfold_locales
    (auto simp: openrouter_measure_def Let_def split: prod.split sum.split option.split native_result.split)

interpretation gateway: transparent_meter "gateway_measure opts e sc started" for opts e sc started
  by unfold_locales
    (auto simp: gateway_measure_def Let_def split: prod.split sum.split option.split native_result.split)

text \<open>A facade of a client whose resources have their methods.\<close>

definition has_methods :: "heap \<Rightarrow> nat \<Rightarrow> (string \<times> string \<times> 'op) list \<Rightarrow> bool" where
  "has_methods h a metered \<longleftrightarrow>
     list_all (\<lambda>(p, mth, op). case h a p of Child b \<Rightarrow> h b mth = Function | _ \<Rightarrow> False) metered"

lemma instrumented:
  assumes "instrument metered what h has_record (Native a) known = Inr (f, known')" "has_methods h a metered"
  shows "intact h f" "erase f = Native a" "f \<in> set known'"
proof -
  have captured: "capture h a ms = Some overrides \<Longrightarrow> has_methods h a ms \<Longrightarrow> intact h (Facade a overrides)" for ms overrides
    unfolding capture_def
    by (induction ms arbitrary: overrides) (auto simp: has_methods_def split: option.splits property.splits)
  from assms obtain overrides where "capture h a metered = Some overrides" "f = Facade a overrides" "known' = f # known"
    by (auto simp: instrument_def split: if_splits option.splits)
  then show "intact h f" "erase f = Native a" "f \<in> set known'" using captured assms(2) by auto
qed

lemma instrumented_again:
  "f \<in> set known \<Longrightarrow> instrument metered what h has_record f known = Inl (what @ '' is already instrumented'')"
  by (simp add: instrument_def)


text \<open>Two clients, with their resources.\<close>

definition small_heap :: heap where
  "small_heap a k =
     (if a = 0 then (if k = ''chat'' then Child 1 else if k = ''responses'' then Child 2 else if k = ''embeddings'' then Child 3 else Missing)
      else if k = ''send'' \<or> k = ''generate'' \<or> k = ''create'' then Function else Missing)"


end
