(* ===== verification/Scoping.thy ===== *)
theory Scoping
  imports Telemetry OpenRouter
begin

text \<open>
  \<open>withAudr\<close> and \<open>currentScope\<close> of \<open>adapters/openrouter/typescript/src/attribution.ts\<close>, which
  \<open>adapters/merge-gateway/typescript/src/attribution.ts\<close> repeats, and the tool spans of
  \<open>adapters/vercel-ai/typescript/src/runs.ts\<close>: what an \<open>AsyncLocalStorage\<close> holds when a call starts.
  The host's code is a tree; at an \<open>await\<close> it leaves a task behind, with the store it had, and
  the tasks go on in any order.
\<close>

section \<open>The host's code\<close>

text \<open>
  \<open>Within c body rest\<close> calls a function under a context and goes on with \<open>rest\<close>. A function that
  reaches an \<open>await\<close> returns a promise, and its caller goes on; so does the caller of an asynchronous
  function that throws, whose promise rejects. An exception of any other ends its caller, up to a
  \<open>Caught\<close>. Each \<open>Start\<close> has a number.
\<close>

datatype 'c host_code =
    Return
  | Throw
  | Start nat "'c host_code"
  | Within 'c "'c host_code" "'c host_code"
  | Async "'c host_code" "'c host_code"
  | Caught "'c host_code" "'c host_code" "'c host_code"
  | Await "'c host_code"

text \<open>The process: the store, the tasks that wait with theirs, and what each started call was handed.\<close>

record ('c, 's) process =
  als_store :: "'s option"
  tasks :: "('s option \<times> 'c host_code) list"
  handed_to :: "(nat \<times> 's) list"

definition new_process :: "('c, 's) process" where
  "new_process = \<lparr>als_store = None, tasks = [], handed_to = []\<rparr>"

text \<open>\<open>currentScope\<close>: \<open>getStore()\<close>, or the empty scope.\<close>

definition currentScope :: "'s \<Rightarrow> 's option \<Rightarrow> 's" where
  "currentScope none store = (case store of Some s \<Rightarrow> s | None \<Rightarrow> none)"

text \<open>
  \<open>withAudr\<close>: \<open>AsyncLocalStorage.run\<close> puts the store back when the body returns or throws.
\<close>

definition withAudr :: "('s \<Rightarrow> 'c \<Rightarrow> 's) \<Rightarrow> 's \<Rightarrow> 'c \<Rightarrow>
    (('c, 's) process \<Rightarrow> bool \<times> ('c, 's) process) \<Rightarrow> ('c, 's) process \<Rightarrow> bool \<times> ('c, 's) process" where
  "withAudr enter none c body st =
     (case body (st\<lparr>als_store := Some (enter (currentScope none (als_store st)) c)\<rparr>) of
        (threw, st') \<Rightarrow> (threw, st'\<lparr>als_store := als_store st\<rparr>))"

text \<open>Code up to its awaits, and whether it threw.\<close>

fun sync :: "('s \<Rightarrow> 'c \<Rightarrow> 's) \<Rightarrow> 's \<Rightarrow> 'c host_code \<Rightarrow> ('c, 's) process \<Rightarrow> bool \<times> ('c, 's) process" where
  "sync enter none Return st = (False, st)"
| "sync enter none Throw st = (True, st)"
| "sync enter none (Start n p) st =
     sync enter none p (st\<lparr>handed_to := handed_to st @ [(n, currentScope none (als_store st))]\<rparr>)"
| "sync enter none (Within c body rest) st =
     (case withAudr enter none c (sync enter none body) st of
        (threw, st) \<Rightarrow> if threw then (True, st) else sync enter none rest st)"
| "sync enter none (Async body rest) st =
     (case sync enter none body st of (_, st) \<Rightarrow> sync enter none rest st)"
| "sync enter none (Caught body catch rest) st =
     (case sync enter none body st of
        (threw, st) \<Rightarrow>
          (case (if threw then sync enter none catch st else (False, st)) of
             (threw, st) \<Rightarrow> if threw then (True, st) else sync enter none rest st))"
| "sync enter none (Await p) st = (False, st\<lparr>tasks := tasks st @ [(als_store st, p)]\<rparr>)"

text \<open>One turn of the event loop: a task goes on, under the store it was left with.\<close>

definition turn :: "('s \<Rightarrow> 'c \<Rightarrow> 's) \<Rightarrow> 's \<Rightarrow> nat \<Rightarrow> ('c, 's) process \<Rightarrow> ('c, 's) process" where
  "turn enter none i st =
     (case tasks st ! i of
        (store, p) \<Rightarrow>
          (snd (sync enter none p (st\<lparr>als_store := store, tasks := take i (tasks st) @ drop (Suc i) (tasks st)\<rparr>)))
            \<lparr>als_store := None\<rparr>)"

text \<open>What \<open>p\<close> and a number of turns, of any tasks, come to.\<close>

inductive after_turns :: "('s \<Rightarrow> 'c \<Rightarrow> 's) \<Rightarrow> 's \<Rightarrow> 'c host_code \<Rightarrow> nat \<Rightarrow> ('c, 's) process \<Rightarrow> bool"
  for enter none p where
  after_start: "after_turns enter none p 0 (snd (sync enter none p new_process))"
| after_turn: "after_turns enter none p k st \<Longrightarrow> i < length (tasks st) \<Longrightarrow>
    after_turns enter none p (Suc k) (turn enter none i st)"

section \<open>What the code says\<close>

text \<open>
  The calls of a piece of code, each with the contexts written around it, outermost first, and
  whether it throws before its first \<open>await\<close>.
\<close>

fun written :: "'c list \<Rightarrow> 'c host_code \<Rightarrow> (nat \<times> 'c list) list \<times> bool" where
  "written cs Return = ([], False)"
| "written cs Throw = ([], True)"
| "written cs (Start n p) = ((n, cs) # fst (written cs p), snd (written cs p))"
| "written cs (Within c body rest) =
     (let b = written (cs @ [c]) body
      in if snd b then b else (fst b @ fst (written cs rest), snd (written cs rest)))"
| "written cs (Async body rest) = (fst (written cs body) @ fst (written cs rest), snd (written cs rest))"
| "written cs (Caught body catch rest) =
     (let b = written cs body; h = (if snd b then written cs catch else ([], False))
      in if snd h then (fst b @ fst h, True)
         else (fst b @ fst h @ fst (written cs rest), snd (written cs rest)))"
| "written cs (Await p) = (fst (written cs p), False)"

text \<open>The same, with the scope in place of the contexts that make it.\<close>

definition observed :: "('s \<Rightarrow> 'c \<Rightarrow> 's) \<Rightarrow> 's \<Rightarrow> (nat \<times> 'c list) list \<Rightarrow> (nat \<times> 's) list" where
  "observed enter s ns = map (\<lambda>(n, cs). (n, foldl enter s cs)) ns"

fun awaits :: "'c host_code \<Rightarrow> nat" where
  "awaits (Start n p) = awaits p"
| "awaits (Within c body rest) = awaits body + awaits rest"
| "awaits (Async body rest) = awaits body + awaits rest"
| "awaits (Caught body catch rest) = awaits body + awaits catch + awaits rest"
| "awaits (Await p) = Suc (awaits p)"
| "awaits p = 0"

lemma observed_simps [simp]:
  "observed enter s [] = []"
  "observed enter s ((n, cs) # ns) = (n, foldl enter s cs) # observed enter s ns"
  "observed enter s (ns @ ns') = observed enter s ns @ observed enter s ns'"
  by (simp_all add: observed_def)

lemma written_prefix:
  "written (cs @ ds) p = (map (\<lambda>(n, es). (n, cs @ es)) (fst (written ds p)), snd (written ds p))"
  by (induction p arbitrary: ds) (simp_all add: Let_def)

lemma observed_within: "observed enter s (fst (written [c] p)) = observed enter (enter s c) (fst (written [] p))"
  using written_prefix [of "[c]" "[]" p] by (simp add: observed_def split_def)

lemma throws_within: "snd (written [c] p) = snd (written [] p)"
  using written_prefix [of "[c]" "[]" p] by simp

text \<open>What the tasks of a process still have to start.\<close>

definition yet_to_start :: "('s \<Rightarrow> 'c \<Rightarrow> 's) \<Rightarrow> 's \<Rightarrow> ('s option \<times> 'c host_code) list \<Rightarrow> (nat \<times> 's) list" where
  "yet_to_start enter none ts =
     concat (map (\<lambda>(store, p). observed enter (currentScope none store) (fst (written [] p))) ts)"

definition all_calls :: "('s \<Rightarrow> 'c \<Rightarrow> 's) \<Rightarrow> 's \<Rightarrow> ('c, 's) process \<Rightarrow> (nat \<times> 's) multiset" where
  "all_calls enter none st = mset (handed_to st) + mset (yet_to_start enter none (tasks st))"

definition awaited :: "('s option \<times> 'c host_code) list \<Rightarrow> nat" where
  "awaited ts = sum_list (map (\<lambda>(store, p). Suc (awaits p)) ts)"

lemma yet_to_start_simps [simp]:
  "yet_to_start enter none [] = []"
  "yet_to_start enter none ((store, p) # ts) =
     observed enter (currentScope none store) (fst (written [] p)) @ yet_to_start enter none ts"
  "yet_to_start enter none (ts @ ts') = yet_to_start enter none ts @ yet_to_start enter none ts'"
  by (simp_all add: yet_to_start_def)

lemma awaited_simps [simp]:
  "awaited [] = 0" "awaited ((store, p) # ts) = Suc (awaits p) + awaited ts" "awaited (ts @ ts') = awaited ts + awaited ts'"
  by (simp_all add: awaited_def)

lemma all_calls_simps [simp]:
  "all_calls enter none (st\<lparr>als_store := s\<rparr>) = all_calls enter none st"
  "all_calls enter none (st\<lparr>handed_to := handed_to st @ [(n, s')]\<rparr>) = add_mset (n, s') (all_calls enter none st)"
  by (simp_all add: all_calls_def)

text \<open>
  Running code keeps the store, starts its calls or leaves them to tasks, and leaves no more tasks
  than it has awaits.
\<close>

lemma sync_runs:
  "als_store (snd (sync enter none p st)) = als_store st \<and>
   fst (sync enter none p st) = snd (written [] p) \<and>
   all_calls enter none (snd (sync enter none p st)) =
     all_calls enter none st + mset (observed enter (currentScope none (als_store st)) (fst (written [] p))) \<and>
   awaited (tasks (snd (sync enter none p st))) \<le> awaited (tasks st) + awaits p"
proof (induction p arbitrary: st)
  case (Within c body rest)
  let ?in = "st\<lparr>als_store := Some (enter (currentScope none (als_store st)) c)\<rparr>"
  obtain threw st1 where b: "sync enter none body ?in = (threw, st1)" by fastforce
  from Within.IH(1) [of ?in] Within.IH(2) [of "st1\<lparr>als_store := als_store st\<rparr>"] b show ?case
    by (auto simp: withAudr_def observed_within throws_within Let_def currentScope_def)
next
  case (Async body rest)
  obtain threw st1 where b: "sync enter none body st = (threw, st1)" by fastforce
  from Async.IH(1) [of st] Async.IH(2) [of st1] b show ?case by auto
next
  case (Caught body catch rest)
  obtain threw st1 where b: "sync enter none body st = (threw, st1)" by fastforce
  obtain again st2 where h: "(if threw then sync enter none catch st1 else (False, st1)) = (again, st2)" by fastforce
  have "als_store st2 = als_store st \<and> again = (threw \<and> snd (written [] catch)) \<and>
    all_calls enter none st2 = all_calls enter none st1 +
      (if threw then mset (observed enter (currentScope none (als_store st)) (fst (written [] catch))) else {#}) \<and>
    awaited (tasks st2) \<le> awaited (tasks st1) + awaits catch"
    using Caught.IH(1) [of st] Caught.IH(2) [of st1] b h by (auto split: if_splits)
  with Caught.IH(1) [of st] Caught.IH(3) [of st2] b h show ?case by (auto simp: Let_def)
next
  case (Start n p)
  from Start.IH [of "st\<lparr>handed_to := handed_to st @ [(n, currentScope none (als_store st))]\<rparr>"] show ?case by simp
next
  case (Await p)
  show ?case by (simp add: all_calls_def)
qed simp_all

lemma take_out:
  assumes "i < length ts"
  shows "mset (yet_to_start enter none (take i ts @ drop (Suc i) ts)) + mset (yet_to_start enter none [ts ! i]) =
      mset (yet_to_start enter none ts)"
    and "awaited (take i ts @ drop (Suc i) ts) + awaited [ts ! i] = awaited ts"
proof -
  have ts: "ts = take i ts @ [ts ! i] @ drop (Suc i) ts" using id_take_nth_drop [OF assms] by simp
  obtain store p where t: "ts ! i = (store, p)" by fastforce
  have "mset (yet_to_start enter none (take i ts @ [ts ! i] @ drop (Suc i) ts)) =
      mset (yet_to_start enter none (take i ts @ drop (Suc i) ts)) + mset (yet_to_start enter none [ts ! i])"
    by (simp add: t)
  then show "mset (yet_to_start enter none (take i ts @ drop (Suc i) ts)) + mset (yet_to_start enter none [ts ! i]) =
      mset (yet_to_start enter none ts)" by (simp only: ts [symmetric])
  have "awaited (take i ts @ [ts ! i] @ drop (Suc i) ts) = awaited (take i ts @ drop (Suc i) ts) + awaited [ts ! i]"
    by (simp add: t)
  then show "awaited (take i ts @ drop (Suc i) ts) + awaited [ts ! i] = awaited ts" by (simp only: ts [symmetric])
qed

lemma turn_runs:
  assumes "i < length (tasks st)"
  shows "als_store (turn enter none i st) = None" "all_calls enter none (turn enter none i st) = all_calls enter none st"
    and "awaited (tasks (turn enter none i st)) < awaited (tasks st)"
proof -
  obtain store p where t: "tasks st ! i = (store, p)" by fastforce
  let ?st = "st\<lparr>als_store := store, tasks := take i (tasks st) @ drop (Suc i) (tasks st)\<rparr>"
  note ran = sync_runs [of enter none p ?st]
  show "als_store (turn enter none i st) = None" by (simp add: turn_def t)
  show "all_calls enter none (turn enter none i st) = all_calls enter none st"
    using ran take_out(1) [OF assms, of enter none] by (simp add: turn_def t) (simp add: all_calls_def ac_simps)
  show "awaited (tasks (turn enter none i st)) < awaited (tasks st)"
    using ran take_out(2) [OF assms] by (simp add: turn_def t)
qed

text \<open>In every order of the turns, each call is handed the scope the code around it says.\<close>

lemma handed_as_written:
  assumes "after_turns enter none p k st"
  shows "als_store st = None \<and> all_calls enter none st = mset (observed enter none (fst (written [] p))) \<and>
    k + awaited (tasks st) \<le> awaits p"
  using assms
proof (induction rule: after_turns.induct)
  case after_start
  from sync_runs [of enter none p new_process] show ?case
    by (simp add: new_process_def all_calls_def currentScope_def)
next
  case (after_turn k st i)
  from turn_runs [OF after_turn.hyps(2), of enter none] after_turn.IH show ?case by simp
qed

lemma handed_call:
  assumes "after_turns enter none p k st" "(n, s) \<in> set (handed_to st)"
  shows "\<exists>cs. (n, cs) \<in> set (fst (written [] p)) \<and> s = foldl enter none cs"
proof -
  have "(n, s) \<in># all_calls enter none st" using assms(2) by (simp add: all_calls_def)
  with handed_as_written [OF assms(1)] show ?thesis by (auto simp: observed_def)
qed

lemma all_handed:
  assumes "after_turns enter none p k st" "tasks st = []"
  shows "mset (handed_to st) = mset (observed enter none (fst (written [] p)))"
  using handed_as_written [OF assms(1)] assms(2) by (simp add: all_calls_def)

section \<open>Scopes\<close>

text \<open>
  What the contexts around a call say of an attribution field: the innermost that can be read and
  gives it. \<open>nest\<close> ignores a context that cannot be read, one without a property or whose run
  is \<open>null\<close>.
\<close>

definition ATTRIBUTION_FIELDS :: "string list" where
  "ATTRIBUTION_FIELDS = [''environment'', ''account_id'', ''subscription_id'', ''user_id'', ''feature_id'']"

definition readable :: "jsval \<Rightarrow> bool" where
  "readable c \<longleftrightarrow> \<not> nullish c \<and> jget c ''run'' \<noteq> JNull"

definition innermost :: "string \<Rightarrow> jsval list \<Rightarrow> jsval" where
  "innermost f cs =
     (case find (\<lambda>c. readable c \<and> \<not> nullish (jget (jget c ''attribution'') f)) (rev cs) of
        None \<Rightarrow> JUndef | Some c \<Rightarrow> jget (jget c ''attribution'') f)"

lemma nest_field:
  assumes "f \<in> set ATTRIBUTION_FIELDS"
  shows "jget (sc_attribution (nest s c)) f =
    (if readable c then coalesce (jget (jget c ''attribution'') f) (jget (sc_attribution s) f) else jget (sc_attribution s) f)"
proof -
  have f: "f \<in> {''environment'', ''account_id'', ''subscription_id'', ''user_id'', ''feature_id''}"
    using assms by (simp add: ATTRIBUTION_FIELDS_def)
  have null: "nestRun (sc_run s) r = None \<longleftrightarrow> r = JNull" for r by (simp add: nestRun_def Let_def)
  show ?thesis
  proof (cases "readable c")
    case True
    with null obtain r where "nestRun (sc_run s) (jget c ''run'') = Some r" by (auto simp: readable_def)
    with True show ?thesis by (simp add: nest_def readable_def jget_mergeScoped [OF f])
  next
    case False
    then have "nest s c = s" by (cases "nullish c") (simp_all add: nest_def readable_def nestRun_def)
    with False show ?thesis by simp
  qed
qed

lemma scope_field:
  "f \<in> set ATTRIBUTION_FIELDS \<Longrightarrow> jget (sc_attribution (foldl nest empty_scope cs)) f = innermost f cs"
proof (induction cs rule: rev_induct)
  case Nil
  then show ?case by (simp add: empty_scope_def innermost_def jget_simps)
next
  case (snoc c cs)
  then show ?case by (simp add: nest_field innermost_def coalesce_def)
qed

text \<open>
  C24: Scopes follow the code. Whatever the code of a host, where it awaits, and in whatever order its
  tasks go on, a call started inside \<open>withAudr\<close> is handed the contexts written around it and no
  other's: each attribution field is the innermost context's that gives it. No scope outlives its
  task, the turns are no more than the awaits, and when no task is left every call has started.
\<close>

theorem scopes_follow_code:
  assumes "after_turns nest empty_scope p k st"
  shows "list_all (\<lambda>(n, s). \<exists>cs. (n, cs) \<in> set (fst (written [] p)) \<and> s = foldl nest empty_scope cs \<and>
      list_all (\<lambda>f. jget (sc_attribution s) f = innermost f cs) ATTRIBUTION_FIELDS) (handed_to st) \<and>
    als_store st = None \<and> k + length (tasks st) \<le> awaits p \<and>
    (tasks st = [] \<longrightarrow> mset (handed_to st) = mset (observed nest empty_scope (fst (written [] p))))"
proof -
  have "length ts \<le> awaited ts" for ts :: "(scope option \<times> jsval host_code) list"
    by (induction ts) auto
  then have "k + length (tasks st) \<le> awaits p" using handed_as_written [OF assms] le_trans add_left_mono by blast
  moreover have "list_all (\<lambda>(n, s). \<exists>cs. (n, cs) \<in> set (fst (written [] p)) \<and> s = foldl nest empty_scope cs \<and>
      list_all (\<lambda>f. jget (sc_attribution s) f = innermost f cs) ATTRIBUTION_FIELDS) (handed_to st)"
    using handed_call [OF assms] scope_field by (fastforce simp: list_all_iff)
  ultimately show ?thesis using handed_as_written [OF assms] all_handed [OF assms] by simp
qed

text \<open>Two requests of a server, whose tasks go on in the other order, and a call of neither.\<close>

definition billed_to :: "string \<Rightarrow> jsval" where
  "billed_to who = JObj [(''attribution'', JObj [(''account_id'', JStr who)])]"

definition two_requests :: "jsval host_code" where
  "two_requests =
     Within (billed_to ''a'') (Async (Await (Start 1 Return)) Return)
       (Within (billed_to ''b'') (Async (Await (Start 2 Return)) Return) (Start 3 Return))"

lemma two_turns: "\<exists>st. after_turns nest empty_scope two_requests 2 st \<and> map fst (handed_to st) = [3, 2, 1]"
proof (intro exI conjI)
  let ?st = "turn nest empty_scope 0 (turn nest empty_scope 1 (snd (sync nest empty_scope two_requests new_process)))"
  show "after_turns nest empty_scope two_requests 2 ?st"
    unfolding numeral_2_eq_2
    by (intro after_turns.intros) (simp_all add: two_requests_def new_process_def turn_def withAudr_def)
  show "map fst (handed_to ?st) = [3, 2, 1]"
    by (simp add: two_requests_def new_process_def turn_def withAudr_def)
qed

theorem scopes_follow_code_witness:
  "\<exists>st. after_turns nest empty_scope two_requests 2 st \<and> map fst (handed_to st) = [3, 2, 1] \<and>
    list_all (\<lambda>(n, s). jget (sc_attribution s) ''account_id'' =
      (if n = 1 then JStr ''a'' else if n = 2 then JStr ''b'' else JUndef)) (handed_to st)"
proof -
  from two_turns obtain st where st: "after_turns nest empty_scope two_requests 2 st" "map fst (handed_to st) = [3, 2, 1]"
    by (elim exE conjE) (rule that)
  have "jget (sc_attribution s) ''account_id'' = (if n = 1 then JStr ''a'' else if n = 2 then JStr ''b'' else JUndef)"
    if "(n, s) \<in> set (handed_to st)" for n s
  proof -
    from bspec [OF iffD1 [OF list_all_iff scopes_follow_code [OF st(1), THEN conjunct1]] that]
    obtain cs where cs: "(n, cs) \<in> set (fst (written [] two_requests))"
      "list_all (\<lambda>f. jget (sc_attribution s) f = innermost f cs) ATTRIBUTION_FIELDS"
      unfolding prod.case by blast
    from cs(2) have "jget (sc_attribution s) ''account_id'' = innermost ''account_id'' cs"
      by (simp add: ATTRIBUTION_FIELDS_def)
    with cs(1) show ?thesis
      by (auto simp: two_requests_def billed_to_def innermost_def readable_def nullish_def jget_simps Let_def)
  qed
  then have "list_all (\<lambda>(n, s). jget (sc_attribution s) ''account_id'' =
      (if n = 1 then JStr ''a'' else if n = 2 then JStr ''b'' else JUndef)) (handed_to st)"
    by (auto simp only: list_all_iff split_def prod.collapse)
  with st show ?thesis by (intro exI [of _ st] conjI)
qed

text \<open>
  So a call through either router facade is billed to the innermost context around it that gives
  a field, and else to the defaults of the facade.
\<close>

lemma merged_field_of:
  "f \<in> set ATTRIBUTION_FIELDS \<Longrightarrow> jget (mergeScoped base override) f = coalesce (jget override f) (jget base f)"
  by (rule jget_mergeScoped) (simp add: ATTRIBUTION_FIELDS_def)

theorem calls_billed_as_written:
  assumes "after_turns nest empty_scope p k st" "(n, s) \<in> set (handed_to st)" "f \<in> set ATTRIBUTION_FIELDS"
  shows "\<exists>cs. (n, cs) \<in> set (fst (written [] p)) \<and>
    (\<forall>opts started fam request m call. fst (begin_openrouter opts s started fam request m) = Some call \<longrightarrow>
      jget (oc_attribution call) f = coalesce (innermost f cs) (jget (or_defaults opts) f)) \<and>
    (\<forall>opts started operation modality m call. fst (begin_gateway opts s started operation modality m) = Some call \<longrightarrow>
      jget (gc_attribution call) f = coalesce (innermost f cs) (jget (gw_defaults opts) f))"
proof -
  obtain cs where cs: "(n, cs) \<in> set (fst (written [] p))" "s = foldl nest empty_scope cs"
    using handed_call [OF assms(1,2)] by blast
  then have "jget (sc_attribution s) f = innermost f cs" using scope_field [OF assms(3)] by simp
  with cs(1) show ?thesis
    by (intro exI [of _ cs])
      (auto simp: begin_openrouter_def begin_gateway_def Let_def merged_field_of [OF assms(3)] split: if_splits)
qed

section \<open>Tool spans\<close>

text \<open>
  The store of the Vercel AI adapter: the tool spans a call runs inside, each with its tracker,
  here a number. \<open>Telemetry\<close> has the store as one tracker sees it.
\<close>

definition run_in_span :: "(nat \<times> tool_span) list \<Rightarrow> nat \<times> tool_span \<Rightarrow> (nat \<times> tool_span) list" where
  "run_in_span spans own = spans @ [own]"

definition seen_by :: "nat \<Rightarrow> (nat \<times> tool_span) list \<Rightarrow> (bool \<times> tool_span) list" where
  "seen_by t spans = map (\<lambda>(t', sp). (t' = t, sp)) spans"

lemma seen_by_run: "seen_by t (run_in_span spans (t, sp)) = runInToolSpan sp (seen_by t spans)"
  by (simp add: seen_by_def run_in_span_def runInToolSpan_def)

lemma foldl_run_in_span: "foldl run_in_span [] cs = cs"
  by (induction cs rule: rev_induct) (simp_all add: run_in_span_def)

text \<open>
  A call is the child of the innermost tool span of its own tracker that is written around it,
  whatever other trackers and tasks do.
\<close>

theorem tool_spans_follow_code:
  assumes "after_turns run_in_span [] p k st" "(n, spans) \<in> set (handed_to st)"
  shows "(n, spans) \<in> set (fst (written [] p)) \<and>
    currentToolSpan (seen_by t spans) = map_option snd (find (\<lambda>(t', sp). t' = t) (rev spans))"
proof -
  have "find fst (map (\<lambda>(t', sp). (t' = t, sp)) ts) = map_option (\<lambda>(t', sp). (t' = t, sp)) (find (\<lambda>(t', sp). t' = t) ts)"
    for ts :: "(nat \<times> tool_span) list" by (induction ts) auto
  then have "currentToolSpan (seen_by t spans) = map_option snd (find (\<lambda>(t', sp). t' = t) (rev spans))"
    by (simp add: currentToolSpan_def seen_by_def rev_map option.map_comp comp_def split_def)
  then show ?thesis using handed_call [OF assms] by (simp add: foldl_run_in_span)
qed

end
