(* ===== verification/Lifecycle.thy ===== *)
theory Lifecycle
  imports Transport
begin

text \<open>
  The life of a transport, \<open>post\<close>, \<open>pause\<close> and \<open>close\<close> of \<open>sinks/lago/typescript/src/transport.ts\<close> and
  \<open>sinks/chargebee/typescript/src/transport.ts\<close>, whose requests have no caller's signal: any number of
  requests, pauses and calls of \<open>close()\<close> at once. Each has a number; a caller's signal is a
  number too. When a fetch ends, or a timer goes off, is up to the outside.
\<close>

section \<open>The state\<close>

text \<open>
  \<open>in_flight\<close> and \<open>dozing\<close> hold a number and the signal; \<open>closing\<close> the calls of \<open>close()\<close> that wait,
  each with the requests it waits for. The other lists record what has happened.
\<close>

record transport =
  shut :: bool
  gave_up :: "nat list"
  in_flight :: "(nat \<times> nat option) list"
  dozing :: "(nat \<times> nat option) list"
  closing :: "(nat \<times> nat list) list"
  asked :: "nat list"
  on_the_wire :: "nat list"
  ended :: "(nat \<times> posted) list"
  dozed :: "nat list"
  woken :: "nat list"
  closed_calls :: "nat list"

definition opened :: transport where
  "opened = \<lparr>shut = False, gave_up = [], in_flight = [], dozing = [], closing = [], asked = [], on_the_wire = [],
     ended = [], dozed = [], woken = [], closed_calls = []\<rparr>"

definition given_up :: "nat option \<Rightarrow> transport \<Rightarrow> bool" where
  "given_up sig st = (case sig of None \<Rightarrow> False | Some s \<Rightarrow> List.member (gave_up st) s)"

text \<open>\<open>closed\<close> and \<open>signal.aborted\<close>.\<close>

definition flags :: "nat option \<Rightarrow> transport \<Rightarrow> bool \<times> bool" where
  "flags sig st = (shut st, given_up sig st)"

section \<open>The operations\<close>

text \<open>How a request ends: its \<open>catch\<close> looks at the flags again.\<close>

definition ended_as :: "bool \<times> bool \<Rightarrow> reply \<Rightarrow> posted" where
  "ended_as f r =
     (case r of
        Replied status body retry_after rate_reset \<Rightarrow> Got status body retry_after rate_reset
      | NetworkError e \<Rightarrow> (case stopped_by f of Some s \<Rightarrow> s | None \<Rightarrow> Broke e))"

text \<open>\<open>allSettled\<close>: a call of \<open>close()\<close> is over when none of the requests it waits for is in flight.\<close>

definition waits_for :: "transport \<Rightarrow> nat \<times> nat list \<Rightarrow> bool" where
  "waits_for st c \<longleftrightarrow> list_ex (List.member (map fst (in_flight st))) (snd c)"

definition release :: "transport \<Rightarrow> transport" where
  "release st = st\<lparr>closing := filter (waits_for st) (closing st),
     closed_calls := closed_calls st @ map fst (filter (\<lambda>c. \<not> waits_for st c) (closing st))\<rparr>"

definition start_post :: "nat \<Rightarrow> nat option \<Rightarrow> transport \<Rightarrow> transport" where
  "start_post n sig st =
     (case stopped_by (flags sig st) of
        Some s \<Rightarrow> st\<lparr>asked := asked st @ [n], ended := ended st @ [(n, s)]\<rparr>
      | None \<Rightarrow> st\<lparr>asked := asked st @ [n], in_flight := in_flight st @ [(n, sig)], on_the_wire := on_the_wire st @ [n]\<rparr>)"

definition end_post :: "nat \<Rightarrow> reply \<Rightarrow> transport \<Rightarrow> transport" where
  "end_post n r st =
     (case map_of (in_flight st) n of
        None \<Rightarrow> st
      | Some sig \<Rightarrow>
          release (st\<lparr>in_flight := filter (\<lambda>p. fst p \<noteq> n) (in_flight st),
            ended := ended st @ [(n, ended_as (flags sig st) r)]\<rparr>))"

definition pause :: "nat \<Rightarrow> nat option \<Rightarrow> transport \<Rightarrow> transport" where
  "pause n sig st =
     (if shut st \<or> given_up sig st then st\<lparr>dozed := dozed st @ [n], woken := woken st @ [n]\<rparr>
      else st\<lparr>dozed := dozed st @ [n], dozing := dozing st @ [(n, sig)]\<rparr>)"

text \<open>\<open>done\<close>, of the pauses some event concerns.\<close>

definition wake_up :: "(nat \<times> nat option \<Rightarrow> bool) \<Rightarrow> transport \<Rightarrow> transport" where
  "wake_up p st = st\<lparr>dozing := filter (\<lambda>d. \<not> p d) (dozing st), woken := woken st @ map fst (filter p (dozing st))\<rparr>"

definition close :: "nat \<Rightarrow> transport \<Rightarrow> transport" where
  "close n st =
     (if shut st then st\<lparr>closed_calls := closed_calls st @ [n]\<rparr>
      else release (wake_up (\<lambda>_. True) (st\<lparr>shut := True, closing := closing st @ [(n, map fst (in_flight st))]\<rparr>)))"

datatype transport_event =
    Post nat "nat option"
  | Fetched nat reply
  | Pause nat "nat option"
  | Timer nat
  | Abort nat
  | Close nat

fun happen :: "transport_event \<Rightarrow> transport \<Rightarrow> transport" where
  "happen (Post n sig) st = start_post n sig st"
| "happen (Fetched n r) st = end_post n r st"
| "happen (Pause n sig) st = pause n sig st"
| "happen (Timer n) st = wake_up (\<lambda>d. fst d = n) st"
| "happen (Abort s) st = wake_up (\<lambda>d. snd d = Some s) (st\<lparr>gave_up := s # gave_up st\<rparr>)"
| "happen (Close n) st = close n st"

text \<open>A request has a number of its own.\<close>

fun possible :: "transport \<Rightarrow> transport_event \<Rightarrow> bool" where
  "possible st (Post n sig) = (\<not> List.member (asked st) n)"
| "possible st _ = True"

inductive lives :: "transport \<Rightarrow> bool" where
  begins: "lives opened"
| goes_on: "lives st \<Longrightarrow> possible st e \<Longrightarrow> lives (happen e st)"

section \<open>What holds throughout\<close>

text \<open>
  A request has ended or is in flight, not both, and so has a pause; a closed transport has no
  pause; only a closed one is waited for, and only as long as a request is in flight.
\<close>

definition orderly :: "transport \<Rightarrow> bool" where
  "orderly st \<longleftrightarrow>
     mset (asked st) = mset (map fst (in_flight st)) + mset (map fst (ended st)) \<and> distinct (asked st) \<and>
     mset (dozed st) = mset (map fst (dozing st)) + mset (woken st) \<and>
     (shut st \<longrightarrow> dozing st = []) \<and> (\<not> shut st \<longrightarrow> closing st = []) \<and> list_all (waits_for st) (closing st)"

lemma waits_frame [simp]:
  "waits_for (st\<lparr>closing := cs\<rparr>) = waits_for st" "waits_for (st\<lparr>closed_calls := ns\<rparr>) = waits_for st"
  "waits_for (st\<lparr>dozing := ds\<rparr>) = waits_for st" "waits_for (st\<lparr>woken := ns\<rparr>) = waits_for st"
  "waits_for (st\<lparr>gave_up := ns\<rparr>) = waits_for st" "waits_for (st\<lparr>dozed := ns\<rparr>) = waits_for st"
  "waits_for (st\<lparr>asked := ns\<rparr>) = waits_for st" "waits_for (st\<lparr>ended := es\<rparr>) = waits_for st"
  "waits_for (st\<lparr>shut := b\<rparr>) = waits_for st" "waits_for (st\<lparr>on_the_wire := ns\<rparr>) = waits_for st"
  by (simp_all add: waits_for_def fun_eq_iff)

lemma orderly_start: "orderly st \<Longrightarrow> \<not> List.member (asked st) n \<Longrightarrow> orderly (start_post n sig st)"
  by (auto simp: start_post_def orderly_def waits_for_def list_all_iff list_ex_iff split: option.split)

lemma in_flight_once:
  assumes "distinct (map fst ps)" "map_of ps n = Some sig"
  shows "mset (map fst ps) = add_mset n (mset (map fst (filter (\<lambda>p. fst p \<noteq> n) ps)))"
  using assms
proof (induction ps)
  case (Cons p ps)
  show ?case
  proof (cases "fst p = n")
    case True
    have "fst q \<noteq> n" if "q \<in> set ps" for q
    proof -
      have "fst q \<in> set (map fst ps)" using that by simp
      with True Cons.prems(1) show ?thesis by (metis distinct.simps(2) list.simps(9))
    qed
    then have "filter (\<lambda>p. fst p \<noteq> n) ps = ps" by (simp add: filter_id_conv)
    with True show ?thesis by simp
  next
    case False
    with Cons show ?thesis by simp
  qed
qed simp

lemma orderly_end:
  assumes "orderly st"
  shows "orderly (end_post n r st)"
proof (cases "map_of (in_flight st) n")
  case None
  with assms show ?thesis by (simp add: end_post_def)
next
  case (Some sig)
  have "distinct (map fst (in_flight st))"
    using assms unfolding orderly_def by (metis distinct_append mset_append mset_eq_imp_distinct_iff)
  from in_flight_once [OF this Some] assms Some show ?thesis
    by (simp add: orderly_def end_post_def release_def list_all_iff)
qed

lemma orderly_wake: "orderly st \<Longrightarrow> orderly (wake_up p st)"
proof -
  have "mset (map fst ds) = mset (map fst (filter (\<lambda>d. \<not> p d) ds)) + mset (map fst (filter p ds))" for ds
    by (induction ds) simp_all
  then show "orderly st \<Longrightarrow> orderly (wake_up p st)"
    by (simp add: orderly_def wake_up_def)
qed

lemma orderly_close: "orderly st \<Longrightarrow> orderly (close n st)"
  by (auto simp: orderly_def close_def release_def wake_up_def list_all_iff)

lemma lives_orderly: "lives st \<Longrightarrow> orderly st"
proof (induction rule: lives.induct)
  case begins
  show ?case by (simp add: orderly_def opened_def)
next
  case (goes_on st e)
  have "orderly (st\<lparr>gave_up := s # gave_up st\<rparr>)" for s using goes_on.IH by (simp add: orderly_def)
  moreover have "orderly (pause n sig st)" for n sig using goes_on.IH by (auto simp: orderly_def pause_def)
  ultimately show ?case
    using goes_on.IH goes_on.hyps(2)
    by (cases e) (simp_all add: orderly_start orderly_end orderly_wake orderly_close)
qed

section \<open>What it promises\<close>

lemma end_post_sends: "on_the_wire (end_post n r st) = on_the_wire st"
  by (simp add: end_post_def release_def split: option.split)


text \<open>A request that is cut short by \<open>close()\<close>, and a pause.\<close>

definition cut_short :: transport where
  "cut_short = happen (Close 0) (happen (Pause 1 None) (happen (Post 1 None) opened))"

lemma lives_cut_short: "lives cut_short"
  unfolding cut_short_def
  by (intro lives.intros) (simp_all add: opened_def start_post_def flags_def stopped_by_def given_up_def pause_def)

lemma cut_short_state: "shut cut_short" "in_flight cut_short = [(1, None)]" "closing cut_short = [(0, [1])]" "ended cut_short = []"
  by (simp_all add: cut_short_def opened_def start_post_def flags_def stopped_by_def given_up_def pause_def close_def
    release_def wake_up_def waits_for_def)


text \<open>
  A second call of \<open>close()\<close> returns at once, while requests the first one waits for are still in
  flight.
\<close>

theorem second_close_does_not_wait:
  "closed_calls (happen (Close 7) cut_short) = [7] \<and> in_flight (happen (Close 7) cut_short) = [(1, None)] \<and>
    closing (happen (Close 7) cut_short) = [(0, [1])]"
proof -
  have "closed_calls cut_short = []"
    by (simp add: cut_short_def opened_def start_post_def flags_def stopped_by_def given_up_def pause_def close_def
      release_def wake_up_def waits_for_def)
  then show ?thesis by (simp add: close_def cut_short_state)
qed

text \<open>The requests of a delivery, which take one moment each, end as these do.\<close>

theorem post_ends_as: "fst (post m events w) =
    (case stopped_by (at_post m) of Some s \<Rightarrow> s | None \<Rightarrow> ended_as (on_error m) (reply m))"
  by (simp add: post_def ended_as_def Let_def split: option.split reply.split)

end
