(* ===== verification/Types.thy ===== *)
theory Types
  imports Client
begin

text \<open>
  The TypeScript types of a record, \<open>adapters/core/typescript/src/generated-schema.ts\<close> and \<open>record.ts\<close>, and
  what it means for a value to have one. The generator makes the types and the validator from
  one schema; \<open>describes\<close> decides that a type admits whatever a schema does, and the types of the
  package are checked against \<open>schema31\<close> with it. \<open>readonly\<close> restricts the code that holds a record,
  and not the record.
\<close>

section \<open>Types and their values\<close>

text \<open>
  The types the module uses. A member of an interface is its name, whether it must be there, and
  its type; an optional member also accepts \<open>undefined\<close>. An interface may end with an index
  signature under \<open>ExtensionKey\<close>. \<open>TMap t\<close> is \<open>Readonly<Record<string, t>>\<close>.
\<close>

datatype ts_type =
    TString
  | TNumber
  | TDate
  | TLiterals "string list"
  | TMap ts_type
  | TUnion ts_type ts_type
  | TInterface "(string \<times> bool \<times> ts_type) list" "ts_type option"

type_synonym members = "(string \<times> bool \<times> ts_type) list"

text \<open>\<open>ExtensionKey\<close>: a string that starts with \<open>x_\<close>.\<close>

definition ExtensionKey :: "string \<Rightarrow> bool" where
  "ExtensionKey k \<longleftrightarrow> starts_with ''x_'' k"

lemma size_member [termination_simp]:
  "(n, r, t) \<in> set ms \<Longrightarrow> size (t :: ts_type) < Suc (size_list (size_prod (\<lambda>_. 0) (size_prod (\<lambda>_. 0) size)) ms + m)"
  by (induction ms) auto

text \<open>
  The values of a type, structurally. An object literal may not hold a property its type does not
  declare, and an object that came from a literal does not.
\<close>

fun inhabits :: "ts_type \<Rightarrow> jsval \<Rightarrow> bool" where
  "inhabits TString v = (case v of JStr s \<Rightarrow> True | _ \<Rightarrow> False)"
| "inhabits TNumber v = (case v of JNum n \<Rightarrow> True | _ \<Rightarrow> False)"
| "inhabits TDate v = (case v of JDate t \<Rightarrow> True | _ \<Rightarrow> False)"
| "inhabits (TLiterals ls) v = list_ex (\<lambda>l. v = JStr l) ls"
| "inhabits (TMap t) v = (is_object v \<and> list_all (\<lambda>k. inhabits t (jget v k)) (keys v))"
| "inhabits (TUnion s t) v = (inhabits s v \<or> inhabits t v)"
| "inhabits (TInterface ms ix) v =
     (is_object v \<and>
      list_all (\<lambda>(n, required, t). if jget v n = JUndef then \<not> required else inhabits t (jget v n)) ms \<and>
      list_all (\<lambda>k. List.member (map fst ms) k \<or>
        (case ix of None \<Rightarrow> False | Some t \<Rightarrow> ExtensionKey k \<and> (jget v k = JUndef \<or> inhabits t (jget v k)))) (keys v))"

section \<open>The types of a record\<close>

definition Environment_type :: ts_type where
  "Environment_type = TLiterals [''production'', ''staging'', ''development'', ''test'', ''evaluation'']"

definition Attribution_type :: ts_type where
  "Attribution_type = TInterface
    [(''account_id'', False, TString),
     (''environment'', False, Environment_type),
     (''feature_id'', False, TString),
     (''labels'', False, TMap TString),
     (''subscription_id'', False, TString),
     (''user_id'', False, TString)]
    None"

definition LlmCost_type :: ts_type where
  "LlmCost_type = TInterface
    [(''cache_read_cost'', False, TNumber),
     (''cache_write_cost'', False, TNumber),
     (''input_token_cost'', False, TNumber),
     (''output_token_cost'', False, TNumber),
     (''reasoning_cost'', False, TNumber),
     (''total_token_cost'', True, TNumber)]
    None"

definition ToolCost_type :: ts_type where
  "ToolCost_type = TInterface
    [(''call_cost'', False, TNumber),
     (''sandbox_cost'', False, TNumber),
     (''type'', False, TString)]
    (Some TNumber)"

definition Cost_type :: ts_type where
  "Cost_type = TInterface
    [(''currency'', True, TString),
     (''discount_amount'', False, TNumber),
     (''discount_percent'', False, TNumber),
     (''llm'', False, LlmCost_type),
     (''original_cost'', False, TNumber),
     (''tool'', False, ToolCost_type),
     (''total_cost'', True, TNumber)]
    None"

definition EmitterComponent_type :: ts_type where
  "EmitterComponent_type = TLiterals [''harness'', ''router'', ''provider'']"

definition Emitter_type :: ts_type where
  "Emitter_type = TInterface
    [(''component'', True, EmitterComponent_type),
     (''name'', True, TString),
     (''version'', True, TString)]
    None"

definition Modality_type :: ts_type where
  "Modality_type = TLiterals [''text'', ''image'', ''audio'', ''multimodal'']"

definition Operation_type :: ts_type where
  "Operation_type = TLiterals [''generation'', ''embedding'', ''reranking'', ''tool_execution'', ''retrieval'']"

definition ResourceType_type :: ts_type where
  "ResourceType_type = TLiterals [''model'', ''tool'']"

definition Resource_type :: ts_type where
  "Resource_type = TInterface
    [(''deployment'', False, TString),
     (''key_name'', False, TString),
     (''modality'', False, Modality_type),
     (''name'', True, TString),
     (''namespace'', False, TString),
     (''operation'', True, Operation_type),
     (''provider'', True, TString),
     (''region'', False, TString),
     (''type'', True, ResourceType_type)]
    None"

definition RunOutcome_type :: ts_type where
  "RunOutcome_type = TLiterals [''resolved'', ''escalated'', ''abandoned'', ''failed'']"

definition RunType_type :: ts_type where
  "RunType_type = TLiterals [''agent_run'', ''workflow'', ''single_call'']"

definition Run_type :: ts_type where
  "Run_type = TInterface
    [(''error_code'', False, TString),
     (''error_reason'', False, TString),
     (''name'', False, TString),
     (''outcome'', False, RunOutcome_type),
     (''parent_span_id'', False, TString),
     (''run_id'', True, TString),
     (''run_type'', False, RunType_type),
     (''span_id'', True, TString),
     (''step'', False, TNumber),
     (''trace_id'', False, TString)]
    None"

definition Timing_type :: ts_type where
  "Timing_type = TInterface
    [(''duration_ms'', False, TNumber),
     (''event_time'', True, TString),
     (''received_time'', False, TString)]
    None"

definition LlmUsage_type :: ts_type where
  "LlmUsage_type = TInterface
    [(''audio_input_seconds'', False, TNumber),
     (''audio_output_seconds'', False, TNumber),
     (''cache_read_tokens'', False, TNumber),
     (''cache_write_tokens'', False, TNumber),
     (''images_processed'', False, TNumber),
     (''input_tokens'', False, TNumber),
     (''output_tokens'', False, TNumber),
     (''reasoning_tokens'', False, TNumber),
     (''requests'', False, TNumber)]
    (Some TNumber)"

definition ToolUsage_type :: ts_type where
  "ToolUsage_type = TInterface
    [(''call_count'', False, TNumber),
     (''sandbox_time'', False, TNumber),
     (''type'', False, TString)]
    (Some TNumber)"

definition Usage_type :: ts_type where
  "Usage_type = TInterface
    [(''llm'', False, LlmUsage_type),
     (''tool'', False, ToolUsage_type)]
    None"

definition AudrRecordShape :: ts_type where
  "AudrRecordShape = TInterface
    [(''attribution'', True, Attribution_type),
     (''corrects'', False, TString),
     (''cost'', False, Cost_type),
     (''emitter'', True, Emitter_type),
     (''record_id'', True, TString),
     (''resource'', True, Resource_type),
     (''run'', True, Run_type),
     (''spec_version'', True, TString),
     (''timing'', True, Timing_type),
     (''usage'', True, Usage_type)]
    None"

text \<open>\<open>Omit\<close> and \<open>extends\<close>, of interfaces.\<close>

fun omit_members :: "string list \<Rightarrow> ts_type \<Rightarrow> ts_type" where
  "omit_members ns (TInterface ms ix) = TInterface (filter (\<lambda>m. \<not> List.member ns (fst m)) ms) ix"
| "omit_members ns t = t"

fun extend_members :: "ts_type \<Rightarrow> members \<Rightarrow> ts_type" where
  "extend_members (TInterface ms ix) added = TInterface (ms @ added) ix"
| "extend_members t added = t"

text \<open>\<open>record.ts\<close>: what a client takes, and what \<open>createRecord\<close> does.\<close>

definition AudrRecord :: ts_type where
  "AudrRecord = extend_members (omit_members [''emitter''] AudrRecordShape) [(''emitter'', False, Emitter_type)]"

definition timing_input :: ts_type where
  "timing_input = extend_members (omit_members [''event_time''] Timing_type) [(''event_time'', False, TUnion TDate TString)]"

definition RecordInput :: ts_type where
  "RecordInput = extend_members (omit_members [''spec_version'', ''record_id'', ''timing''] AudrRecord)
     [(''spec_version'', False, TString), (''record_id'', False, TString),
      (''timing'', False, timing_input)]"

section \<open>A type that describes a schema\<close>

fun properties_of :: "keyword list \<Rightarrow> (string \<times> schema) list" where
  "properties_of [] = []"
| "properties_of (Properties ps # ks) = ps @ properties_of ks"
| "properties_of (_ # ks) = properties_of ks"

fun patterns_of :: "keyword list \<Rightarrow> (rx \<times> schema) list" where
  "patterns_of [] = []"
| "patterns_of (PatternProperties r s # ks) = (r, s) # patterns_of ks"
| "patterns_of (_ # ks) = patterns_of ks"

fun required_of :: "keyword list \<Rightarrow> string list" where
  "required_of [] = []"
| "required_of (Required ns # ks) = ns @ required_of ks"
| "required_of (_ # ks) = required_of ks"

fun only_types :: "string list \<Rightarrow> keyword \<Rightarrow> bool" where
  "only_types allowed (Type ts) = list_all (List.member allowed) ts"
| "only_types allowed _ = False"

fun only_literals :: "string list \<Rightarrow> keyword \<Rightarrow> bool" where
  "only_literals allowed (Enum es) = list_all (List.member allowed) es"
| "only_literals allowed _ = False"

fun is_closed :: "keyword \<Rightarrow> bool" where
  "is_closed Closed = True"
| "is_closed _ = False"

fun after_prefix :: "string \<Rightarrow> rx \<Rightarrow> bool" where
  "after_prefix p (Sq q r) = (q = Str p)"
| "after_prefix p _ = False"

fun keywords_of :: "schema \<Rightarrow> keyword list" where
  "keywords_of (Obj ks) = ks"

fun each_other :: "(schema \<Rightarrow> bool) \<Rightarrow> keyword \<Rightarrow> bool" where
  "each_other p (Additional s) = p s"
| "each_other p _ = False"

text \<open>
  Members and properties have the same names; a member that must be there is required, and one the
  schema requires must be there; an index signature stands for the pattern properties.
\<close>

fun describes :: "ts_type \<Rightarrow> schema \<Rightarrow> bool" where
  "describes TString s = list_ex (only_types [''string'']) (keywords_of s)"
| "describes TNumber s = list_ex (only_types [''integer'', ''number'']) (keywords_of s)"
| "describes TDate s = False"
| "describes (TLiterals ls) s = list_ex (only_literals ls) (keywords_of s)"
| "describes (TMap t) s =
     (list_ex (only_types [''object'']) (keywords_of s) \<and> declared (keywords_of s) = [] \<and>
      declared_patterns (keywords_of s) = [] \<and> list_ex (each_other (describes t)) (keywords_of s))"
| "describes (TUnion t u) s = (describes t s \<or> describes u s)"
| "describes (TInterface ms ix) s =
     (list_ex (only_types [''object'']) (keywords_of s) \<and> list_ex is_closed (keywords_of s) \<and>
      list_all (List.member (map fst ms)) (map fst (properties_of (keywords_of s))) \<and>
      list_all (\<lambda>(n, required, t).
        (case map_of (properties_of (keywords_of s)) n of None \<Rightarrow> False | Some s' \<Rightarrow> describes t s') \<and>
        (required = List.member (required_of (keywords_of s)) n)) ms \<and>
      list_all (\<lambda>(r, s'). after_prefix ''x_'' r \<and> (case ix of None \<Rightarrow> False | Some t \<Rightarrow> describes t s'))
        (patterns_of (keywords_of s)))"

section \<open>What is described is inhabited\<close>

lemma sat_keyword: "sat s v \<Longrightarrow> k \<in> set (keywords_of s) \<Longrightarrow> sat_kw (keywords_of s) k v"
  by (cases s) (simp add: list_all_iff)

fun_cases only_typesE: "only_types ts k"
fun_cases only_literalsE: "only_literals ls k"
fun_cases is_closedE: "is_closed k"
fun_cases each_otherE: "each_other p k"
fun_cases after_prefixE: "after_prefix p r"

lemma sat_only_types:
  assumes "sat s v" "list_ex (only_types ts) (keywords_of s)"
  shows "\<exists>t \<in> set ts. has_type v t"
proof -
  obtain k where k: "k \<in> set (keywords_of s)" "only_types ts k" using assms(2) by (auto simp: list_ex_iff)
  from k(2) sat_keyword [OF assms(1) k(1)] show ?thesis
    by (elim only_typesE) (auto simp: list_ex_iff list_all_iff)
qed

lemma sat_only_literals:
  assumes "sat s v" "list_ex (only_literals ls) (keywords_of s)"
  shows "list_ex (\<lambda>l. v = JStr l) ls"
proof -
  obtain k where k: "k \<in> set (keywords_of s)" "only_literals ls k" using assms(2) by (auto simp: list_ex_iff)
  from k(2) sat_keyword [OF assms(1) k(1)] show ?thesis
    by (elim only_literalsE) (auto simp: list_ex_iff list_all_iff)
qed

lemma has_type_string: "has_type v ''string'' \<Longrightarrow> \<exists>s. v = JStr s"
  by (cases v) auto

lemma has_type_number: "has_type v ''integer'' \<or> has_type v ''number'' \<Longrightarrow> \<exists>n. v = JNum n"
  by (cases v) auto

lemma typed_is_object: "has_type v ''object'' \<Longrightarrow> is_object v"
  by (cases v) auto

lemma properties_keyword: "(n, s) \<in> set (properties_of ks) \<Longrightarrow> \<exists>ps. Properties ps \<in> set ks \<and> (n, s) \<in> set ps"
  by (induction ks rule: properties_of.induct) auto

lemma patterns_keyword: "(r, s) \<in> set (patterns_of ks) \<Longrightarrow> PatternProperties r s \<in> set ks"
  by (induction ks rule: patterns_of.induct) auto

lemma required_keyword: "n \<in> set (required_of ks) \<Longrightarrow> \<exists>ns. Required ns \<in> set ks \<and> n \<in> set ns"
  by (induction ks rule: required_of.induct) auto

lemma declared_properties: "declared ks = map fst (properties_of ks)"
  by (induction ks rule: properties_of.induct) auto

lemma declared_patterns_of: "declared_patterns ks = map fst (patterns_of ks)"
  by (induction ks rule: patterns_of.induct) auto

lemma sat_property:
  assumes "sat s v" "is_object v" "(n, s') \<in> set (properties_of (keywords_of s))" "jget v n \<noteq> JUndef"
  shows "sat s' (jget v n)"
proof -
  obtain ps where ps: "Properties ps \<in> set (keywords_of s)" "(n, s') \<in> set ps"
    using properties_keyword [OF assms(3)] by blast
  with sat_keyword [OF assms(1) ps(1)] assms(2,4) show ?thesis by (auto simp: list_all_iff has_def)
qed

lemma sat_required:
  assumes "sat s v" "is_object v" "n \<in> set (required_of (keywords_of s))"
  shows "jget v n \<noteq> JUndef"
proof -
  obtain ns where ns: "Required ns \<in> set (keywords_of s)" "n \<in> set ns"
    using required_keyword [OF assms(3)] by blast
  with sat_keyword [OF assms(1) ns(1)] assms(2) show ?thesis by (auto simp: list_all_iff has_def)
qed

text \<open>A property of a closed object is declared, or matches a pattern and its schema.\<close>

lemma sat_key:
  assumes "sat s v" "is_object v" "list_ex is_closed (keywords_of s)" "k \<in> set (keys v)"
  shows "k \<in> set (map fst (properties_of (keywords_of s))) \<or>
    (\<exists>r s'. (r, s') \<in> set (patterns_of (keywords_of s)) \<and> matches r k \<and> sat s' (jget v k))"
proof -
  obtain c where c: "c \<in> set (keywords_of s)" "is_closed c" using assms(3) by (auto simp: list_ex_iff)
  from c(2) have "c = Closed" by (rule is_closedE)
  then have "\<not> undeclared (keywords_of s) k"
    using sat_keyword [OF assms(1) c(1)] assms(2,4) by (auto simp: list_ex_iff)
  then consider "k \<in> set (declared (keywords_of s))" | r where "r \<in> set (declared_patterns (keywords_of s))" "matches r k"
    by (auto simp: undeclared_def list_ex_iff)
  then show ?thesis
  proof cases
    case 1
    then show ?thesis by (simp add: declared_properties)
  next
    case 2
    then obtain s' where s': "(r, s') \<in> set (patterns_of (keywords_of s))" by (auto simp: declared_patterns_of)
    from sat_keyword [OF assms(1) patterns_keyword [OF this]] assms(2,4) 2(2)
    have "sat s' (jget v k)" by (auto simp: list_all_iff)
    with s' 2(2) show ?thesis by blast
  qed
qed

lemma after_prefix_starts: "after_prefix p r \<Longrightarrow> matches r k \<Longrightarrow> starts_with p k"
  by (elim after_prefixE) (auto simp: matches_Sq matches_Str)

lemma map_inhabits:
  assumes "describes (TMap t) s" "sat s v" "\<And>s v. describes t s \<Longrightarrow> sat s v \<Longrightarrow> inhabits t v"
  shows "inhabits (TMap t) v"
proof -
  have obj: "is_object v" using assms(1,2) by (auto dest!: sat_only_types typed_is_object)
  obtain k where k: "k \<in> set (keywords_of s)" "each_other (describes t) k"
    using assms(1) by (auto simp: list_ex_iff)
  then obtain s' where s': "k = Additional s'" "describes t s'" by (elim each_otherE) blast
  have "undeclared (keywords_of s) n" for n using assms(1) by (simp add: undeclared_def)
  with sat_keyword [OF assms(2) k(1)] s' obj assms(3) show ?thesis by (auto simp: list_all_iff)
qed

lemma member_inhabits:
  assumes "describes (TInterface ms ix) s" "sat s v" "(n, required, t) \<in> set ms"
    and "\<And>s v. describes t s \<Longrightarrow> sat s v \<Longrightarrow> inhabits t v"
  shows "if jget v n = JUndef then \<not> required else inhabits t (jget v n)"
proof -
  have obj: "is_object v" using assms(1,2) by (auto dest!: sat_only_types typed_is_object)
  from assms(1,3) obtain s' where s': "map_of (properties_of (keywords_of s)) n = Some s'" "describes t s'"
    and r: "required = List.member (required_of (keywords_of s)) n"
    by (fastforce simp: list_all_iff split: option.splits)
  from sat_property [OF assms(2) obj map_of_SomeD [OF s'(1)]] sat_required [OF assms(2) obj, of n] r s'(2) assms(4)
  show ?thesis by auto
qed

lemma index_inhabits:
  assumes "describes (TInterface ms ix) s" "sat s v" "k \<in> set (keys v)" "k \<notin> fst ` set ms"
    and "\<And>t s v. ix = Some t \<Longrightarrow> describes t s \<Longrightarrow> sat s v \<Longrightarrow> inhabits t v"
  shows "\<exists>t. ix = Some t \<and> ExtensionKey k \<and> inhabits t (jget v k)"
proof -
  have obj: "is_object v" using assms(1,2) by (auto dest!: sat_only_types typed_is_object)
  have "k \<notin> set (map fst (properties_of (keywords_of s)))"
    using assms(1,4) by (auto simp: list_all_iff)
  with sat_key [OF assms(2) obj _ assms(3)] assms(1)
  obtain r s' where p: "(r, s') \<in> set (patterns_of (keywords_of s))" "matches r k" "sat s' (jget v k)" by auto
  with assms(1) have "after_prefix ''x_'' r" "case ix of None \<Rightarrow> False | Some t \<Rightarrow> describes t s'"
    by (auto simp: list_all_iff)
  then show ?thesis
    using assms(5) p after_prefix_starts by (fastforce simp: ExtensionKey_def split: option.splits)
qed

lemma described_inhabited: "describes t s \<Longrightarrow> sat s v \<Longrightarrow> inhabits t v"
proof (induction t arbitrary: s v)
  case (TInterface ms ix)
  have obj: "is_object v" using TInterface(3,4) by (auto dest!: sat_only_types typed_is_object)
  have "if jget v n = JUndef then \<not> required else inhabits t (jget v n)" if "(n, required, t) \<in> set ms" for n required t
    by (rule member_inhabits [OF TInterface(3,4) that]) (rule TInterface(1) [OF that], auto)
  moreover have "k \<in> fst ` set ms \<or> (\<exists>t. ix = Some t \<and> ExtensionKey k \<and> inhabits t (jget v k))" if "k \<in> set (keys v)" for k
    using index_inhabits [OF TInterface(3,4) that] TInterface(2) by fastforce
  ultimately show ?case using obj by (fastforce simp: list_all_iff)
next
  case (TMap t)
  show ?case by (rule map_inhabits [OF TMap(2,3) TMap(1)])
next
  case TString
  then show ?case by (auto dest!: sat_only_types has_type_string)
next
  case TNumber
  then have "has_type v ''integer'' \<or> has_type v ''number''" by (auto dest!: sat_only_types)
  from has_type_number [OF this] show ?case by auto
next
  case (TLiterals ls)
  then show ?case by (simp add: sat_only_literals)
qed auto

text \<open>
  C13: Every record the client accepts has the type the package declares for it: what the schema
  lets pass, the generated types admit, down to the literals of its enumerations and the
  extension counters, and nothing of the record is undeclared.
\<close>

theorem accepted_record_typed:
  assumes "judge_record em r now = Valid d"
  shows "inhabits AudrRecordShape d"
proof -
  have "describes AudrRecordShape schema31" by code_simp
  moreover have "sat schema31 d" using assms by (auto simp: judge_valid conforms_def)
  ultimately show ?thesis by (rule described_inhabited)
qed

theorem accepted_record_typed_witness:
  "judge_record JUndef sample_record 0 = Valid sample_record \<and> inhabits AudrRecordShape sample_record"
  using accepted_record_typed [OF sample_record_judged] sample_record_judged by simp

section \<open>\<open>createRecord\<close> is well typed\<close>

declare inhabits.simps(7) [simp del]

text \<open>An interface of an object, to be computed for members that are written out.\<close>

lemma record_inhabits:
  "inhabits (TInterface ms None) (JObj kvs) \<longleftrightarrow>
    list_all (\<lambda>(n, required, t). if field kvs n = JUndef then \<not> required else inhabits t (field kvs n)) ms \<and>
    fst ` set kvs \<subseteq> fst ` set ms"
  by (auto simp: js_simps list_all_iff inhabits.simps(7))

lemma member_typed:
  "inhabits (TInterface ms ix) (JObj kvs) \<Longrightarrow> (n, required, t) \<in> set ms \<Longrightarrow>
    field kvs n = JUndef \<or> inhabits t (field kvs n)"
  by (fastforce simp: inhabits.simps(7) js_simps list_all_iff split: if_splits)

lemma input_members:
  "\<exists>ms. RecordInput = TInterface ms None \<and>
    {(''timing'', False, timing_input), (''spec_version'', False, TString), (''record_id'', False, TString)} \<subseteq> set ms"
  by (simp add: RecordInput_def AudrRecord_def AudrRecordShape_def)

lemma input_member:
  assumes "inhabits RecordInput (JObj input)"
    and "(n, t) \<in> {(''timing'', timing_input), (''spec_version'', TString), (''record_id'', TString)}"
  shows "field input n = JUndef \<or> inhabits t (field input n)"
proof -
  obtain ms where "RecordInput = TInterface ms None" and sub: "{(''timing'', False, timing_input),
      (''spec_version'', False, TString), (''record_id'', False, TString)} \<subseteq> set ms" using input_members by blast
  then have "inhabits (TInterface ms None) (JObj input)" using assms(1) by simp
  moreover have "(n, False, t) \<in> set ms" using sub assms(2) by (elim insertE) simp_all
  ultimately show ?thesis by (rule member_typed)
qed

lemma coalesce_text: "v = JUndef \<or> inhabits TString v \<Longrightarrow> \<exists>s. coalesce v (JStr d) = JStr s"
  by (cases v) (auto simp: coalesce_def nullish_def)

lemma keys_entries: "fst ` set (entries v) = set (keys v)"
  by (simp add: keys_def)

text \<open>The block \<open>createRecord\<close> makes of a typed \<open>timing\<close>, and the time it renders.\<close>

lemma timing_typed:
  assumes "v = JUndef \<or> inhabits timing_input v"
  shows "inhabits Timing_type (JObj (put (entries v) ''event_time'' (JStr t)))"
proof -
  have members: "jget v k = JUndef \<or> inhabits u (jget v k)" if "(k, u) \<in> {(''duration_ms'', TNumber), (''received_time'', TString)}" for k u
    using assms that by (auto simp: timing_input_def Timing_type_def inhabits.simps(7) jget_simps(3) split: if_splits)
  have "fst ` set (entries v) \<subseteq> {''duration_ms'', ''received_time'', ''event_time''}"
    using assms by (cases "v = JUndef") (auto simp: timing_input_def Timing_type_def list_all_iff keys_entries inhabits.simps(7))
  with members [of "''duration_ms''" TNumber] members [of "''received_time''" TString] show ?thesis
    unfolding Timing_type_def record_inhabits by (auto simp: jget_def)
qed

text \<open>
  \<open>createRecord\<close> is well typed: given an object of the type it declares, with a \<open>Date\<close>, a string or no
  event time, it does not throw, and what it returns is a record in the type clients take, whose
  version, identifier and event time are present.
\<close>

theorem createRecord_typed:
  assumes "inhabits RecordInput (JObj input)"
  shows "\<exists>r. createRecord now uuid input = Some r \<and> inhabits AudrRecord (JObj r)"
proof -
  have t: "field input ''timing'' = JUndef \<or> inhabits timing_input (field input ''timing'')"
    by (rule input_member [OF assms]) simp
  then have e: "jget (field input ''timing'') ''event_time'' = JUndef \<or>
      inhabits (TUnion TDate TString) (jget (field input ''timing'') ''event_time'')"
    by (auto simp: timing_input_def Timing_type_def inhabits.simps(7) jget_simps(3) split: if_splits)
  then obtain s where "createRecord now uuid input = Some
      (put (put (put (remove_key ''timing'' input) ''spec_version'' (coalesce (field input ''spec_version'') (JStr SPEC_VERSION)))
        ''record_id'' (coalesce (field input ''record_id'') (JStr uuid)))
        ''timing'' (JObj (put (entries (field input ''timing'')) ''event_time'' (JStr s))))" (is "_ = Some ?r")
    by (fastforce simp: createRecord_def Let_def nullish_def split: jsval.splits)
  moreover have "inhabits AudrRecord (JObj ?r)"
  proof -
    have "inhabits Timing_type (field ?r ''timing'')" using timing_typed [OF t] by simp
    moreover have "\<exists>v. field ?r ''spec_version'' = JStr v"
      using coalesce_text [OF input_member [OF assms]] by simp
    moreover have "\<exists>i. field ?r ''record_id'' = JStr i"
      using coalesce_text [OF input_member [OF assms]] by simp
    moreover have "fst ` set (remove_key ''timing'' input) \<subseteq> fst ` set input"
      by (auto simp: remove_key_def)
    ultimately show ?thesis
      using assms unfolding RecordInput_def AudrRecord_def AudrRecordShape_def
      by (simp add: record_inhabits) auto
  qed
  ultimately show ?thesis by blast
qed

theorem createRecord_typed_witness:
  "\<exists>r. createRecord 0 ''u'' [(''attribution'', JObj []), (''run'', JObj [(''run_id'', JStr ''r''), (''span_id'', JStr ''s'')]),
      (''resource'', JObj [(''provider'', JStr ''p''), (''type'', JStr ''tool''), (''name'', JStr ''n''), (''operation'', JStr ''retrieval'')]),
      (''usage'', JObj []), (''timing'', JObj [(''event_time'', JDate (Some 0))])] = Some r \<and> inhabits AudrRecord (JObj r)"
  by (rule createRecord_typed) code_simp

end
