(* ===== verification/SchemaGen.thy ===== *)
theory SchemaGen
  imports Codec
begin

text \<open>
  The generator of the validator and of the record types, \<open>adapters/core/typescript/scripts/gen-schema.ts\<close>:
  what it drops from the schema before it is compiled, the titles it sets for quicktype, the
  rewrites and checks of quicktype's output, the index signatures it adds, and what it writes
  or finds stale. Ajv, quicktype, prettier, \<open>JSON.stringify\<close>, \<open>String\<close> and \<open>RegExp\<close> are arguments. The
  schema comes out of \<open>JSON.parse\<close>, so an object is a plain one; quicktype returns lines, and no
  line of it holds a line break.
\<close>

section \<open>Errors and nodes\<close>

text \<open>An exception is the left value of a sum, its message.\<close>

fun andThen :: "'e + 'a \<Rightarrow> ('a \<Rightarrow> 'e + 'b) \<Rightarrow> 'e + 'b" where
  "andThen (Inl e) f = Inl e"
| "andThen (Inr x) f = f x"

lemma andThen_Inr: "andThen m f = Inr y \<longleftrightarrow> (\<exists>x. m = Inr x \<and> f x = Inr y)"
  by (cases m) auto

definition isNode :: "jsval \<Rightarrow> bool" where
  "isNode v = is_plain v"

definition asNode :: "jsval \<Rightarrow> string \<Rightarrow> string + jsval" where
  "asNode v place = (if isNode v then Inr v else Inl (''expected a schema object at '' @ place))"

lemma asNode_Inr: "asNode v place = Inr w \<longleftrightarrow> isNode v \<and> w = v"
  by (auto simp: asNode_def)

lemma isNode_cases: "isNode v \<Longrightarrow> \<exists>kvs. v = JObj kvs"
  by (cases v) (auto simp: isNode_def)

definition TYPE_NAMES :: "(string list \<times> string) list" where
  "TYPE_NAMES =
    [([], ''AudrRecordShape''),
     ([''emitter''], ''Emitter''),
     ([''emitter'', ''component''], ''EmitterComponent''),
     ([''timing''], ''Timing''),
     ([''resource''], ''Resource''),
     ([''resource'', ''type''], ''ResourceType''),
     ([''resource'', ''operation''], ''Operation''),
     ([''resource'', ''modality''], ''Modality''),
     ([''run''], ''Run''),
     ([''run'', ''run_type''], ''RunType''),
     ([''run'', ''outcome''], ''RunOutcome''),
     ([''attribution''], ''Attribution''),
     ([''attribution'', ''environment''], ''Environment''),
     ([''usage''], ''Usage''),
     ([''usage'', ''llm''], ''LlmUsage''),
     ([''usage'', ''tool''], ''ToolUsage''),
     ([''cost''], ''Cost''),
     ([''cost'', ''llm''], ''LlmCost''),
     ([''cost'', ''tool''], ''ToolCost'')]"

definition ANNOTATIONS :: "string list" where
  "ANNOTATIONS = [''$comment'', ''title'', ''description'', ''examples'']"

text \<open>A record path is its keys; the code writes it with a slash before each.\<close>

definition path_text :: "string list \<Rightarrow> string" where
  "path_text ks = concat (map (\<lambda>k. ''/'' @ k) ks)"

section \<open>The schema without prose\<close>

text \<open>
  The reviver of \<open>JSON.parse\<close> sees every value after the values inside it, under its key, and the
  elements of an array under their numerals, which it never drops.
\<close>

definition prose :: "string \<Rightarrow> jsval \<Rightarrow> bool" where
  "prose k v \<longleftrightarrow> (List.member ANNOTATIONS k \<or> starts_with ''x_'' k) \<and> \<not> isNode v"

fun bare :: "jsval \<Rightarrow> jsval" where
  "bare (JObj kvs) = JObj (filter (\<lambda>p. \<not> prose (fst p) (snd p)) (map (\<lambda>(k, v). (k, bare v)) kvs))"
| "bare (JArr xs) = JArr (map bare xs)"
| "bare v = v"

lemma isNode_bare [simp]: "isNode (bare v) = isNode v"
  by (cases v) (simp_all add: isNode_def)

lemma prose_bare [simp]: "prose k (bare v) = prose k v"
  by (simp add: prose_def)

lemma bare_fields: "bare (JObj kvs) = JObj (map (\<lambda>(k, v). (k, bare v)) (filter (\<lambda>p. \<not> prose (fst p) (snd p)) kvs))"
  by (simp add: filter_map o_def split_def)

declare bare.simps(1) [simp del]

text \<open>No annotation is left, at any depth.\<close>

fun no_prose :: "jsval \<Rightarrow> bool" where
  "no_prose (JObj kvs) = list_all (\<lambda>p. \<not> prose (fst p) (snd p) \<and> no_prose (snd p)) kvs"
| "no_prose (JArr xs) = list_all no_prose xs"
| "no_prose v = True"

lemma no_prose_bare: "no_prose (bare v)"
  by (induction v rule: bare.induct) (auto simp: bare_fields list_all_iff)

lemma bare_same: "no_prose v \<Longrightarrow> bare v = v"
proof (induction v rule: no_prose.induct)
  case (1 kvs)
  then have "filter (\<lambda>p. \<not> prose (fst p) (snd p)) kvs = kvs" "map (\<lambda>(k, v). (k, bare v)) kvs = kvs"
    by (auto simp: filter_id_conv list_all_iff intro!: map_idI)
  then show ?case by (simp only: bare_fields)
next
  case (2 xs)
  then show ?case by (auto simp: list_all_iff intro!: map_idI)
qed simp_all

lemma bare_field: "\<not> prose k (field kvs k) \<Longrightarrow> distinct (map fst kvs) \<Longrightarrow> jget (bare (JObj kvs)) k = bare (field kvs k)"
proof (induction kvs)
  case (Cons p kvs)
  then show ?case
    by (cases p) (auto simp: js_simps bare_fields field_notin split: if_splits)
qed (simp add: js_simps bare_fields)

section \<open>Titles\<close>

fun set_prop :: "jsval \<Rightarrow> string \<Rightarrow> jsval \<Rightarrow> jsval" where
  "set_prop (JObj kvs) k v = JObj (put kvs k v)"
| "set_prop w k v = w"

text \<open>The value at a record path, through \<open>properties\<close>.\<close>

definition child :: "jsval \<Rightarrow> string \<Rightarrow> jsval" where
  "child node k = jget (jget node ''properties'') k"

definition node_at :: "jsval \<Rightarrow> string list \<Rightarrow> jsval" where
  "node_at = foldl child"

text \<open>
  \<open>titled\<close>: the clone has no part in two places, so setting the title of the object found at a path
  rebuilds the objects on the way to it.
\<close>

fun title_at :: "string \<Rightarrow> string \<Rightarrow> string list \<Rightarrow> jsval \<Rightarrow> string + jsval" where
  "title_at path name [] node = Inr (set_prop node ''title'' (JStr name))"
| "title_at path name (k # ks) node =
     andThen (asNode (jget node ''properties'') path) (\<lambda>props.
     andThen (asNode (jget props k) path) (\<lambda>inner.
     andThen (title_at path name ks inner) (\<lambda>inner.
     Inr (set_prop node ''properties'' (set_prop props k inner)))))"

fun title_all :: "(string list \<times> string) list \<Rightarrow> jsval \<Rightarrow> string + jsval" where
  "title_all [] schema = Inr schema"
| "title_all ((ks, name) # names) schema =
     andThen (title_at (path_text ks) name ks schema) (title_all names)"

definition titled :: "jsval \<Rightarrow> string + jsval" where
  "titled schema = title_all TYPE_NAMES schema"

lemma bare_put:
  assumes "bare v = bare (field kvs k)" "field kvs k \<noteq> JUndef"
  shows "bare (JObj (put kvs k v)) = bare (JObj kvs)"
  using assms(2,1)
proof (induction kvs k v rule: put.induct)
  case (2 k' v' kvs k v)
  have "prose k v = prose k v'" if "bare v = bare v'" by (metis that prose_bare)
  with 2 show ?case by (auto simp: bare_fields)
qed simp

lemma prose_title: "prose ''title'' v \<longleftrightarrow> \<not> isNode v"
  by (simp add: prose_def ANNOTATIONS_def)

lemma bare_title:
  assumes "\<not> isNode (field kvs ''title'')"
  shows "bare (JObj (put kvs ''title'' (JStr name))) = bare (JObj kvs)"
  using assms
proof (induction kvs)
  case Nil
  then show ?case by (simp add: bare_fields prose_title isNode_def)
next
  case (Cons p kvs)
  show ?case
  proof (cases "fst p = ''title''")
    case True
    with Cons.prems show ?thesis by (cases p) (simp add: bare_fields prose_title isNode_def)
  next
    case False
    with Cons show ?thesis by (cases p) (simp add: bare_fields)
  qed
qed

lemma title_at_Cons:
  "title_at path name (k # ks) (JObj kvs) = Inr w \<Longrightarrow> \<exists>ps inner. field kvs ''properties'' = JObj ps \<and>
    isNode (field ps k) \<and> title_at path name ks (field ps k) = Inr inner \<and>
    w = JObj (put kvs ''properties'' (JObj (put ps k inner)))"
  by (auto simp: andThen_Inr asNode_Inr js_simps dest!: isNode_cases) (auto simp: isNode_def)

lemma title_at_bare:
  "title_at path name ks v = Inr w \<Longrightarrow> isNode v \<Longrightarrow> \<not> isNode (jget (node_at v ks) ''title'') \<Longrightarrow> bare w = bare v"
proof (induction ks arbitrary: v w)
  case Nil
  then show ?case using isNode_cases [of v] by (auto simp: node_at_def js_simps bare_title)
next
  case (Cons k ks)
  then obtain kvs where v: "v = JObj kvs" using isNode_cases by blast
  from Cons.prems obtain ps inner where props: "field kvs ''properties'' = JObj ps" "isNode (field ps k)"
    and inner: "title_at path name ks (field ps k) = Inr inner"
    and w: "w = JObj (put kvs ''properties'' (JObj (put ps k inner)))"
    using title_at_Cons unfolding v by blast
  have "\<not> isNode (jget (node_at (field ps k) ks) ''title'')"
    using Cons.prems(3) by (simp add: node_at_def child_def v js_simps props(1))
  from Cons.IH [OF inner props(2) this] have "bare inner = bare (field ps k)" .
  then have "bare (JObj (put ps k inner)) = bare (JObj ps)"
    using props(2) by (intro bare_put) (auto simp: isNode_def)
  then show ?case unfolding w v using props(1) by (intro bare_put) auto
qed

text \<open>Titles elsewhere stay.\<close>

lemma title_at_elsewhere:
  "title_at path name ks v = Inr w \<Longrightarrow> isNode v \<Longrightarrow>
    isNode w \<and> (jget (node_at w ks') ''title'' = JStr name \<or> jget (node_at w ks') ''title'' = jget (node_at v ks') ''title'')"
proof (induction ks arbitrary: v w ks')
  case Nil
  then show ?case using isNode_cases [of v]
    by (cases ks') (auto simp: node_at_def child_def js_simps isNode_def)
next
  case (Cons k ks)
  then obtain kvs where v: "v = JObj kvs" using isNode_cases by blast
  from Cons.prems obtain ps inner where props: "field kvs ''properties'' = JObj ps" "isNode (field ps k)"
    and inner: "title_at path name ks (field ps k) = Inr inner"
    and w: "w = JObj (put kvs ''properties'' (JObj (put ps k inner)))"
    using title_at_Cons unfolding v by blast
  show ?case
  proof (cases ks')
    case Nil
    then show ?thesis by (simp add: w v node_at_def js_simps isNode_def)
  next
    case (Cons k' ks'')
    have "node_at w ks' = node_at (if k' = k then inner else field ps k') ks''"
      "node_at v ks' = node_at (field ps k') ks''"
      by (simp_all add: Cons node_at_def child_def w v js_simps props(1))
    with Cons.IH [OF inner props(2), of ks''] show ?thesis by (auto simp: w isNode_def)
  qed
qed

lemma title_all_bare:
  "title_all names v = Inr w \<Longrightarrow> isNode v \<Longrightarrow>
    (\<And>ks name. (ks, name) \<in> set names \<Longrightarrow> \<not> isNode (jget (node_at v ks) ''title'')) \<Longrightarrow> bare w = bare v"
proof (induction names v arbitrary: w rule: title_all.induct)
  case (2 ks name names v)
  then obtain u where u: "title_at (path_text ks) name ks v = Inr u" "title_all names u = Inr w"
    by (auto simp: andThen_Inr)
  have "isNode u" using title_at_elsewhere [OF u(1) "2.prems"(2)] by blast
  moreover have "\<not> isNode (jget (node_at u ks') ''title'')" if "(ks', name') \<in> set names" for ks' name'
    using title_at_elsewhere [OF u(1) "2.prems"(2), of ks'] "2.prems"(3) [of ks' name'] that
    by (auto simp: isNode_def)
  ultimately have "bare w = bare u" using "2.IH" [OF u(2)] by blast
  also have "bare u = bare v" by (rule title_at_bare [OF u(1) "2.prems"(2)]) (rule "2.prems"(3) [of ks name], simp)
  finally show ?case .
qed simp

section \<open>The validator\<close>

definition HEADER :: string where
  "HEADER = ''// GENERATED by scripts/gen-schema.ts from spec/audr.schema.json. DO NOT EDIT.''"

definition newline :: string where "newline = [CHR 0x0A]"
definition quote :: string where "quote = [CHR 0x22]"
definition backtick :: string where "backtick = [CHR 0x60]"

definition is_word :: "char \<Rightarrow> bool" where
  "is_word c \<longleftrightarrow> in_cls [(CHR ''0'', CHR ''9''), (CHR ''A'', CHR ''Z''), (CHR ''a'', CHR ''z''), (CHR ''_'', CHR ''_'')] c"

text \<open>The word at the front of a text, and what follows.\<close>

definition word_of :: "string \<Rightarrow> string" where
  "word_of s = takeWhile is_word s"

definition after_word :: "string \<Rightarrow> string" where
  "after_word s = dropWhile is_word s"

text \<open>\<open>s.slice(p.length)\<close> of a text that starts with \<open>p\<close>.\<close>

definition strip_start :: "string \<Rightarrow> string \<Rightarrow> string option" where
  "strip_start p s = (if starts_with p s then Some (drop (length p) s) else None)"

lemma strip_start_Some: "strip_start p s = Some r \<longleftrightarrow> s = p @ r"
  by (auto simp: strip_start_def starts_with_iff)

text \<open>
  The preamble names the compiled function twice. The texts searched for are one name followed by
  no other letter, which the word boundaries of the pattern ask for.
\<close>

definition preamble :: "string \<Rightarrow> (string \<times> string) option" where
  "preamble source =
     (case strip_start (quote @ ''use strict'' @ quote @ '';export const validate = '') source of
        None \<Rightarrow> None
      | Some s \<Rightarrow>
          let w = word_of s
          in if w = [] then None
             else case strip_start ('';export default '' @ w @ '';'') (after_word s) of
               None \<Rightarrow> None | Some body \<Rightarrow> Some (w, body))"

definition at_word_end :: "string \<Rightarrow> bool" where
  "at_word_end s \<longleftrightarrow> s = [] \<or> \<not> is_word (hd s)"

text \<open>\<open>\\bp\<close> and \<open>\\bp\\b\<close> for a \<open>p\<close> that starts, and ends, with a letter; \<open>inside\<close> is whether a word goes on.\<close>

fun has_word :: "bool \<Rightarrow> bool \<Rightarrow> string \<Rightarrow> string \<Rightarrow> bool" where
  "has_word ends inside p [] = False"
| "has_word ends inside p (c # cs) =
     ((\<not> inside \<and> starts_with p (c # cs) \<and> (ends \<longrightarrow> at_word_end (drop (length p) (c # cs)))) \<or>
      has_word ends (is_word c) p cs)"

definition UCS2LENGTH :: string where
  "UCS2LENGTH = ''require('' @ quote @ ''ajv/dist/runtime/ucs2length'' @ quote @ '').default''"

definition validator_tail :: "string \<Rightarrow> string list" where
  "validator_tail name =
    [[],
     ''/** A string'' @ [CHR 0x27] @ ''s length in code points, as JSON Schema counts it; a lone surrogate is one. */'',
     ''function codePoints(value) {'',
     ''  return [...value].length;'',
     ''}'',
     [],
     ''/** Every rule of the schema that '' @ backtick @ ''data'' @ backtick @ '' breaks, in the order Ajv finds them. */'',
     ''export function schemaErrors(data: unknown): readonly SchemaError[] {'',
     ''  return '' @ name @ ''(data) ? [] : '' @ name @ ''.errors;'',
     ''}'',
     []]"

definition validatorSource :: "(jsval \<Rightarrow> string) \<Rightarrow> jsval \<Rightarrow> string + string" where
  "validatorSource ajv schema =
     (case preamble (ajv schema) of
        None \<Rightarrow> Inl ''unexpected Ajv standalone preamble''
      | Some (name, rest) \<Rightarrow>
          let body = replace_all UCS2LENGTH ''codePoints'' rest
          in if has_word False False ''require('' body \<or> has_word True False ''import'' body
             then Inl ''generated validator imports code''
             else Inr (join newline
               ([''// @ts-nocheck'', HEADER,
                 ''import type { SchemaError } from '' @ [CHR 0x27] @ ''./validate.js'' @ [CHR 0x27] @ '';'',
                 [], body] @ validator_tail name)))"

section \<open>The record types\<close>

subsection \<open>Extension properties\<close>

record slot =
  slot_path :: "string list"
  slot_pattern :: string
  slot_value :: jsval

lemma size_field: "size (field kvs k) < Suc (size_list (size_prod (\<lambda>_. 0) size) kvs)"
  using size_entry [OF field_in_set, of kvs k] by (cases "field kvs k = JUndef") auto

lemma size_properties:
  assumes "p \<in> set (entries (field kvs k))"
  shows "size (snd p) < size (JObj kvs)"
proof -
  have "size (snd p) < size (field kvs k)" using assms by (cases "field kvs k") (auto intro!: size_entry_snd)
  with size_field [of kvs k] show ?thesis by simp
qed

definition object_entries :: "jsval \<Rightarrow> fields" where
  "object_entries v = (if isNode v then entries v else [])"

text \<open>\<open>extensionSlots\<close>: the slots of a node, then those of its properties; what is no object has none.\<close>

function extensionSlots :: "jsval \<Rightarrow> string list \<Rightarrow> string + slot list" where
  "extensionSlots (JObj node) path =
     andThen (traverse (\<lambda>p. andThen (asNode (snd p) (path_text path @ ''/'' @ fst p))
         (\<lambda>value. Inr \<lparr>slot_path = path, slot_pattern = fst p, slot_value = value\<rparr>))
       (object_entries (field node ''patternProperties''))) (\<lambda>own.
     andThen (traverse (\<lambda>p. andThen (asNode (snd p) (path_text path @ ''/'' @ fst p))
         (\<lambda>_. extensionSlots (snd p) (path @ [fst p])))
       (object_entries (field node ''properties''))) (\<lambda>nested.
     Inr (own @ concat nested)))"
| "\<not> isNode v \<Longrightarrow> extensionSlots v path = Inr []"
  by (auto simp: isNode_def) (metis is_plain.elims(2))
termination
  by (relation "measure (\<lambda>(node, path). size node)")
    (auto simp: object_entries_def dest!: size_properties split: if_splits)

text \<open>The text a pattern must start with: after \<open>^\<close>, lower case letters, digits and \<open>_\<close> up to a class.\<close>

definition is_prefix_char :: "char \<Rightarrow> bool" where
  "is_prefix_char c \<longleftrightarrow> in_cls [(CHR ''0'', CHR ''9''), (CHR ''a'', CHR ''z''), (CHR ''_'', CHR ''_'')] c"

definition literal_prefix :: "string \<Rightarrow> string option" where
  "literal_prefix pattern =
     (case strip_start ''^'' pattern of None \<Rightarrow> None
      | Some s \<Rightarrow>
          let p = takeWhile is_prefix_char s
          in if p \<noteq> [] \<and> starts_with ''['' (dropWhile is_prefix_char s) then Some p else None)"

definition prefix_of :: "slot \<Rightarrow> string + string" where
  "prefix_of sl =
     (case literal_prefix (slot_pattern sl) of
        None \<Rightarrow> Inl (''no TypeScript key type for the pattern '' @ slot_pattern sl @ '' at '' @ path_text (slot_path sl))
      | Some p \<Rightarrow> Inr p)"

text \<open>\<open>extensionPrefix\<close>: a \<open>Set\<close> keeps the first of equal texts.\<close>

definition extensionPrefix :: "jsval \<Rightarrow> string + string" where
  "extensionPrefix schema =
     andThen (extensionSlots schema []) (\<lambda>slots.
     andThen (traverse prefix_of slots) (\<lambda>prefixes.
     case rev (remdups (rev prefixes)) of
       [p] \<Rightarrow> Inr p
     | [] \<Rightarrow> Inl ''expected one extension prefix, found none''
     | ps \<Rightarrow> Inl (''expected one extension prefix, found '' @ join '', '' ps)))"

subsection \<open>The rewrites of quicktype's output\<close>

definition INDEX_SIGNATURE :: string where
  "INDEX_SIGNATURE = ''[key: string]''"

definition map_entry :: "string \<Rightarrow> (string \<times> string) option" where
  "map_entry s =
     (case strip_start (''{ '' @ INDEX_SIGNATURE @ '': '') s of None \<Rightarrow> None
      | Some r \<Rightarrow>
          if word_of r = [] then None
          else case strip_start '' }'' (after_word r) of None \<Rightarrow> None | Some rest \<Rightarrow> Some (word_of r, rest))"

lemma map_entry_shorter: "map_entry s = Some (w, rest) \<Longrightarrow> length rest < length s"
proof -
  assume "map_entry s = Some (w, rest)"
  then obtain r where r: "s = (''{ '' @ INDEX_SIGNATURE @ '': '') @ r" "after_word r = '' }'' @ rest"
    by (auto simp: map_entry_def strip_start_Some split: option.splits if_splits)
  have "length (after_word r) \<le> length r" unfolding after_word_def by (rule length_dropWhile_le)
  then show ?thesis using r by simp
qed

function rewrite_maps :: "string \<Rightarrow> string" where
  "rewrite_maps [] = []"
| "rewrite_maps (c # cs) =
     (case map_entry (c # cs) of
        None \<Rightarrow> c # rewrite_maps cs
      | Some (w, rest) \<Rightarrow> ''Readonly<Record<string, '' @ w @ ''>>'' @ rewrite_maps rest)"
  by pat_completeness auto
termination
  by (relation "measure length") (auto dest: map_entry_shorter)

text \<open>
  A line that starts as an optional member that is read-only, blanks before it or not, and the
  text after \<open>?: \<close>.
\<close>

definition optional_member :: "string \<Rightarrow> string option" where
  "optional_member line =
     (case strip_start ''readonly '' (dropWhile is_blank line) of None \<Rightarrow> None
      | Some r \<Rightarrow> if word_of r = [] then None else strip_start ''?: '' (after_word r))"

definition accept_undefined :: "string \<Rightarrow> string" where
  "accept_undefined line =
     (case optional_member line of
        None \<Rightarrow> line
      | Some t \<Rightarrow> if 2 \<le> length t \<and> last t = CHR '';'' then butlast line @ '' | undefined;'' else line)"

subsection \<open>The checks of its shape\<close>

definition member_line :: "string \<Rightarrow> bool" where
  "member_line line =
     (let r = dropWhile is_blank line;
          m = (case strip_start ''readonly '' r of None \<Rightarrow> r | Some r' \<Rightarrow> r')
      in r \<noteq> line \<and> word_of m \<noteq> [] \<and> (starts_with '':'' (after_word m) \<or> starts_with ''?:'' (after_word m)))"

definition optional_line :: "string \<Rightarrow> bool" where
  "optional_line line =
     (case strip_start ''readonly '' (dropWhile is_blank line) of None \<Rightarrow> False
      | Some r \<Rightarrow> word_of r \<noteq> [] \<and> starts_with ''?:'' (after_word r))"

definition wrong_member :: "string \<Rightarrow> bool" where
  "wrong_member line \<longleftrightarrow>
     \<not> starts_with ''readonly '' (dropWhile is_blank line) \<or>
     (optional_line line \<and> \<not> ends_with '' | undefined;'' line)"

definition checkMembers :: "string list \<Rightarrow> string + unit" where
  "checkMembers source =
     (let wrong = filter wrong_member (filter member_line source) @
            (if list_ex (has_sub INDEX_SIGNATURE) source then [''a map left as an index signature''] else [])
      in if wrong = [] then Inr ()
         else Inl (''unexpected quicktype output:'' @ newline @ ''  '' @ join (newline @ ''  '') (map trim wrong)))"

definition declares :: "string \<Rightarrow> string \<Rightarrow> bool" where
  "declares name line \<longleftrightarrow>
     list_ex (\<lambda>kind. case strip_start (''export '' @ kind @ '' '' @ name) line of
       None \<Rightarrow> False | Some r \<Rightarrow> at_word_end r) [''interface'', ''type'']"

subsection \<open>Index signatures\<close>

definition KEY_SIGNATURE :: string where
  "KEY_SIGNATURE = ''readonly [key: ExtensionKey]: number | undefined;''"

fun before_close :: "string list \<Rightarrow> string list \<Rightarrow> string list option" where
  "before_close new [] = None"
| "before_close new (l # ls) =
     (if starts_with ''}'' l then Some (new @ l # ls) else map_option ((#) l) (before_close new ls))"

fun into_interface :: "string \<Rightarrow> string list \<Rightarrow> string list \<Rightarrow> string list option" where
  "into_interface name new [] = None"
| "into_interface name new (l # ls) =
     (if l = ''export interface '' @ name @ '' {'' then map_option ((#) l) (before_close new ls)
      else map_option ((#) l) (into_interface name new ls))"

definition numeric_types :: "jsval \<Rightarrow> bool" where
  "numeric_types t =
     (let ts = (case t of JArr xs \<Rightarrow> xs | v \<Rightarrow> [v])
      in list_all (\<lambda>x. x = JStr ''integer'' \<or> x = JStr ''number'') ts)"

text \<open>The description of a slot, with the end of a comment inside it escaped.\<close>

definition doc_line :: "string \<Rightarrow> string" where
  "doc_line d = ''/** '' @ replace_all ''*/'' [CHR ''*'', CHR 0x5C, CHR ''/''] d @ '' */''"

definition slot_doc :: "jsval \<Rightarrow> string list" where
  "slot_doc v =
     (case jget v ''description'' of
        JStr d \<Rightarrow> split_on (CHR 0x0A) (doc_line d)
      | _ \<Rightarrow> [])"

definition withExtensionSlot :: "string list \<Rightarrow> slot \<Rightarrow> string + string list" where
  "withExtensionSlot source sl =
     (case map_of TYPE_NAMES (slot_path sl) of
        None \<Rightarrow> Inl (''no type name for the extension slot at '' @ path_text (slot_path sl))
      | Some name \<Rightarrow>
          if \<not> numeric_types (jget (slot_value sl) ''type'')
          then Inl (''no TypeScript type for the extension properties at '' @ path_text (slot_path sl))
          else case into_interface name (slot_doc (slot_value sl) @ [KEY_SIGNATURE]) source of
            None \<Rightarrow> Inl (''quicktype did not emit '' @ name @ '' as an interface'')
          | Some source \<Rightarrow> Inr source)"

fun with_slots :: "string list \<Rightarrow> slot list \<Rightarrow> string + string list" where
  "with_slots source [] = Inr source"
| "with_slots source (sl # sls) = andThen (withExtensionSlot source sl) (\<lambda>source. with_slots source sls)"

definition rewritten :: "string list \<Rightarrow> string list" where
  "rewritten source = map (\<lambda>l. accept_undefined (rewrite_maps l)) source"

definition recordTypes :: "(jsval \<Rightarrow> string list) \<Rightarrow> jsval \<Rightarrow> string + string list" where
  "recordTypes quicktype schema =
     andThen (titled schema) (\<lambda>input.
     let source = rewritten (quicktype input)
     in andThen (checkMembers source) (\<lambda>_.
        let missing = filter (\<lambda>name. \<not> list_ex (declares name) source) (map snd TYPE_NAMES)
        in if missing \<noteq> [] then Inl (''quicktype did not emit '' @ join '', '' missing)
           else andThen (extensionSlots schema []) (with_slots source)))"

section \<open>What is written\<close>

text \<open>The tools the generator calls.\<close>

record tools =
  ajv :: "jsval \<Rightarrow> string"
  quicktype :: "jsval \<Rightarrow> string list"
  prettier :: "string \<Rightarrow> string \<Rightarrow> string"
  stringified :: "jsval \<Rightarrow> string"
  text_of :: "jsval \<Rightarrow> string"
  regexp_text :: "string \<Rightarrow> string + string"

text \<open>\<open>examples?.[0]\<close>.\<close>

definition first_of :: "jsval \<Rightarrow> jsval" where
  "first_of v = (case v of JArr (x # _) \<Rightarrow> x | JStr (c # _) \<Rightarrow> JStr [c] | w \<Rightarrow> jget w ''0'')"

definition schemaSource :: "tools \<Rightarrow> jsval \<Rightarrow> string + string" where
  "schemaSource T schema =
     andThen (asNode (jget schema ''properties'') ''#/properties'') (\<lambda>props.
     andThen (asNode (jget props ''spec_version'') ''spec_version'') (\<lambda>version.
     case first_of (jget version ''examples'') of
       JStr release \<Rightarrow>
         andThen (extensionPrefix schema) (\<lambda>prefix.
         andThen (regexp_text T (text_of T (jget version ''pattern''))) (\<lambda>pattern.
         andThen (recordTypes (quicktype T) schema) (\<lambda>types.
         Inr (join newline
           ([HEADER, [],
             ''/** The AUDR release this package implements, from the schema'' @ [CHR 0x27] @ ''s '' @ backtick @
               ''spec_version'' @ backtick @ '' example. */'',
             ''export const SPEC_VERSION = '' @ stringified T (JStr release) @ '';'',
             ''/** Every '' @ backtick @ ''spec_version'' @ backtick @ '' the schema admits. */'',
             ''export const SUPPORTED_SPEC_VERSION = '' @ pattern @ '';'', [],
             ''/** An '' @ backtick @ prefix @ ''*'' @ backtick @ '' provider or implementation counter. */'',
             ''export type ExtensionKey = '' @ backtick @ prefix @ ''${string}'' @ backtick @ '';'', []] @
            types @ [[]])))))
     | _ \<Rightarrow> Inl (''no spec_version example in the schema '' @ text_of T (jget schema ''$id''))))"

definition VALIDATOR_OUT :: string where
  "VALIDATOR_OUT = ''src/generated-validator.ts''"

definition SCHEMA_OUT :: string where
  "SCHEMA_OUT = ''src/generated-schema.ts''"

definition generated :: "tools \<Rightarrow> jsval \<Rightarrow> string + (string \<times> string) list" where
  "generated T parsed =
     andThen (asNode parsed ''audr.schema.json'') (\<lambda>schema.
     andThen (asNode (bare parsed) ''audr.schema.json'') (\<lambda>without_prose.
     andThen (validatorSource (ajv T) without_prose) (\<lambda>v.
     andThen (schemaSource T schema) (\<lambda>t.
     Inr [(VALIDATOR_OUT, prettier T v VALIDATOR_OUT), (SCHEMA_OUT, prettier T t SCHEMA_OUT)]))))"

type_synonym disk = "string \<Rightarrow> string option"

record gen_run =
  files :: disk
  exit_code :: nat
  said :: "string list"
  complained :: "string list"

definition gen_schema :: "tools \<Rightarrow> bool \<Rightarrow> jsval \<Rightarrow> disk \<Rightarrow> string + gen_run" where
  "gen_schema T check parsed d =
     andThen (generated T parsed) (\<lambda>outputs.
     Inr (if check
       then let stale = filter (\<lambda>(file, output). d file \<noteq> Some output) outputs
         in \<lparr>files = d, exit_code = (if stale \<noteq> [] then 1 else 0),
             said = (if stale = [] then [''  generated schema files are current''] else []),
             complained = map (\<lambda>(file, _). ''  '' @ file @ '' is stale; run '' @ backtick @ ''make schema'' @ backtick) stale\<rparr>
       else \<lparr>files = foldl (\<lambda>d (file, output). d(file \<mapsto> output)) d outputs, exit_code = 0,
             said = [''  wrote '' @ join '', '' (map fst outputs)], complained = []\<rparr>))"

section \<open>Properties\<close>

text \<open>
  The titles the generator sets for quicktype change nothing else of the schema: without its
  annotations, the titled schema is the schema the validator is compiled from, and that one
  holds no annotation at any depth.
\<close>

theorem titles_only_annotate:
  assumes "titled schema = Inr input" "isNode schema"
    and "\<forall>(ks, name) \<in> set TYPE_NAMES. \<not> isNode (jget (node_at schema ks) ''title'')"
  shows "bare input = bare schema \<and> no_prose (bare schema)"
proof -
  have "bare input = bare schema"
    by (rule title_all_bare [OF assms(1) [unfolded titled_def] assms(2)]) (use assms(3) in auto)
  then show ?thesis using no_prose_bare by simp
qed

lemma generated_files: "generated T parsed = Inr outputs \<Longrightarrow> map fst outputs = [VALIDATOR_OUT, SCHEMA_OUT]"
  by (auto simp: generated_def andThen_Inr)

lemma files_distinct: "VALIDATOR_OUT \<noteq> SCHEMA_OUT"
  by (simp add: VALIDATOR_OUT_def SCHEMA_OUT_def)

text \<open>
  A check writes nothing and fails exactly when a file on disk is not what the generator makes
  of the schema now; right after a run without \<open>--check\<close> it passes, whatever was on disk.
\<close>

theorem check_finds_stale:
  assumes "generated T parsed = Inr outputs"
  shows "\<exists>checked written rechecked.
    gen_schema T True parsed d = Inr checked \<and> files checked = d \<and>
    (exit_code checked = 0 \<longleftrightarrow> list_all (\<lambda>(file, output). d file = Some output) outputs) \<and>
    gen_schema T False parsed d = Inr written \<and> exit_code written = 0 \<and>
    gen_schema T True parsed (files written) = Inr rechecked \<and> exit_code rechecked = 0"
proof -
  obtain a b where "outputs = [(VALIDATOR_OUT, a), (SCHEMA_OUT, b)]"
    using generated_files [OF assms] by (cases outputs; cases "tl outputs") auto
  with assms files_distinct show ?thesis by (simp add: gen_schema_def Let_def)
qed

subsection \<open>The types that are written\<close>

fun signed_in :: "string \<Rightarrow> string list \<Rightarrow> bool" where
  "signed_in name [] = False"
| "signed_in name (l # ls) =
     ((l = ''export interface '' @ name @ '' {'' \<and>
        List.member (takeWhile (\<lambda>l. \<not> starts_with ''}'' l) ls) KEY_SIGNATURE) \<or> signed_in name ls)"

lemma before_close_set: "before_close new ls = Some ls' \<Longrightarrow> set ls' = set new \<union> set ls"
  by (induction ls arbitrary: ls') (auto split: if_splits)

lemma into_interface_set: "into_interface name new ls = Some ls' \<Longrightarrow> set ls' = set new \<union> set ls"
  by (induction ls arbitrary: ls') (auto split: if_splits dest: before_close_set)

lemma before_close_open:
  assumes "before_close new ls = Some ls'" "list_all (\<lambda>l. \<not> starts_with ''}'' l) new"
  shows "set (takeWhile (\<lambda>l. \<not> starts_with ''}'' l) ls') = set new \<union> set (takeWhile (\<lambda>l. \<not> starts_with ''}'' l) ls)"
  using assms by (induction ls arbitrary: ls') (auto simp: list_all_iff takeWhile_append split: if_splits)

lemma signed_in_append: "signed_in name ls \<Longrightarrow> signed_in name (new @ ls)"
  by (induction new) auto

lemma before_close_signed:
  "before_close new ls = Some ls' \<Longrightarrow> list_all (\<lambda>l. \<not> starts_with ''}'' l) new \<Longrightarrow> signed_in name ls \<Longrightarrow> signed_in name ls'"
proof (induction ls arbitrary: ls')
  case (Cons l ls)
  show ?case
  proof (cases "starts_with ''}'' l")
    case True
    with Cons.prems(1) have "ls' = new @ l # ls" by simp
    then show ?thesis using Cons.prems(3) by (simp only: signed_in_append)
  next
    case False
    with Cons.prems(1) obtain ls'' where "before_close new ls = Some ls''" "ls' = l # ls''" by auto
    then show ?thesis using Cons before_close_open [of new ls ls''] by auto
  qed
qed simp

lemma not_close: "\<not> starts_with ''}'' (''export interface '' @ name @ '' {'')"
  by simp

lemma into_interface_open:
  assumes "into_interface name new ls = Some ls'" "list_all (\<lambda>l. \<not> starts_with ''}'' l) new"
  shows "set (takeWhile (\<lambda>l. \<not> starts_with ''}'' l) ls) \<subseteq> set (takeWhile (\<lambda>l. \<not> starts_with ''}'' l) ls')"
  using assms
proof (induction ls arbitrary: ls')
  case (Cons l ls)
  show ?case
  proof (cases "l = ''export interface '' @ name @ '' {''")
    case True
    with Cons.prems(1) obtain ls'' where ls: "before_close new ls = Some ls''" "ls' = l # ls''" by auto
    with before_close_open [OF ls(1) Cons.prems(2)] show ?thesis by auto
  next
    case False
    with Cons.prems(1) obtain ls'' where ls: "into_interface name new ls = Some ls''" "ls' = l # ls''" by auto
    from Cons.IH [OF ls(1) Cons.prems(2)] show ?thesis by (auto simp: ls(2))
  qed
qed simp

lemma into_interface_signed:
  assumes "list_all (\<lambda>l. \<not> starts_with ''}'' l) new"
  shows "into_interface name' new ls = Some ls' \<Longrightarrow> signed_in name ls \<Longrightarrow> signed_in name ls'"
proof (induction ls arbitrary: ls')
  case (Cons l ls)
  show ?case
  proof (cases "l = ''export interface '' @ name' @ '' {''")
    case True
    with Cons.prems(1) obtain ls'' where ls: "before_close new ls = Some ls''" "ls' = l # ls''" by auto
    from before_close_open [OF ls(1) assms] before_close_signed [OF ls(1) assms] Cons.prems(2) show ?thesis
      by (auto simp: ls(2))
  next
    case False
    with Cons.prems(1) obtain ls'' where ls: "into_interface name' new ls = Some ls''" "ls' = l # ls''" by auto
    from into_interface_open [OF ls(1) assms] Cons.IH [OF ls(1)] Cons.prems(2) show ?thesis
      by (auto simp: ls(2))
  qed
qed simp

lemma into_interface_signs:
  assumes "list_all (\<lambda>l. \<not> starts_with ''}'' l) new" "KEY_SIGNATURE \<in> set new"
  shows "into_interface name new ls = Some ls' \<Longrightarrow> signed_in name ls'"
proof (induction ls arbitrary: ls')
  case (Cons l ls)
  show ?case
  proof (cases "l = ''export interface '' @ name @ '' {''")
    case True
    with Cons.prems obtain ls'' where ls: "before_close new ls = Some ls''" "ls' = l # ls''" by auto
    with before_close_open [OF ls(1) assms(1)] assms(2) True show ?thesis by auto
  next
    case False
    with Cons.prems obtain ls'' where ls: "into_interface name new ls = Some ls''" "ls' = l # ls''" by auto
    from Cons.IH [OF ls(1)] show ?thesis by (simp add: ls(2))
  qed
qed simp

definition single_line :: "slot \<Rightarrow> bool" where
  "single_line sl = (case jget (slot_value sl) ''description'' of JStr d \<Rightarrow> CHR 0x0A \<notin> set d | _ \<Rightarrow> True)"

lemma replace_all_set: "set (replace_all p r s) \<subseteq> set r \<union> set s"
proof (induction p r s rule: replace_all.induct)
  case (2 p r c cs)
  then show ?case using set_drop_subset [of "length p" "c # cs"] by auto
qed simp

lemma slot_doc_lines:
  assumes "single_line sl" "l \<in> set (slot_doc (slot_value sl))"
  shows "\<exists>d. l = ''/** '' @ d"
proof -
  obtain d where d: "jget (slot_value sl) ''description'' = JStr d" "l \<in> set (split_on (CHR 0x0A) (doc_line d))"
    using assms(2) unfolding slot_doc_def by (cases "jget (slot_value sl) ''description''") auto
  have "CHR 0x0A \<notin> set (replace_all ''*/'' [CHR ''*'', CHR 0x5C, CHR ''/''] d)"
    using assms(1) d(1) replace_all_set [of "''*/''" "[CHR ''*'', CHR 0x5C, CHR ''/'']" d]
    by (auto simp: single_line_def)
  then have "CHR 0x0A \<notin> set (doc_line d)" by (simp add: doc_line_def)
  from d(2) split_on_single [OF this] show ?thesis by (simp add: doc_line_def)
qed

text \<open>What a slot adds is a line of comment or the signature: no member, no end of an interface.\<close>

definition added_by :: "slot \<Rightarrow> string list" where
  "added_by sl = slot_doc (slot_value sl) @ [KEY_SIGNATURE]"

lemma added_lines:
  assumes "single_line sl" "l \<in> set (added_by sl)"
  shows "\<not> member_line l" "\<not> starts_with ''}'' l"
proof -
  have "(\<exists>d. l = ''/** '' @ d) \<or> l = KEY_SIGNATURE" using assms slot_doc_lines by (auto simp: added_by_def)
  then show "\<not> member_line l" "\<not> starts_with ''}'' l"
    by (auto simp: member_line_def Let_def KEY_SIGNATURE_def is_blank_def code_def)
qed

lemma slots_add:
  "with_slots source slots = Inr out \<Longrightarrow> list_all single_line slots \<Longrightarrow>
    set out = set source \<union> (\<Union>sl \<in> set slots. set (added_by sl)) \<and>
    (\<forall>name. signed_in name source \<longrightarrow> signed_in name out) \<and>
    (\<forall>sl \<in> set slots. \<exists>name. map_of TYPE_NAMES (slot_path sl) = Some name \<and> signed_in name out)"
proof (induction slots arbitrary: source)
  case (Cons sl slots)
  then obtain source' where s': "withExtensionSlot source sl = Inr source'" "with_slots source' slots = Inr out"
    by (auto simp: andThen_Inr)
  then obtain name where name: "map_of TYPE_NAMES (slot_path sl) = Some name"
    and ins: "into_interface name (added_by sl) source = Some source'"
    by (auto simp: withExtensionSlot_def added_by_def split: option.splits if_splits)
  have new: "list_all (\<lambda>l. \<not> starts_with ''}'' l) (added_by sl)" "KEY_SIGNATURE \<in> set (added_by sl)"
    using added_lines Cons.prems(2) by (auto simp: list_all_iff) (simp add: added_by_def)
  from Cons.IH [OF s'(2)] Cons.prems(2) name into_interface_set [OF ins] into_interface_signed [OF new(1) ins]
    into_interface_signs [OF new ins] show ?case by auto
qed simp

lemma filter_not_Nil: "filter (\<lambda>x. \<not> P x) xs = [] \<longleftrightarrow> list_all P xs"
  by (induction xs) auto

lemma record_types_made:
  assumes "recordTypes qt schema = Inr out" "extensionSlots schema [] = Inr slots"
  shows "\<exists>source. checkMembers source = Inr () \<and>
    list_all (\<lambda>name. list_ex (declares name) source) (map snd TYPE_NAMES) \<and> with_slots source slots = Inr out"
proof -
  obtain input where input: "titled schema = Inr input"
    using assms(1) unfolding recordTypes_def andThen_Inr by blast
  let ?source = "rewritten (qt input)"
  have run: "andThen (checkMembers ?source) (\<lambda>_.
        let missing = filter (\<lambda>name. \<not> list_ex (declares name) ?source) (map snd TYPE_NAMES)
        in if missing \<noteq> [] then Inl (''quicktype did not emit '' @ join '', '' missing)
           else andThen (extensionSlots schema []) (with_slots ?source)) = Inr out"
    using assms(1) unfolding recordTypes_def input andThen.simps Let_def .
  then have check: "checkMembers ?source = Inr ()" unfolding andThen_Inr by auto
  have "list_all (\<lambda>name. list_ex (declares name) ?source) (map snd TYPE_NAMES) \<and> with_slots ?source slots = Inr out"
    using run unfolding check andThen.simps Let_def assms(2) filter_not_Nil by (simp split: if_splits)
  with check show ?thesis by blast
qed



subsection \<open>Examples\<close>

text \<open>A schema with the objects the generator names, and an extension slot.\<close>

definition with_properties :: "fields \<Rightarrow> jsval" where
  "with_properties ps = JObj [(''type'', JStr ''object''), (''properties'', JObj ps)]"

definition small_schema :: jsval where
  "small_schema = with_properties
    [(''spec_version'', JObj [(''pattern'', JStr ''^1$''), (''examples'', JArr [JStr ''1.0.0''])]),
     (''emitter'', with_properties [(''component'', JObj [(''title'', JStr ''part'')])]),
     (''timing'', with_properties []),
     (''resource'', with_properties [(''type'', JObj []), (''operation'', JObj []), (''modality'', JObj [])]),
     (''run'', with_properties [(''run_type'', JObj []), (''outcome'', JObj [])]),
     (''attribution'', with_properties [(''environment'', JObj [])]),
     (''usage'', with_properties
       [(''llm'', JObj [(''properties'', JObj [(''requests'', JObj [])]),
          (''patternProperties'', JObj [(''^x_[a-z]+$'', JObj [(''type'', JStr ''integer''), (''description'', JStr ''A counter.'')])])]),
        (''tool'', with_properties [])]),
     (''cost'', with_properties [(''llm'', with_properties []), (''tool'', with_properties [])])]"

definition small_slot :: slot where
  "small_slot = \<lparr>slot_path = [''usage'', ''llm''], slot_pattern = ''^x_[a-z]+$'',
     slot_value = JObj [(''type'', JStr ''integer''), (''description'', JStr ''A counter.'')]\<rparr>"

definition small_types :: "string list" where
  "small_types =
    [''export interface LlmUsage {'', ''    readonly requests?: number;'',
     ''    readonly labels: { [key: string]: string };'', ''}''] @
    map (\<lambda>(_, name). ''export type '' @ name @ '' = string;'') (filter (\<lambda>(_, name). name \<noteq> ''LlmUsage'') TYPE_NAMES)"

lemma small_slots: "extensionSlots small_schema [] = Inr [small_slot]"
  by code_simp

lemma small_output:
  "case recordTypes (\<lambda>_. small_types) small_schema of Inl _ \<Rightarrow> False
    | Inr out \<Rightarrow> take 6 out =
        [''export interface LlmUsage {'', ''    readonly requests?: number | undefined;'',
         ''    readonly labels: Readonly<Record<string, string>>;'', ''/** A counter. */'', KEY_SIGNATURE, ''}'']"
  by code_simp

lemma small_made: "\<exists>out. recordTypes (\<lambda>_. small_types) small_schema = Inr out"
  using small_output by (cases "recordTypes (\<lambda>_. small_types) small_schema") simp_all

lemma small_titled: "\<exists>input. titled small_schema = Inr input"
  using small_made by (auto simp: recordTypes_def andThen_Inr)


theorem titles_only_annotate_witness:
  "\<exists>input. titled small_schema = Inr input \<and> bare input = bare small_schema \<and> no_prose (bare small_schema)"
proof -
  obtain input where "titled small_schema = Inr input" using small_titled by blast
  moreover have "isNode small_schema" by (simp add: isNode_def small_schema_def with_properties_def)
  moreover have "\<forall>(ks, name) \<in> set TYPE_NAMES. \<not> isNode (jget (node_at small_schema ks) ''title'')" by code_simp
  ultimately show ?thesis using titles_only_annotate by blast
qed

definition small_tools :: tools where
  "small_tools = \<lparr>ajv = (\<lambda>_. quote @ ''use strict'' @ quote @ '';export const validate = f;export default f;const f=1;''),
     quicktype = (\<lambda>_. small_types), prettier = (\<lambda>s _. s), stringified = (\<lambda>_. ''1''), text_of = (\<lambda>_. ''^1$''),
     regexp_text = Inr\<rparr>"

lemma small_validator: "case validatorSource (ajv small_tools) JUndef of Inl _ \<Rightarrow> False | Inr _ \<Rightarrow> True"
  by code_simp

lemma small_validated: "\<exists>v. validatorSource (ajv small_tools) w = Inr v"
  using small_validator by (simp add: validatorSource_def small_tools_def split: sum.splits)

lemma small_version:
  "\<exists>ps. jget small_schema ''properties'' = JObj ps \<and> (\<exists>v. jget (JObj ps) ''spec_version'' = JObj v \<and>
    first_of (jget (JObj v) ''examples'') = JStr ''1.0.0'')"
  by (simp add: small_schema_def with_properties_def js_simps first_of_def)

lemma small_prefix: "extensionPrefix small_schema = Inr ''x_''"
  by code_simp

lemma small_generated: "\<exists>outputs. generated small_tools small_schema = Inr outputs"
proof -
  obtain types where types: "recordTypes (\<lambda>_. small_types) small_schema = Inr types" using small_made by blast
  obtain ps v where ps: "jget small_schema ''properties'' = JObj ps" "jget (JObj ps) ''spec_version'' = JObj v"
    "first_of (jget (JObj v) ''examples'') = JStr ''1.0.0''" using small_version by blast
  have node: "isNode (JObj kvs)" for kvs by (simp add: isNode_def)
  have "\<exists>t. schemaSource small_tools small_schema = Inr t"
    unfolding schemaSource_def ps asNode_def node
    by (simp add: ps node types small_prefix) (simp add: small_tools_def types)
  moreover have "isNode small_schema" by (simp add: isNode_def small_schema_def with_properties_def)
  ultimately show ?thesis using small_validated by (auto simp: generated_def andThen_Inr asNode_Inr)
qed

theorem check_finds_stale_witness:
  "\<exists>written. gen_schema small_tools False small_schema (\<lambda>_. None) = Inr written \<and>
    (\<exists>checked. gen_schema small_tools True small_schema (files written) = Inr checked \<and> exit_code checked = 0)"
  using small_generated check_finds_stale [of small_tools small_schema _ "\<lambda>_. None"] by blast

end
