(* ===== verification/PackageCheck.thy ===== *)
theory PackageCheck
  imports Regex
begin

text \<open>
  The two checks of the packages, \<open>tools/verify-npm-package.mjs\<close> and \<open>tools/check-workspace-core.mjs\<close>: which
  packages are packed and installed for one, what must be installed, what its two module systems
  must export, and the temporary project, which is removed however the check ends. The
  manifests, and what \<open>npm\<close> and \<open>node\<close> answer, are arguments; a command that fails throws.
\<close>

section \<open>Commands\<close>

text \<open>
  The surroundings a check changes: how many temporary projects there are, and the commands it
  ran. A step gives the message of an exception or a result.
\<close>

record shell =
  projects :: nat
  ran :: "(string \<times> string list) list"

type_synonym 'a check_step = "shell \<Rightarrow> (string + 'a) \<times> shell"

definition result :: "string + 'a \<Rightarrow> 'a check_step" where
  "result r st = (r, st)"

definition proceed :: "'a check_step \<Rightarrow> ('a \<Rightarrow> 'b check_step) \<Rightarrow> 'b check_step" where
  "proceed m f st = (case m st of (Inl e, st) \<Rightarrow> (Inl e, st) | (Inr x, st) \<Rightarrow> f x st)"

fun each_of :: "('a \<Rightarrow> 'b check_step) \<Rightarrow> 'a list \<Rightarrow> 'b list check_step" where
  "each_of f [] = result (Inr [])"
| "each_of f (x # xs) = proceed (f x) (\<lambda>y. proceed (each_of f xs) (\<lambda>ys. result (Inr (y # ys))))"

text \<open>\<open>execFileSync\<close>, with what the command answers.\<close>

definition run_command :: "string \<Rightarrow> string list \<Rightarrow> string + 'a \<Rightarrow> 'a check_step" where
  "run_command command args answer st = (answer, st\<lparr>ran := ran st @ [(command, args)]\<rparr>)"

text \<open>\<open>mkdtempSync\<close>, and \<open>finally\<close> with \<open>rmSync\<close>.\<close>

definition in_project :: "'a check_step \<Rightarrow> 'a check_step" where
  "in_project body st =
     (case body (st\<lparr>projects := Suc (projects st)\<rparr>) of (r, st') \<Rightarrow> (r, st'\<lparr>projects := projects st' - 1\<rparr>))"

section \<open>A package\<close>

record manifest =
  package_name :: string
  peerDependencies :: "(string \<times> string) list"
  devDependencies :: "(string \<times> string) list"
  dependencies :: "(string \<times> string) list"

definition USAGE :: string where
  "USAGE = ''usage: verify-npm-package.mjs <package-dir> [--core-floor]''"

definition parse_arguments :: "string list \<Rightarrow> string + string \<times> bool" where
  "parse_arguments args =
     (case args of
        [dir] \<Rightarrow> if dir = [] then Inl USAGE else Inr (dir, False)
      | [dir, mode] \<Rightarrow> if dir = [] \<or> mode \<noteq> ''--core-floor'' then Inl USAGE else Inr (dir, True)
      | _ \<Rightarrow> Inl USAGE)"

definition FLOOR :: rx where
  "FLOOR = Cat [Chr (CHR ''^''), Plus Digit, Chr (CHR ''.''), Plus Digit, Chr (CHR ''.''), Plus Digit]"

definition floor_of :: "string \<Rightarrow> manifest \<Rightarrow> string option" where
  "floor_of core_name pk =
     (case map_of (peerDependencies pk) core_name of
        None \<Rightarrow> None
      | Some wanted \<Rightarrow> if matches FLOOR wanted then Some (drop 1 wanted) else None)"

text \<open>The directories to pack; the third-party peers, each at the version it is tested against.\<close>

definition packed_dirs :: "string \<Rightarrow> string \<Rightarrow> bool \<Rightarrow> string list" where
  "packed_dirs pkg core core_floor = (if pkg = core \<or> core_floor then [pkg] else [core, pkg])"

definition third_party :: "string list \<Rightarrow> string \<Rightarrow> manifest \<Rightarrow> string list" where
  "third_party packed_names core_name pk =
     map (\<lambda>(peer, wanted). peer @ ''@'' @ (case map_of (devDependencies pk) peer of Some v \<Rightarrow> v | None \<Rightarrow> wanted))
       (filter (\<lambda>p. \<not> List.member packed_names (fst p) \<and> fst p \<noteq> core_name) (property_order (peerDependencies pk)))"

text \<open>\<open>installedPackages\<close>, of the entries of \<open>node_modules\<close> and the entries of each.\<close>

definition installedPackages :: "(string \<times> string list) list \<Rightarrow> string list" where
  "installedPackages modules =
     sort (concat (map (\<lambda>(entry, inside). if starts_with ''@'' entry then map (\<lambda>child. entry @ ''/'' @ child) inside else [entry])
       (filter (\<lambda>p. \<not> starts_with ''.'' (fst p)) modules)))"

definition expected_packages :: "manifest list \<Rightarrow> string list" where
  "expected_packages packed = sort (remdups (concat (map (\<lambda>pk. package_name pk # map fst (dependencies pk)) packed)))"

section \<open>The check\<close>

text \<open>
  The directory of a project, the path of a file in it, what packing a directory prints, what is
  in \<open>node_modules\<close> after an install, and what \<open>node\<close> prints; the copy of the smoke test is a
  part of running it.
\<close>

record surroundings =
  manifest_of :: "string \<Rightarrow> manifest"
  project_dir :: string
  path_in :: "string \<Rightarrow> string \<Rightarrow> string"
  npm_pack :: "string \<Rightarrow> string + string"
  npm_install :: "string list \<Rightarrow> string + (string \<times> string list) list"
  node :: "string list \<Rightarrow> string + string"

definition pack :: "surroundings \<Rightarrow> string \<Rightarrow> string check_step" where
  "pack e dir =
     proceed (run_command ''npm'' [''pack'', ''--silent'', ''--pack-destination'', project_dir e] (npm_pack e dir))
       (\<lambda>printed. result (Inr (path_in e (project_dir e) (trim printed))))"

definition install :: "surroundings \<Rightarrow> string list \<Rightarrow> (string \<times> string list) list check_step" where
  "install e specs =
     run_command ''npm'' ([''install'', ''--silent'', ''--no-audit'', ''--no-fund''] @ specs) (npm_install e specs)"

definition as_expected :: "string list \<Rightarrow> string list \<Rightarrow> unit check_step" where
  "as_expected expected installed =
     result (if join '','' installed \<noteq> join '','' expected
       then Inl (''expected '' @ join '', '' expected @ '', found: '' @ join '', '' installed) else Inr ())"

definition print_exports :: "string \<Rightarrow> string" where
  "print_exports source = ''console.log(Object.keys('' @ source @ '').sort().join())''"

definition run_node :: "surroundings \<Rightarrow> string list \<Rightarrow> string check_step" where
  "run_node e args = run_command ''node'' args (node e args)"

definition exports_agree :: "surroundings \<Rightarrow> string \<Rightarrow> unit check_step" where
  "exports_agree e name =
     proceed (run_node e [''--input-type=module'', ''-e'', print_exports (''await import('' @ [CHR 0x27] @ name @ [CHR 0x27] @ '')'')]) (\<lambda>esm.
     proceed (run_node e [''-e'', print_exports (''require('' @ [CHR 0x27] @ name @ [CHR 0x27] @ '')'')]) (\<lambda>cjs.
     result (if esm \<noteq> cjs then Inl (''require() exports '' @ trim cjs @ '', import exports '' @ trim esm) else Inr ())))"

definition core_specs :: "surroundings \<Rightarrow> string \<Rightarrow> string \<Rightarrow> bool \<Rightarrow> string + string list" where
  "core_specs e pkg core core_floor =
     (let core_name = package_name (manifest_of e core)
      in if \<not> core_floor then Inr []
         else case floor_of core_name (manifest_of e pkg) of
           None \<Rightarrow> Inl (package_name (manifest_of e pkg) @ '' must declare '' @ core_name @ '' as a peer with a ^x.y.z range'')
         | Some v \<Rightarrow> Inr [core_name @ ''@'' @ v])"

definition checked_install :: "surroundings \<Rightarrow> string list \<Rightarrow> string list \<Rightarrow> string list \<Rightarrow> bool \<Rightarrow> unit check_step" where
  "checked_install e packed core_spec peers core_floor =
     proceed (each_of (pack e) packed) (\<lambda>tarballs.
     proceed (install e (tarballs @ core_spec @ peers)) (\<lambda>modules.
     if peers = [] \<and> \<not> core_floor
     then as_expected (expected_packages (map (manifest_of e) packed)) (installedPackages modules)
     else result (Inr ())))"

definition verify_package :: "surroundings \<Rightarrow> string \<Rightarrow> string \<Rightarrow> bool \<Rightarrow> string check_step" where
  "verify_package e pkg core core_floor =
     (let name = package_name (manifest_of e pkg);
          packed = packed_dirs pkg core core_floor;
          peers = third_party (map (\<lambda>d. package_name (manifest_of e d)) packed)
            (package_name (manifest_of e core)) (manifest_of e pkg)
      in proceed (result (core_specs e pkg core core_floor)) (\<lambda>core_spec.
         in_project
           (proceed (checked_install e packed core_spec peers core_floor) (\<lambda>_.
            proceed (run_node e [''smoke.mjs'']) (\<lambda>_.
            proceed (exports_agree e name) (\<lambda>_.
            result (Inr (''  '' @ name @ '' installs with '' @
              join '', '' (core_spec @ (if peers = [] \<and> \<not> core_floor then [''exactly its runtime dependencies''] else peers)) @
              '' and passes its smoke test via import and require''))))))))"

section \<open>What a check leaves, and what it shows\<close>

text \<open>A step leaves as many projects as there were.\<close>

definition tidy :: "'a check_step \<Rightarrow> bool" where
  "tidy m \<longleftrightarrow> (\<forall>st. projects (snd (m st)) = projects st)"

named_theorems tidy_steps

lemma tidy_result [tidy_steps]: "tidy (result r)"
  by (simp add: tidy_def result_def)

lemma tidy_run_command [tidy_steps]: "tidy (run_command c args r)"
  by (simp add: tidy_def run_command_def)

lemma tidy_proceed [tidy_steps]:
  assumes "tidy m" "\<And>x. tidy (f x)"
  shows "tidy (proceed m f)"
  unfolding tidy_def
proof
  fix st
  obtain r st' where m: "m st = (r, st')" by fastforce
  with assms(1) have "projects st' = projects st" unfolding tidy_def by (metis snd_conv)
  with m assms(2) show "projects (snd (proceed m f st)) = projects st"
    by (cases r) (simp_all add: proceed_def tidy_def)
qed

lemma tidy_each_of [tidy_steps]:
  assumes "\<And>x. tidy (f x)"
  shows "tidy (each_of f xs)"
  by (induction xs) (auto intro!: tidy_steps assms)

lemma tidy_in_project [tidy_steps]:
  assumes "tidy m"
  shows "tidy (in_project m)"
  unfolding tidy_def
proof
  fix st
  obtain r st' where m: "m (st\<lparr>projects := Suc (projects st)\<rparr>) = (r, st')" by fastforce
  with assms have "projects st' = Suc (projects st)" unfolding tidy_def by (metis snd_conv shell.select_convs(1) shell.surjective shell.update_convs(1))
  with m show "projects (snd (in_project m st)) = projects st" by (simp add: in_project_def)
qed

lemma tidy_if [tidy_steps]: "tidy m \<Longrightarrow> tidy m' \<Longrightarrow> tidy (if b then m else m')"
  by simp

lemma proceed_Inr: "fst (proceed m f st) = Inr y \<longleftrightarrow> (\<exists>x. fst (m st) = Inr x \<and> fst (f x (snd (m st))) = Inr y)"
  by (cases "m st"; cases "fst (m st)") (auto simp: proceed_def)

lemma result_Inr: "fst (result r st) = Inr y \<longleftrightarrow> r = Inr y"
  by (simp add: result_def)

lemma run_command_Inr: "fst (run_command c args r st) = Inr y \<longleftrightarrow> r = Inr y"
  by (simp add: run_command_def)

lemma in_project_Inr: "fst (in_project m st) = Inr y \<longleftrightarrow> fst (m (st\<lparr>projects := Suc (projects st)\<rparr>)) = Inr y"
  by (simp add: in_project_def split: prod.split)

lemmas step_Inr = proceed_Inr result_Inr run_command_Inr in_project_Inr

lemma verify_tidy: "tidy (verify_package e pkg core core_floor)"
  unfolding verify_package_def Let_def checked_install_def pack_def install_def as_expected_def exports_agree_def run_node_def
  by (intro tidy_steps)

text \<open>However a check ends, it leaves no project.\<close>

theorem check_is_tidy: "projects (snd (verify_package e pkg core core_floor st)) = projects st"
  using verify_tidy unfolding tidy_def by blast

text \<open>
  A check that passes has installed the packed packages with the core at the lowest version their
  range allows, if that was asked for, and with the third-party peers; without peers, exactly
  the expected packages were installed; the smoke test ran, and \<open>require()\<close> exposes what \<open>import\<close>
  does.
\<close>

theorem passed_check:
  assumes "fst (verify_package e pkg core core_floor st) = Inr said"
  defines "packed \<equiv> packed_dirs pkg core core_floor" and "pk \<equiv> manifest_of e pkg" and "name \<equiv> package_name (manifest_of e core)"
  defines "peers \<equiv> third_party (map (\<lambda>d. package_name (manifest_of e d)) packed) name pk"
  shows "\<exists>tarballs core_spec modules exported.
    npm_install e (tarballs @ core_spec @ peers) = Inr modules \<and>
    (core_spec = [] \<and> \<not> core_floor \<or>
      (\<exists>v. core_spec = [name @ ''@'' @ v] \<and> core_floor \<and> floor_of name pk = Some v)) \<and>
    (peers = [] \<and> \<not> core_floor \<longrightarrow>
      join '','' (installedPackages modules) = join '','' (expected_packages (map (manifest_of e) packed))) \<and>
    (\<exists>out. node e [''smoke.mjs''] = Inr out) \<and>
    node e [''--input-type=module'', ''-e'', print_exports (''await import('' @ [CHR 0x27] @ package_name pk @ [CHR 0x27] @ '')'')] = Inr exported \<and>
    node e [''-e'', print_exports (''require('' @ [CHR 0x27] @ package_name pk @ [CHR 0x27] @ '')'')] = Inr exported"
proof -
  from assms(1) obtain core_spec where spec: "core_specs e pkg core core_floor = Inr core_spec"
    and rest: "fst (in_project (proceed (checked_install e packed core_spec peers core_floor) (\<lambda>_.
      proceed (run_node e [''smoke.mjs'']) (\<lambda>_. proceed (exports_agree e (package_name pk)) (\<lambda>_.
      result (Inr (''  '' @ package_name pk @ '' installs with '' @
        join '', '' (core_spec @ (if peers = [] \<and> \<not> core_floor then [''exactly its runtime dependencies''] else peers)) @
        '' and passes its smoke test via import and require'')))))) st) = Inr said"
    unfolding verify_package_def Let_def proceed_Inr [where m = "result _"] result_Inr result_def snd_conv fst_conv
      packed_def [symmetric] pk_def [symmetric] name_def [symmetric] peers_def [symmetric]
    by blast
  have "core_spec = [] \<and> \<not> core_floor \<or> (\<exists>v. core_spec = [name @ ''@'' @ v] \<and> core_floor \<and> floor_of name pk = Some v)"
    using spec unfolding core_specs_def Let_def name_def pk_def by (auto split: if_splits option.splits)
  moreover obtain tarballs modules where "npm_install e (tarballs @ core_spec @ peers) = Inr modules"
    "peers = [] \<and> \<not> core_floor \<longrightarrow>
      join '','' (installedPackages modules) = join '','' (expected_packages (map (manifest_of e) packed))"
    using rest unfolding in_project_Inr proceed_Inr checked_install_def install_def run_command_Inr
    by (auto simp: as_expected_def result_Inr split: if_splits)
  moreover obtain out exported where "node e [''smoke.mjs''] = Inr out"
    "node e [''--input-type=module'', ''-e'', print_exports (''await import('' @ [CHR 0x27] @ package_name pk @ [CHR 0x27] @ '')'')] = Inr exported"
    "node e [''-e'', print_exports (''require('' @ [CHR 0x27] @ package_name pk @ [CHR 0x27] @ '')'')] = Inr exported"
    using rest unfolding in_project_Inr proceed_Inr exports_agree_def run_node_def run_command_Inr result_Inr
    by (auto split: if_splits)
  ultimately show ?thesis by blast
qed

section \<open>The lockfile\<close>

text \<open>
  \<open>check-workspace-core.mjs\<close>, of the packages of the lockfile, each with whether it is a link: the
  exit status and what is printed.
\<close>

definition unlinked :: "(string \<times> bool) list \<Rightarrow> string list" where
  "unlinked packages =
     map fst (filter (\<lambda>(path, link). ends_with ''node_modules/@openaudr/audr'' path \<and> \<not> link) (property_order packages))"

definition check_workspace :: "(string \<times> bool) list \<Rightarrow> nat \<times> string list" where
  "check_workspace packages =
     (if unlinked packages \<noteq> [] then (1, [''Not linked to the workspace core: '' @ join '', '' (unlinked packages)])
      else (0, []))"

theorem workspace_passes_iff:
  "fst (check_workspace packages) = 0 \<longleftrightarrow>
    list_all (\<lambda>(path, link). ends_with ''node_modules/@openaudr/audr'' path \<longrightarrow> link) packages"
  by (auto simp: check_workspace_def unlinked_def filter_empty_conv set_property_order list_all_iff)

end
