(* ===== verification/Spec2Isabelle.thy ===== *)
theory Spec2Isabelle
  imports Sinks Acceptance Facade Scoping Lifecycle Types SchemaGen PackageCheck
begin

text \<open>
  AUDR for TypeScript: a record format for AI usage, the client that validates, queues and
  delivers records, the sinks that send them to billing systems, and the adapters that make
  records of the calls of an AI SDK. This development models the core package,
  \<open>src/adapters/core/typescript/src\<close>, the script that generates two of its files,
  the checks of the packages in \<open>src/tools\<close>, the two sinks, \<open>src/sinks/lago/typescript/src\<close> and
  \<open>src/sinks/chargebee/typescript/src\<close>, and the four adapters, \<open>src/adapters/vercel-ai\<close>, \<open>mastra\<close>,
  \<open>merge-gateway\<close> and \<open>openrouter\<close>, each under \<open>typescript/src\<close>.

  \<^bold>\<open>How the parts interact.\<close> A host calls \<open>Client.record\<close>. The client stamps the record, clones it
  and validates it (\<open>validate.ts\<close>, on top of the generated \<open>generated-validator.ts\<close>); a valid
  record goes to the \<open>Pipeline\<close>, which queues it, hands batches to the \<open>Sink\<close>, one at a time,
  takes the sink's answer apart and tells the callbacks. A sink turns records into the events
  of its destination, or rejects them by name, sends the events with retries, and answers for
  every record. An adapter watches the calls a host makes, by the telemetry hooks of the Vercel
  AI SDK, the spans of Mastra, or a facade around a router's client; it resolves who a call is
  billed to, reads usage and cost from its result, and hands one record to \<open>Client.record\<close>.

  \<^bold>\<open>Theories.\<close>
  \<^item> \<open>Prelude\<close>, \<open>Strings\<close>, \<open>Regex\<close>: JavaScript values, strings, property order, and regular
    expressions matched by derivatives, with the lemmas and hints all components share.
  \<^item> \<open>Timestamp\<close> (\<open>validate.ts: parseTimestamp\<close>, \<open>Date.toISOString\<close>), \<open>Errors\<close> (\<open>errors.ts\<close>,
    \<open>record.ts\<close>), \<open>Schema\<close> (the JSON schema and what its keywords mean), \<open>Validator\<close>
    (\<open>generated-validator.ts\<close>), \<open>Validate\<close> (\<open>validate.ts\<close>), \<open>Conformance\<close> (the validator decides
    the schema; \<open>validate\<close> decides conformance, redacts, reports once).
  \<^item> \<open>Sink\<close> (\<open>sink.ts\<close>, \<open>testing.ts\<close>): what a sink answers, the locale \<open>sink_contract\<close> of what every
    sink promises, \<open>assertSinkContract\<close> and \<open>MemorySink\<close>; \<open>FileSink\<close> (\<open>file-sink.ts\<close>).
  \<^item> \<open>Pipeline\<close>, \<open>Delivery\<close>, \<open>Outcomes\<close> (\<open>pipeline.ts\<close>, \<open>results.ts\<close>): the pipeline as a state
    machine whose steps are its synchronous pieces, the invariant of its reachable states, and
    what becomes of each record.
  \<^item> \<open>Codec\<close> (\<open>codec.ts\<close>), \<open>Client\<close> (\<open>client.ts\<close>), \<open>Types\<close> (the TypeScript types of \<open>generated-schema.ts\<close> and
    \<open>record.ts\<close>, and the values that have them), \<open>SchemaGen\<close> (\<open>scripts/gen-schema.ts\<close>, which makes the
    validator and the types from the schema).
  \<^item> \<open>LagoEvent\<close> (\<open>event.ts\<close>, \<open>flatten.ts\<close>, \<open>preflight.ts\<close>), \<open>LagoResponse\<close> (\<open>response.ts\<close>), \<open>LagoSink\<close>
    (\<open>tally.ts\<close>, \<open>sink.ts\<close>); \<open>ChargebeeEvent\<close> (\<open>event.ts\<close>, \<open>flatten.ts\<close>), \<open>ChargebeeSink\<close> (\<open>sink.ts\<close>);
    for both sinks \<open>Retry\<close> (\<open>retry.ts\<close>), \<open>Transport\<close> and \<open>Lifecycle\<close> (\<open>transport.ts\<close>) and \<open>Credentials\<close>
    (\<open>credentials.ts\<close>); \<open>Sinks\<close>: the constructors, and a client with any of the four sinks.
  \<^item> \<open>Attribution\<close> (\<open>attribution.ts\<close>), \<open>Usage\<close> (\<open>mapping.ts\<close>) and \<open>Diagnostics\<close> (\<open>diagnostics.ts\<close>) of all four
    adapters; \<open>Telemetry\<close> (\<open>runs.ts\<close>, \<open>telemetry.ts\<close> of the Vercel AI adapter); \<open>Exporter\<close> (\<open>exporter.ts\<close>
    of the Mastra adapter); \<open>Streams\<close> (\<open>proxy.ts\<close>, and the streams of \<open>gateway.ts\<close>), \<open>Gateway\<close>
    (\<open>gateway.ts\<close>), \<open>Lookup\<close> (\<open>lookup.ts\<close>) and \<open>OpenRouter\<close> (\<open>openrouter.ts\<close>), \<open>Facade\<close> (the
    facades of both router clients, over a graph of native objects); \<open>Scoping\<close> (\<open>withAudr\<close> and the tool
    spans: what an \<open>AsyncLocalStorage\<close> holds when a call starts); \<open>Emission\<close> and \<open>Acceptance\<close>: the
    records of the Mastra exporter and of the Vercel AI telemetry, judged by the client.
  \<^item> \<open>PackageCheck\<close> (\<open>tools/verify-npm-package.mjs\<close>, \<open>tools/check-workspace-core.mjs\<close>): the checks of the
    packages as they are installed.

  \<^bold>\<open>How state and operations correspond.\<close> A class is a record of its private fields; a method is a
  function that takes the record and returns it updated. The pipeline's asynchronous methods
  are cut at their \<open>await\<close>s: each piece is one \<open>step\<close>, and an answer, a timer or a callback's own
  call arrives as an event, in any order \<open>enabled\<close> allows. A sink's \<open>deliver\<close> runs to its end in one
  step against a sequence of \<open>moment\<close>s that say, attempt by attempt, what the destination
  answers and whether the sink was closed or the caller aborted at each point where the code
  looks. An exception is the left value of a sum, or the answer \<open>Threw\<close>. The calls an adapter
  tracks hold the address of the step counter they share; its hooks, exported events and the
  signals of a stream are the constructors of a datatype, and its states those some sequence of
  them reaches.

  \<^bold>\<open>What the lemmas show.\<close> The validator: equivalence with the schema by one lemma per schema
  part. The pipeline: an invariant (\<open>sound\<close>) kept by every step, from which accounting, order,
  bounds and finality follow, and liveness by a variant of the queue. The client: every record
  its sink is handed conforms. The sinks: each is an interpretation of \<open>sink_contract\<close>; the tally of
  a Lago delivery keeps the partition of the batch (\<open>tallied\<close>); requests are bounded; a
  closed transport sends nothing and leaves no pause; the API key goes to the configured host only. The adapters: all calls of a run number their records
  without a gap (\<open>runs_ok\<close>); a record made of a span is accepted by the client, its parts shown to
  satisfy the schema one by one (\<open>sat_fits\<close>), and so is one the telemetry hooks
  make; a tool call is metered unless the history of spans shows it delegated;
  both stream proxies are interpretations of \<open>metered_stream\<close>, so a stream is reported once and
  its frames pass unchanged; both facades are interpretations of \<open>transparent_meter\<close>, so the native
  client sees the calls it would see without one; in any order of the tasks a call is handed the
  scope of the code around it (\<open>handed_as_written\<close>); a lookup ends within its budget; no metered
  call is lost silently. The types: \<open>describes\<close> decides that a type admits what a schema admits, so
  what the validator accepts has its declared type; the generator fails rather than write a
  member that is not guarded.

  \<^bold>\<open>Bounds and fuel.\<close> No definition needs fuel but the pipeline's \<open>pump\<close>, which runs it against a
  sink that always answers and is given twice the length of the queue plus 2, as each round
  takes a non-empty batch off it. The salvage passes of a Lago request are bounded by the code itself, and
  the retries by \<open>maxAttempts\<close>, whose distance is the measure of the loops. The loop of a lookup
  is a partial function, and that it returns is proved of every clock that advances. Numbers are exact
  rationals; the only arithmetic that rounds or overflows, the growth of a backoff, is capped
  at the largest double. Code units are those below 256.

  \<^bold>\<open>Parameters.\<close> \<open>JSON.stringify\<close>, \<open>JSON.parse\<close>, \<open>Date.parse\<close>, the \<open>URL\<close> parser, base64, the text of a
  number, the clock, \<open>Math.random\<close> and fresh UUIDs are arguments; so are Ajv, quicktype and prettier, which the
  generator calls, npm and node, and what the methods of a native client do. The scope or tool span a call
  starts in is an argument of the adapters' steps, and \<open>Scoping\<close> says which one it is.

  \<^bold>\<open>Not modelled.\<close> Log messages of the core and the sinks; the promises the file sink's \<open>close()\<close>
  and the pipeline's \<open>stop()\<close> wait for; the text of HTTP headers; surrogate pairs. Of the adapters, getters of a host's object
  that throw. The entry points \<open>index.ts\<close> only export; the examples, with their stand-in servers, show
  the packages in use; the Python halves and the conformance runner are another language; the
  smoke tests of the packages and the linter's configurations are scripts without a result.
\<close>

end
